(* ===== verification/Prelude.thy ===== *)
theory Prelude
  imports Main "HOL-Library.Word" "HOL-Library.Monad_Syntax" "HOL-Library.Char_ord"
begin

text \<open>
  Shared vocabulary of the development: machine integers and byte strings, the fixed-width
  integer codecs of Go's \<^verbatim>\<open>encoding/binary\<close>, the bit string of an address, Go's
  clock arithmetic, and the generic list and map lemmas the components use.

  A Go runtime panic (an index out of range, a nil dereference, an explicit
  \<^verbatim>\<open>panic\<close>) is the value \<open>None\<close> of an \<open>option\<close> result; a Go
  \<open>error\<close> result is the left side of a sum.
\<close>

unbundle bit_operations_syntax

type_synonym byte = "8 word"
type_synonym u16 = "16 word"
type_synonym u32 = "32 word"
type_synonym u64 = "64 word"
type_synonym bytes = "byte list"

named_theorems codec_simps \<open>lengths and round trips of the byte codecs\<close>
named_theorems bits_simps \<open>bit strings of byte strings\<close>

section \<open>Fixed-width integers as bytes\<close>

text \<open>
  \<open>le_enc n x\<close> is the \<open>n\<close>-byte little-endian image of \<open>x\<close>, and
  \<open>le_dec\<close> reads one back. The big-endian codec is the reversed image.
\<close>

lemma unat_bound: "unat (w :: 'a::len word) < 2 ^ LENGTH('a)"
  by (rule unsigned_less)

fun le_enc :: "nat \<Rightarrow> nat \<Rightarrow> bytes" where
  "le_enc 0 x = []"
| "le_enc (Suc n) x = word_of_nat (x mod 256) # le_enc n (x div 256)"

fun le_dec :: "bytes \<Rightarrow> nat" where
  "le_dec [] = 0"
| "le_dec (b # bs) = unat b + 256 * le_dec bs"

definition le16 :: "u16 \<Rightarrow> bytes" where "le16 w = le_enc 2 (unat w)"
definition le32 :: "u32 \<Rightarrow> bytes" where "le32 w = le_enc 4 (unat w)"
definition le64 :: "u64 \<Rightarrow> bytes" where "le64 w = le_enc 8 (unat w)"
definition be16 :: "u16 \<Rightarrow> bytes" where "be16 w = rev (le_enc 2 (unat w))"
definition be32 :: "u32 \<Rightarrow> bytes" where "be32 w = rev (le_enc 4 (unat w))"
definition be64 :: "u64 \<Rightarrow> bytes" where "be64 w = rev (le_enc 8 (unat w))"

definition get_le32 :: "bytes \<Rightarrow> u32" where "get_le32 bs = word_of_nat (le_dec (take 4 bs))"
definition get_le64 :: "bytes \<Rightarrow> u64" where "get_le64 bs = word_of_nat (le_dec (take 8 bs))"
definition get_be16 :: "bytes \<Rightarrow> u16" where "get_be16 bs = word_of_nat (le_dec (rev (take 2 bs)))"

lemma length_le_enc [simp, codec_simps]: "length (le_enc n x) = n"
  by (induction n arbitrary: x) auto

lemma le_dec_le_enc: "le_dec (le_enc n x) = x mod 256 ^ n"
proof (induction n arbitrary: x)
  case 0
  show ?case by simp
next
  case (Suc n)
  have "unat (word_of_nat (x mod 256) :: byte) = x mod 256"
    by (simp add: unat_of_nat)
  with Suc show ?case by (simp add: mod_mult2_eq)
qed

lemma le_dec_bound: "le_dec bs < 256 ^ length bs"
proof (induction bs)
  case Nil
  show ?case by simp
next
  case (Cons b bs)
  have "unat b < 256" using unat_bound [of b] by simp
  with Cons show ?case by simp
qed

lemma le_dec_append: "le_dec (xs @ ys) = le_dec xs + 256 ^ length xs * le_dec ys"
  by (induction xs) (auto simp: algebra_simps)

lemma le_enc_le_dec: "le_enc (length bs) (le_dec bs) = bs"
proof (induction bs)
  case Nil
  show ?case by simp
next
  case (Cons b bs)
  have "unat b < 256" using unat_bound [of b] by simp
  then have "(unat b + 256 * le_dec bs) mod 256 = unat b"
    and "(unat b + 256 * le_dec bs) div 256 = le_dec bs" by simp_all
  with Cons show ?case by simp
qed

lemma length_le [simp, codec_simps]:
  "length (le16 a) = 2" "length (le32 b) = 4" "length (le64 c) = 8"
  "length (be16 a) = 2" "length (be32 b) = 4" "length (be64 c) = 8"
  by (simp_all add: le16_def le32_def le64_def be16_def be32_def be64_def)

lemma get_le32_le32 [simp, codec_simps]: "get_le32 (le32 w @ xs) = w"
proof -
  have "unat w < 4294967296" using unat_bound [of w] by simp
  then show ?thesis by (simp add: get_le32_def le32_def le_dec_le_enc)
qed

lemma get_le32_le32_exact [simp, codec_simps]: "get_le32 (le32 w) = w"
  using get_le32_le32 [of w "[]"] by simp

lemma get_le64_le64 [simp, codec_simps]: "get_le64 (le64 w @ xs) = w"
proof -
  have "unat w < 18446744073709551616" using unat_bound [of w] by simp
  then show ?thesis by (simp add: get_le64_def le64_def le_dec_le_enc)
qed

lemma get_le64_le64_exact [simp, codec_simps]: "get_le64 (le64 w) = w"
  using get_le64_le64 [of w "[]"] by simp

lemma get_be16_be16 [simp, codec_simps]: "get_be16 (be16 w @ xs) = w"
proof -
  have "unat w < 65536" using unat_bound [of w] by simp
  then show ?thesis by (simp add: get_be16_def be16_def le_dec_le_enc)
qed

lemma le32_get_le32:
  assumes "length bs = 4"
  shows "le32 (get_le32 bs) = bs"
proof -
  have "le_dec bs < 4294967296" using le_dec_bound [of bs] assms by simp
  then have "unat (get_le32 bs) = le_dec bs"
    using assms by (simp add: get_le32_def unat_of_nat)
  with le_enc_le_dec [of bs] assms show ?thesis by (simp add: le32_def)
qed

lemma le32_inj [simp]: "le32 a = le32 b \<longleftrightarrow> a = b"
  by (metis get_le32_le32_exact)

lemma le64_inj [simp]: "le64 a = le64 b \<longleftrightarrow> a = b"
  by (metis get_le64_le64_exact)

section \<open>The bit string of a byte string\<close>

text \<open>Most significant bit first, as address prefixes count them.\<close>

definition byte_bits :: "byte \<Rightarrow> bool list" where
  "byte_bits b = map (bit b) [7, 6, 5, 4, 3, 2, 1, 0]"

definition bits_of :: "bytes \<Rightarrow> bool list" where
  "bits_of bs = concat (map byte_bits bs)"

lemma length_byte_bits [simp, bits_simps]: "length (byte_bits b) = 8"
  by (simp add: byte_bits_def)

lemma bits_of_Nil [simp, bits_simps]: "bits_of [] = []"
  by (simp add: bits_of_def)

lemma bits_of_Cons [bits_simps]: "bits_of (b # bs) = byte_bits b @ bits_of bs"
  by (simp add: bits_of_def)

lemma length_bits_of [simp, bits_simps]: "length (bits_of bs) = 8 * length bs"
  by (induction bs) (simp_all add: bits_of_Cons)

lemma byte_bits_nth:
  assumes "j < 8"
  shows "byte_bits b ! j = bit b (7 - j)"
proof -
  from assms have "j \<in> {0, 1, 2, 3, 4, 5, 6, 7}" by auto
  then show ?thesis by (auto simp: byte_bits_def)
qed

lemma bits_of_nth:
  "k < 8 * length bs \<Longrightarrow> bits_of bs ! k = bit (bs ! (k div 8)) (7 - k mod 8)"
proof (induction bs arbitrary: k)
  case Nil
  then show ?case by simp
next
  case (Cons b bs)
  show ?case
  proof (cases "k < 8")
    case True
    then show ?thesis by (simp add: bits_of_Cons nth_append byte_bits_nth)
  next
    case False
    then have "k div 8 = Suc ((k - 8) div 8)" and "k mod 8 = (k - 8) mod 8"
      by (simp_all add: le_div_geq le_mod_geq)
    with False Cons show ?thesis by (simp add: bits_of_Cons nth_append)
  qed
qed

lemma byte_bits_inj: "byte_bits a = byte_bits b \<longleftrightarrow> a = b"
proof
  assume eq: "byte_bits a = byte_bits b"
  show "a = b"
  proof (rule bit_word_eqI)
    fix n
    assume "n < LENGTH(8)"
    then have "7 - (7 - n) = n" and "7 - n < 8" by simp_all
    then show "bit a n = bit b n"
      using byte_bits_nth [of "7 - n" a] byte_bits_nth [of "7 - n" b] eq by simp
  qed
qed simp

lemma bits_of_inj: "length xs = length ys \<Longrightarrow> bits_of xs = bits_of ys \<longleftrightarrow> xs = ys"
  by (induction xs ys rule: list_induct2) (auto simp: bits_of_Cons byte_bits_inj)

section \<open>Prefixes\<close>

lemma take_eq_take_le: "take n xs = take n ys \<Longrightarrow> m \<le> n \<Longrightarrow> take m xs = take m ys"
  by (metis min.absorb2 take_take min.commute)

lemma take_Suc_snoc: "n < length xs \<Longrightarrow> take (Suc n) xs = take n xs @ [xs ! n]"
  by (rule take_Suc_conv_app_nth)

section \<open>Time\<close>

text \<open>
  A \<^verbatim>\<open>time.Time\<close> is its nanoseconds since the Unix epoch, an \<open>int\<close>; a
  \<^verbatim>\<open>time.Duration\<close> is an \<open>int64\<close> of nanoseconds. \<^verbatim>\<open>Time.Sub\<close>
  saturates at the ends of \<open>int64\<close>, and the zero \<^verbatim>\<open>time.Time{}\<close> is
  January 1 of the year 1. Every \<^verbatim>\<open>time.Now()\<close> of the source is an argument of
  the definition that makes the call.
\<close>

type_synonym time = int
type_synonym duration = int

definition second :: duration where "second = 1000000000"

definition zeroTime :: time where "zeroTime = - 62135596800 * 1000000000"

definition timeSub :: "time \<Rightarrow> time \<Rightarrow> duration" where
  "timeSub t u = max (- (2 ^ 63)) (min (2 ^ 63 - 1) (t - u))"

lemma timeSub_exact: "\<bar>t - u\<bar> < 2 ^ 63 \<Longrightarrow> timeSub t u = t - u"
  by (simp add: timeSub_def)

lemma timeSub_gt_iff: "0 \<le> d \<Longrightarrow> d < 2 ^ 63 - 1 \<Longrightarrow> timeSub t u > d \<longleftrightarrow> t - u > d"
  by (auto simp: timeSub_def)

end
