(* ===== verification/Constants.thy ===== *)
theory Constants
  imports Prelude
begin

text \<open>
  The protocol and implementation constants of \<^verbatim>\<open>controller/constants.go\<close>,
  \<^verbatim>\<open>controller/noise_protocol.go\<close>, \<^verbatim>\<open>controller/ip.go\<close> and
  \<^verbatim>\<open>controller/tun.go\<close>, and the helpers of \<^verbatim>\<open>controller/misc.go\<close> on
  numbers. Durations are nanoseconds.
\<close>

definition RekeyAfterMessages :: u64 where "RekeyAfterMessages = word_of_int (2 ^ 64 - 2 ^ 16 - 1)"
definition RejectAfterMessages :: u64 where "RejectAfterMessages = word_of_int (2 ^ 64 - 2 ^ 4 - 1)"
definition RekeyAfterTime :: duration where "RekeyAfterTime = second * 120"
definition RekeyAfterTimeChange :: duration where "RekeyAfterTimeChange = second * 30"
definition RekeyAttemptTime :: duration where "RekeyAttemptTime = second * 90"
definition RekeyTimeout :: duration where "RekeyTimeout = second * 5"
definition RejectAfterTime :: duration where "RejectAfterTime = second * 180"
definition KeepaliveTimeout :: duration where "KeepaliveTimeout = second * 10"
definition CookieRefreshTime :: duration where "CookieRefreshTime = second * 120"
definition HandshakeInitationRate :: duration where "HandshakeInitationRate = second div 20"
definition PaddingMultiple :: nat where "PaddingMultiple = 16"

definition RekeyAfterTimeReceiving :: duration where
  "RekeyAfterTimeReceiving = RekeyAfterTime - KeepaliveTimeout - RekeyTimeout"
definition NewHandshakeTime :: duration where
  "NewHandshakeTime = KeepaliveTimeout + RekeyTimeout"

definition MessageInitiationType :: u32 where "MessageInitiationType = 1"
definition MessageResponseType :: u32 where "MessageResponseType = 2"
definition MessageCookieReplyType :: u32 where "MessageCookieReplyType = 3"
definition MessageTransportType :: u32 where "MessageTransportType = 4"

text \<open>
  Sizes in bytes; 16 is \<^verbatim>\<open>poly1305.TagSize\<close> and \<^verbatim>\<open>blake2s.Size128\<close>, 32 is
  \<^verbatim>\<open>blake2s.Size\<close> and \<^verbatim>\<open>chacha20poly1305.KeySize\<close>.
\<close>

definition TagSize :: nat where "TagSize = 16"
definition MessageInitiationSize :: nat where "MessageInitiationSize = 173"
definition MessageResponseSize :: nat where "MessageResponseSize = 92"
definition MessageCookieReplySize :: nat where "MessageCookieReplySize = 64"
definition MessageTransportHeaderSize :: nat where "MessageTransportHeaderSize = 16"
definition MessageTransportSize :: nat where
  "MessageTransportSize = MessageTransportHeaderSize + TagSize"
definition MessageKeepaliveSize :: nat where "MessageKeepaliveSize = MessageTransportSize"
definition MessageHandshakeSize :: nat where "MessageHandshakeSize = MessageInitiationSize"

definition MessageTransportOffsetReceiver :: nat where "MessageTransportOffsetReceiver = 4"
definition MessageTransportOffsetCounter :: nat where "MessageTransportOffsetCounter = 8"
definition MessageTransportOffsetContent :: nat where "MessageTransportOffsetContent = 16"

definition QueueOutboundSize :: nat where "QueueOutboundSize = 20"
definition QueueInboundSize :: nat where "QueueInboundSize = 20"
definition QueueHandshakeSize :: nat where "QueueHandshakeSize = 20"
definition MaxSegmentSize :: nat where "MaxSegmentSize = 1700"
definition MinMessageSize :: nat where "MinMessageSize = MessageKeepaliveSize"
definition MaxMessageSize :: nat where "MaxMessageSize = MaxSegmentSize"
definition MaxContentSize :: nat where "MaxContentSize = MaxSegmentSize - MessageTransportSize"
definition UnderLoadQueueSize :: nat where "UnderLoadQueueSize = QueueHandshakeSize div 4"

definition IPv4offsetTotalLength :: nat where "IPv4offsetTotalLength = 2"
definition IPv4offsetSrc :: nat where "IPv4offsetSrc = 12"
definition IPv4offsetDst :: nat where "IPv4offsetDst = IPv4offsetSrc + 4"
definition IPv6offsetPayloadLength :: nat where "IPv6offsetPayloadLength = 4"
definition IPv6offsetSrc :: nat where "IPv6offsetSrc = 8"
definition IPv6offsetDst :: nat where "IPv6offsetDst = IPv6offsetSrc + 16"

lemmas duration_consts =
  RekeyAfterTime_def RekeyAfterTimeChange_def RekeyAttemptTime_def RekeyTimeout_def
  RejectAfterTime_def KeepaliveTimeout_def CookieRefreshTime_def HandshakeInitationRate_def
  RekeyAfterTimeReceiving_def NewHandshakeTime_def second_def

lemmas size_consts =
  TagSize_def MessageInitiationSize_def MessageResponseSize_def MessageCookieReplySize_def
  MessageTransportHeaderSize_def MessageTransportSize_def MessageKeepaliveSize_def
  MessageHandshakeSize_def MessageTransportOffsetReceiver_def MessageTransportOffsetCounter_def
  MessageTransportOffsetContent_def QueueOutboundSize_def QueueInboundSize_def
  QueueHandshakeSize_def MaxSegmentSize_def MinMessageSize_def MaxMessageSize_def
  MaxContentSize_def UnderLoadQueueSize_def PaddingMultiple_def

lemmas type_consts =
  MessageInitiationType_def MessageResponseType_def MessageCookieReplyType_def
  MessageTransportType_def

lemmas offset_consts =
  IPv4offsetTotalLength_def IPv4offsetSrc_def IPv4offsetDst_def IPv6offsetPayloadLength_def
  IPv6offsetSrc_def IPv6offsetDst_def

definition minUint64 :: "u64 \<Rightarrow> u64 \<Rightarrow> u64" where
  "minUint64 a b = (if a > b then b else a)"

lemma unat_minUint64: "unat (minUint64 a b) = min (unat a) (unat b)"
  by (auto simp: minUint64_def word_less_nat_alt)

lemma unat_RejectAfterMessages: "unat RejectAfterMessages = 2 ^ 64 - 17"
  by (simp add: RejectAfterMessages_def)

lemma unat_RekeyAfterMessages: "unat RekeyAfterMessages = 2 ^ 64 - 65537"
  by (simp add: RekeyAfterMessages_def)

end
