(* ===== verification/Crypto.thy ===== *)
theory Crypto
  imports Constants
begin

text \<open>
  The primitives the program takes from \<^verbatim>\<open>golang.org/x/crypto\<close>, as a parameter, and
  the key derivation of \<^verbatim>\<open>controller/noise_helpers.go\<close>. HMAC is the one of Go's
  \<^verbatim>\<open>crypto/hmac\<close> over BLAKE2s, whose block is 64 bytes.
\<close>

section \<open>The primitives\<close>

text \<open>
  \<open>blake2s m\<close> is the unkeyed 32-byte digest, \<open>blake2s_mac k m\<close> the 16-byte digest keyed
  by \<open>k\<close>; \<open>x25519 k p\<close> multiplies the point \<open>p\<close> by the scalar \<open>k\<close> and \<open>x25519_base k\<close>
  the base point; \<open>seal k n p a\<close> and \<open>open k n c a\<close> are ChaCha20-Poly1305 under key,
  nonce and additional data, \<open>open\<close> being None when authentication fails; \<open>refuses a n b m\<close> is
  whether either panics when it is to write the \<open>n\<close> bytes at \<open>a\<close> of the buffer its input is the
  \<open>m\<close> bytes at \<open>b\<close> of.
\<close>

record crypto =
  blake2s :: "bytes \<Rightarrow> bytes"
  blake2s_mac :: "bytes \<Rightarrow> bytes \<Rightarrow> bytes"
  x25519 :: "bytes \<Rightarrow> bytes \<Rightarrow> bytes"
  x25519_base :: "bytes \<Rightarrow> bytes"
  aead_seal :: "bytes \<Rightarrow> bytes \<Rightarrow> bytes \<Rightarrow> bytes \<Rightarrow> bytes"
  aead_open :: "bytes \<Rightarrow> bytes \<Rightarrow> bytes \<Rightarrow> bytes \<Rightarrow> bytes option"
  aead_refuses :: "nat \<Rightarrow> nat \<Rightarrow> nat \<Rightarrow> nat \<Rightarrow> bool"

text \<open>What is documented of them and used here: sizes, decryption, Diffie-Hellman.\<close>

definition sizes_ok :: "crypto \<Rightarrow> bool" where
  "sizes_ok C \<longleftrightarrow>
    (\<forall>m. length (blake2s C m) = 32) \<and> (\<forall>k m. length (blake2s_mac C k m) = 16) \<and>
    (\<forall>k p. length (x25519 C k p) = 32) \<and> (\<forall>k. length (x25519_base C k) = 32) \<and>
    (\<forall>k n p a. length (aead_seal C k n p a) = length p + 16)"

definition aead_ok :: "crypto \<Rightarrow> bool" where
  "aead_ok C \<longleftrightarrow> (\<forall>k n p a. aead_open C k n (aead_seal C k n p a) a = Some p)"

definition dh_ok :: "crypto \<Rightarrow> bool" where
  "dh_ok C \<longleftrightarrow> (\<forall>a b. length a = 32 \<longrightarrow> length b = 32 \<longrightarrow>
    x25519 C a (x25519_base C b) = x25519 C b (x25519_base C a))"

text \<open>
  The documentation of \<^verbatim>\<open>cipher.AEAD\<close>: the output may start where the input starts and
  must otherwise not overlap it.
\<close>

definition overlaps :: "nat \<Rightarrow> nat \<Rightarrow> nat \<Rightarrow> nat \<Rightarrow> bool" where
  "overlaps a n b m \<longleftrightarrow> a \<noteq> b \<and> 0 < n \<and> 0 < m \<and> a < b + m \<and> b < a + n"

definition in_place_ok :: "crypto \<Rightarrow> bool" where
  "in_place_ok C \<longleftrightarrow> (\<forall>a n b m. \<not> overlaps a n b m \<longrightarrow> \<not> aead_refuses C a n b m)"

definition overlap_refused :: "crypto \<Rightarrow> bool" where
  "overlap_refused C \<longleftrightarrow> (\<forall>a n b m. overlaps a n b m \<longrightarrow> aead_refuses C a n b m)"

text \<open>Every multiple of the all-zero point is all zero (RFC 7748, section 6.1).\<close>

definition low_order_ok :: "crypto \<Rightarrow> bool" where
  "low_order_ok C \<longleftrightarrow> (\<forall>k. length k = 32 \<longrightarrow> x25519 C k (replicate 32 0) = replicate 32 0)"

definition crypto_ok :: "crypto \<Rightarrow> bool" where
  "crypto_ok C \<longleftrightarrow> sizes_ok C \<and> aead_ok C \<and> dh_ok C"

named_theorems crypto_simps \<open>sizes and laws of the primitives\<close>

lemma crypto_sizes [crypto_simps]:
  "sizes_ok C \<Longrightarrow> length (blake2s C m) = 32"
  "sizes_ok C \<Longrightarrow> length (blake2s_mac C k m) = 16"
  "sizes_ok C \<Longrightarrow> length (x25519 C k p) = 32"
  "sizes_ok C \<Longrightarrow> length (x25519_base C k) = 32"
  "sizes_ok C \<Longrightarrow> length (aead_seal C k n p a) = length p + 16"
  by (simp_all add: sizes_ok_def)

lemma open_seal [crypto_simps]: "aead_ok C \<Longrightarrow> aead_open C k n (aead_seal C k n p a) a = Some p"
  by (simp add: aead_ok_def)

lemma dh_commute:
  "dh_ok C \<Longrightarrow> length a = 32 \<Longrightarrow> length b = 32 \<Longrightarrow>
    x25519 C a (x25519_base C b) = x25519 C b (x25519_base C a)"
  by (simp add: dh_ok_def)

lemma crypto_okD: "crypto_ok C \<Longrightarrow> sizes_ok C" "crypto_ok C \<Longrightarrow> aead_ok C" "crypto_ok C \<Longrightarrow> dh_ok C"
  by (simp_all add: crypto_ok_def)

text \<open>
  A concrete instance with these properties, for witnesses only: digests that fold the input,
  bytewise multiplication as the group, and a cipher that appends a fixed-length tag of the key,
  nonce and additional data.
\<close>

definition fit :: "nat \<Rightarrow> bytes \<Rightarrow> bytes" where
  "fit n bs = take n (bs @ replicate n 0)"

definition toy_digest :: "nat \<Rightarrow> bytes \<Rightarrow> bytes" where
  "toy_digest n m = replicate n (foldr (\<lambda>b acc. b + 3 * acc + 1) m 1)"

definition toy_crypto :: crypto where
  "toy_crypto = \<lparr>
    blake2s = toy_digest 32,
    blake2s_mac = (\<lambda>k m. toy_digest 16 (k @ m)),
    x25519 = (\<lambda>k p. map2 (*) (fit 32 k) (fit 32 p)),
    x25519_base = (\<lambda>k. map2 (*) (fit 32 k) (replicate 32 9)),
    aead_seal = (\<lambda>k n p a. p @ toy_digest 16 (k @ n @ a)),
    aead_open = (\<lambda>k n c a.
      if length c \<ge> 16 \<and> drop (length c - 16) c = toy_digest 16 (k @ n @ a)
      then Some (take (length c - 16) c) else None),
    aead_refuses = overlaps\<rparr>"

lemma length_fit [simp]: "length (fit n bs) = n"
  by (simp add: fit_def)

lemma fit_exact: "length bs = n \<Longrightarrow> fit n bs = bs"
  by (simp add: fit_def)

lemma length_toy_digest [simp]: "length (toy_digest n m) = n"
  by (simp add: toy_digest_def)

lemma toy_dh:
  fixes a b c :: bytes
  shows "length a = n \<Longrightarrow> length b = n \<Longrightarrow> length c = n \<Longrightarrow>
    map2 (*) a (map2 (*) b c) = map2 (*) b (map2 (*) a c)"
  by (rule nth_equalityI) (simp_all add: mult.left_commute)

lemma toy_crypto_ok: "crypto_ok toy_crypto"
proof -
  have "dh_ok toy_crypto"
    unfolding dh_ok_def toy_crypto_def
    by (auto simp: fit_exact intro!: toy_dh [where n = 32])
  then show ?thesis
    by (simp add: crypto_ok_def sizes_ok_def aead_ok_def toy_crypto_def)
qed

lemma toy_in_place_ok: "in_place_ok toy_crypto" "overlap_refused toy_crypto"
  by (simp_all add: in_place_ok_def overlap_refused_def toy_crypto_def)

lemma toy_low_order_ok: "low_order_ok toy_crypto"
  by (auto simp: low_order_ok_def toy_crypto_def fit_exact intro!: nth_equalityI)

section \<open>HMAC and the key derivation\<close>

definition hmac_block :: nat where "hmac_block = 64"

definition hmac :: "crypto \<Rightarrow> bytes \<Rightarrow> bytes \<Rightarrow> bytes" where
  "hmac C key m =
    (let k = (if length key > hmac_block then blake2s C key else key);
         padded = k @ replicate (hmac_block - length k) 0;
         ipad = map (\<lambda>b. b XOR 0x36) padded;
         opad = map (\<lambda>b. b XOR 0x5c) padded
     in blake2s C (opad @ blake2s C (ipad @ m)))"

definition HMAC1 :: "crypto \<Rightarrow> bytes \<Rightarrow> bytes \<Rightarrow> bytes" where
  "HMAC1 C key in0 = hmac C key in0"

definition HMAC2 :: "crypto \<Rightarrow> bytes \<Rightarrow> bytes \<Rightarrow> bytes \<Rightarrow> bytes" where
  "HMAC2 C key in0 in1 = hmac C key (in0 @ in1)"

definition KDF1 :: "crypto \<Rightarrow> bytes \<Rightarrow> bytes \<Rightarrow> bytes" where
  "KDF1 C key input =
    (let t0 = HMAC1 C key input in HMAC1 C t0 [1])"

definition KDF2 :: "crypto \<Rightarrow> bytes \<Rightarrow> bytes \<Rightarrow> bytes \<times> bytes" where
  "KDF2 C key input =
    (let prk = HMAC1 C key input;
         t0 = HMAC1 C prk [1];
         t1 = HMAC2 C prk t0 [2]
     in (t0, t1))"

definition KDF3 :: "crypto \<Rightarrow> bytes \<Rightarrow> bytes \<Rightarrow> bytes \<times> bytes \<times> bytes" where
  "KDF3 C key input =
    (let prk = HMAC1 C key input;
         t0 = HMAC1 C prk [1];
         t1 = HMAC2 C prk t0 [2];
         t2 = HMAC2 C prk t1 [3]
     in (t0, t1, t2))"

definition mixKey :: "crypto \<Rightarrow> bytes \<Rightarrow> bytes \<Rightarrow> bytes" where
  "mixKey C c data = KDF1 C c data"

definition mixHash :: "crypto \<Rightarrow> bytes \<Rightarrow> bytes \<Rightarrow> bytes" where
  "mixHash C h data = blake2s C (h @ data)"

lemma length_hmac [crypto_simps]: "sizes_ok C \<Longrightarrow> length (hmac C k m) = 32"
  by (simp add: hmac_def Let_def crypto_simps)

lemma length_kdf [crypto_simps]:
  assumes "sizes_ok C"
  shows "length (HMAC1 C k a) = 32" "length (HMAC2 C k a b) = 32" "length (KDF1 C k a) = 32"
    "length (fst (KDF2 C k a)) = 32" "length (snd (KDF2 C k a)) = 32"
    "length (mixKey C k a) = 32" "length (mixHash C k a) = 32"
  using assms by (simp_all add: HMAC1_def HMAC2_def KDF1_def KDF2_def mixKey_def mixHash_def
      Let_def crypto_simps)

text \<open>
  RFC 5869 with an empty info string: extract, then the blocks
  T(i) = HMAC(PRK, T(i-1) | i), counted from one.
\<close>

definition hkdf_extract :: "crypto \<Rightarrow> bytes \<Rightarrow> bytes \<Rightarrow> bytes" where
  "hkdf_extract C salt ikm = hmac C salt ikm"

fun hkdf_block :: "crypto \<Rightarrow> bytes \<Rightarrow> nat \<Rightarrow> bytes" where
  "hkdf_block C prk 0 = []"
| "hkdf_block C prk (Suc i) = hmac C prk (hkdf_block C prk i @ [word_of_nat (Suc i)])"

definition hkdf_expand :: "crypto \<Rightarrow> bytes \<Rightarrow> nat \<Rightarrow> bytes" where
  "hkdf_expand C prk len = take len (concat (map (\<lambda>i. hkdf_block C prk (Suc i)) [0..<(len + 31) div 32]))"

text \<open>
  C31: the three derivation functions are HKDF of RFC 5869 with an empty info string: together
  their outputs are the first 32, 64 and 96 bytes of the expansion of the extracted key.
\<close>

theorem kdf_is_hkdf:
  assumes "sizes_ok C"
  shows "KDF1 C key input = hkdf_expand C (hkdf_extract C key input) 32 \<and>
    (case KDF2 C key input of (t0, t1) \<Rightarrow> t0 @ t1 = hkdf_expand C (hkdf_extract C key input) 64) \<and>
    (case KDF3 C key input of (t0, t1, t2) \<Rightarrow>
      t0 @ t1 @ t2 = hkdf_expand C (hkdf_extract C key input) 96)"
proof -
  have len: "length (hmac C k m) = 32" for k m using assms by (rule length_hmac)
  have "[0..<(32 + 31) div 32] = [0::nat]" "[0..<(64 + 31) div 32] = [0::nat, Suc 0]"
    "[0..<(96 + 31) div 32] = [0::nat, Suc 0, Suc (Suc 0)]"
    by (simp_all add: upt_rec)
  then have "hkdf_expand C prk 32 = hkdf_block C prk (Suc 0)"
    "hkdf_expand C prk 64 = hkdf_block C prk (Suc 0) @ hkdf_block C prk (Suc (Suc 0))"
    "hkdf_expand C prk 96 = hkdf_block C prk (Suc 0) @ hkdf_block C prk (Suc (Suc 0)) @
      hkdf_block C prk (Suc (Suc (Suc 0)))" for prk
    by (simp_all add: hkdf_expand_def len)
  then show ?thesis
    by (simp add: KDF1_def KDF2_def KDF3_def HMAC1_def HMAC2_def hkdf_extract_def Let_def)
qed

theorem kdf_is_hkdf_witness:
  "KDF1 toy_crypto [1] [2] = hkdf_expand toy_crypto (hkdf_extract toy_crypto [1] [2]) 32 \<and>
    (case KDF2 toy_crypto [1] [2] of (t0, t1) \<Rightarrow>
      t0 @ t1 = hkdf_expand toy_crypto (hkdf_extract toy_crypto [1] [2]) 64) \<and>
    (case KDF3 toy_crypto [1] [2] of (t0, t1, t2) \<Rightarrow>
      t0 @ t1 @ t2 = hkdf_expand toy_crypto (hkdf_extract toy_crypto [1] [2]) 96)"
  by (rule kdf_is_hkdf) (rule crypto_okD(1) [OF toy_crypto_ok])

end
