(* ===== verification/Keys.thy ===== *)
theory Keys
  imports Crypto
begin

text \<open>
  Keys: the curve25519 wrappers of \<^verbatim>\<open>controller/noise_helpers.go\<close>, the key types of
  \<^verbatim>\<open>controller/noise_types.go\<close> with Go's standard base64, and the key generation of
  \<^verbatim>\<open>main.go\<close>. A key is its list of 32 bytes.
\<close>

section \<open>Zero tests and clamping\<close>

definition isZero :: "bytes \<Rightarrow> bool" where
  "isZero val = (fold (\<lambda>b acc. acc OR b) val 0 = 0)"

definition setZero :: "bytes \<Rightarrow> bytes" where
  "setZero arr = map (\<lambda>_. 0) arr"

definition clamp :: "bytes \<Rightarrow> bytes" where
  "clamp sk =
    (let sk = sk[0 := sk ! 0 AND 248];
         sk = sk[31 := sk ! 31 AND 127];
         sk = sk[31 := sk ! 31 OR 64]
     in sk)"

text \<open>\<open>rnd\<close> is what \<^verbatim>\<open>rand.Read\<close> left in the array, \<open>err\<close> whether it failed.\<close>

definition newPrivateKey :: "bytes \<Rightarrow> bool \<Rightarrow> bytes \<times> bool" where
  "newPrivateKey rnd err = (clamp rnd, err)"

definition publicKey :: "crypto \<Rightarrow> bytes \<Rightarrow> bytes" where
  "publicKey C sk = x25519_base C sk"

definition sharedSecret :: "crypto \<Rightarrow> bytes \<Rightarrow> bytes \<Rightarrow> bytes" where
  "sharedSecret C sk pk = x25519 C sk pk"

definition keyEquals :: "bytes \<Rightarrow> bytes \<Rightarrow> bool" where
  "keyEquals key tar = (key = tar)"

definition keyIsZero :: "bytes \<Rightarrow> bool" where
  "keyIsZero key = keyEquals key (replicate 32 0)"

lemma fold_or_zero: "fold (\<lambda>b acc. acc OR b) val a = (0::byte) \<longleftrightarrow> a = 0 \<and> (\<forall>b \<in> set val. b = 0)"
proof (induction val arbitrary: a)
  case Nil
  show ?case by simp
next
  case (Cons b val)
  have "a OR b = 0 \<longleftrightarrow> a = 0 \<and> b = 0" by (auto simp: or_eq_0_iff)
  with Cons show ?case by auto
qed

lemma isZero_iff: "isZero val \<longleftrightarrow> (\<forall>b \<in> set val. b = 0)"
  by (simp add: isZero_def fold_or_zero)

lemma isZero_replicate: "isZero val \<longleftrightarrow> val = replicate (length val) 0"
  by (metis isZero_iff replicate_eqI in_set_replicate)

lemma isZero_setZero: "isZero (setZero arr) \<and> length (setZero arr) = length arr"
  by (auto simp: isZero_iff setZero_def)

lemma length_clamp [simp]: "length (clamp sk) = length sk"
  by (simp add: clamp_def Let_def)

lemma sharedSecret_commute:
  "dh_ok C \<Longrightarrow> length a = 32 \<Longrightarrow> length b = 32 \<Longrightarrow>
    sharedSecret C a (publicKey C b) = sharedSecret C b (publicKey C a)"
  by (simp add: sharedSecret_def publicKey_def dh_commute)

section \<open>Standard base64\<close>

text \<open>
  \<^verbatim>\<open>base64.StdEncoding\<close>: \<open>sextet\<close> is the decoding map. Carriage returns and line
  feeds are skipped everywhere; the last quantum may be padded and nothing may follow the
  padding; the unused bits of the last sextet are ignored.
\<close>

definition alphabet :: string where
  "alphabet = ''ABCDEFGHIJKLMNOPQRSTUVWXYZabcdefghijklmnopqrstuvwxyz0123456789+/''"

definition sextet :: "char \<Rightarrow> nat option" where
  "sextet c =
    (if CHR ''A'' \<le> c \<and> c \<le> CHR ''Z'' then Some (of_char c - 65)
     else if CHR ''a'' \<le> c \<and> c \<le> CHR ''z'' then Some (of_char c - 97 + 26)
     else if CHR ''0'' \<le> c \<and> c \<le> CHR ''9'' then Some (of_char c - 48 + 52)
     else if c = CHR ''+'' then Some 62
     else if c = CHR ''/'' then Some 63
     else None)"

definition pad :: char where "pad = CHR ''=''"

definition quantum :: "nat \<Rightarrow> nat \<Rightarrow> nat \<Rightarrow> nat \<Rightarrow> bytes" where
  "quantum a b c d =
    (let v = ((a * 64 + b) * 64 + c) * 64 + d
     in [word_of_nat (v div 65536), word_of_nat (v div 256 mod 256), word_of_nat (v mod 256)])"

fun decode_quanta :: "string \<Rightarrow> bytes option" where
  "decode_quanta [] = Some []"
| "decode_quanta (w # x # y # z # s) =
    (case (sextet w, sextet x) of
      (Some a, Some b) \<Rightarrow>
        (case sextet y of
          Some c \<Rightarrow>
            (case sextet z of
              Some d \<Rightarrow> map_option ((@) (quantum a b c d)) (decode_quanta s)
            | None \<Rightarrow> if z = pad \<and> s = [] then Some (take 2 (quantum a b c 0)) else None)
        | None \<Rightarrow> if y = pad \<and> z = pad \<and> s = [] then Some (take 1 (quantum a b 0 0)) else None)
    | _ \<Rightarrow> None)"
| "decode_quanta _ = None"

definition base64_DecodeString :: "string \<Rightarrow> bytes option" where
  "base64_DecodeString s = decode_quanta (filter (\<lambda>c. c \<noteq> CHR 0x0A \<and> c \<noteq> CHR 0x0D) s)"

fun base64_EncodeToString :: "bytes \<Rightarrow> string" where
  "base64_EncodeToString [] = []"
| "base64_EncodeToString [a] =
    (let v = unat a * 65536
     in [alphabet ! (v div 262144), alphabet ! (v div 4096 mod 64), pad, pad])"
| "base64_EncodeToString [a, b] =
    (let v = unat a * 65536 + unat b * 256
     in [alphabet ! (v div 262144), alphabet ! (v div 4096 mod 64), alphabet ! (v div 64 mod 64), pad])"
| "base64_EncodeToString (a # b # c # s) =
    (let v = unat a * 65536 + unat b * 256 + unat c
     in [alphabet ! (v div 262144), alphabet ! (v div 4096 mod 64), alphabet ! (v div 64 mod 64),
         alphabet ! (v mod 64)] @ base64_EncodeToString s)"

text \<open>\<open>None\<close> is the error; the destination has \<open>n\<close> bytes.\<close>

definition loadExactBase64 :: "nat \<Rightarrow> string \<Rightarrow> bytes option" where
  "loadExactBase64 n src =
    (case base64_DecodeString src of
      None \<Rightarrow> None
    | Some bs \<Rightarrow> if length bs \<noteq> n then None else Some bs)"

definition FromBase64 :: "string \<Rightarrow> bytes option" where
  "FromBase64 src = loadExactBase64 32 src"

text \<open>\<^verbatim>\<open>ToHex\<close> writes two lower-case digits per byte.\<close>

definition hex_digit :: "nat \<Rightarrow> char" where
  "hex_digit n = ''0123456789abcdef'' ! n"

definition ToHex :: "bytes \<Rightarrow> string" where
  "ToHex key = concat (map (\<lambda>b. [hex_digit (unat b div 16), hex_digit (unat b mod 16)]) key)"

section \<open>Key generation\<close>

text \<open>\<open>rnd\<close> is what the random reader gave, None when it failed.\<close>

definition GetPriAndPubKey :: "crypto \<Rightarrow> bytes option \<Rightarrow> string \<times> string" where
  "GetPriAndPubKey C rnd =
    (case rnd of
      None \<Rightarrow> ('''', '''')
    | Some bs \<Rightarrow>
        let pri = clamp bs; pub = x25519_base C pri
        in (base64_EncodeToString pri, base64_EncodeToString pub))"

section \<open>The codec inverts\<close>

lemma sextet_alphabet: "n < 64 \<Longrightarrow> sextet (alphabet ! n) = Some n"
proof -
  have "\<forall>n \<in> set [0..<64]. sextet (alphabet ! n) = Some n" by code_simp
  then show "n < 64 \<Longrightarrow> sextet (alphabet ! n) = Some n" by simp
qed

lemma sextet_pad: "sextet pad = None"
  by code_simp

lemma sextet_newline: "sextet (CHR 0x0A) = None" "sextet (CHR 0x0D) = None"
  by code_simp+

lemma alphabet_kept:
  assumes "n < 64"
  shows "alphabet ! n \<noteq> CHR 0x0A" "alphabet ! n \<noteq> CHR 0x0D"
  using sextet_alphabet [OF assms] sextet_newline by auto

lemma pad_kept: "pad \<noteq> CHR 0x0A" "pad \<noteq> CHR 0x0D"
  by (simp_all add: pad_def)

lemma split_sextets:
  fixes v :: nat
  shows "((v div 262144 * 64 + v div 4096 mod 64) * 64 + v div 64 mod 64) * 64 + v mod 64 = v"
proof -
  have "v div 262144 = v div 4096 div 64" "v div 4096 = v div 64 div 64"
    by (simp_all add: div_mult2_eq [symmetric])
  then show ?thesis by presburger
qed

lemma bytes24:
  fixes a b c :: nat
  assumes "a < 256" "b < 256" "c < 256"
  defines "v \<equiv> a * 65536 + b * 256 + c"
  shows "v div 65536 = a" "v div 256 mod 256 = b" "v mod 256 = c" "v div 262144 < 64"
proof -
  have "b * 256 + c < 65536" using assms by simp
  then show "v div 65536 = a" by (simp add: v_def add.assoc)
  have "v div 256 = a * 256 + b" using assms(3) by (simp add: v_def)
  with assms(2) show "v div 256 mod 256 = b" by simp
  have "v = c + 256 * (a * 256 + b)" by (simp add: v_def)
  with assms(3) show "v mod 256 = c" by (simp only: mod_mult_self2 mod_less)
  have "v < 16777216" using assms by simp
  then show "v div 262144 < 64" by (simp add: less_mult_imp_div_less)
qed

lemma quantum_bytes:
  fixes a b c :: byte
  defines "v \<equiv> unat a * 65536 + unat b * 256 + unat c"
  shows "quantum (v div 262144) (v div 4096 mod 64) (v div 64 mod 64) (v mod 64) = [a, b, c]"
    and "v div 262144 < 64"
proof -
  have "unat a < 256" "unat b < 256" "unat c < 256"
    using unat_bound [of a] unat_bound [of b] unat_bound [of c] by simp_all
  note B = bytes24 [OF this]
  have "v div 65536 = unat a" "v div 256 mod 256 = unat b" "v mod 256 = unat c"
    using B by (simp_all add: v_def)
  then show "quantum (v div 262144) (v div 4096 mod 64) (v div 64 mod 64) (v mod 64) = [a, b, c]"
    unfolding quantum_def split_sextets Let_def by simp
  show "v div 262144 < 64" using B by (simp add: v_def)
qed

text \<open>The encoder and the decoder over sextets, with the 24-bit value kept whole.\<close>

lemma decode_quantum:
  assumes "a < 64" "b < 64" "c < 64" "d < 64"
  shows "decode_quanta (alphabet ! a # alphabet ! b # alphabet ! c # alphabet ! d # s) =
      map_option ((@) (quantum a b c d)) (decode_quanta s)"
    and "decode_quanta [alphabet ! a, alphabet ! b, alphabet ! c, pad] = Some (take 2 (quantum a b c 0))"
    and "decode_quanta [alphabet ! a, alphabet ! b, pad, pad] = Some (take 1 (quantum a b 0 0))"
  using assms by (simp_all add: sextet_alphabet sextet_pad)

definition sextets :: "nat \<Rightarrow> string" where
  "sextets v = [alphabet ! (v div 262144), alphabet ! (v div 4096 mod 64),
    alphabet ! (v div 64 mod 64), alphabet ! (v mod 64)]"

lemma take_quads: "take 2 [w, x, y, z] = [w, x]" "take 3 [w, x, y, z] = [w, x, y]"
  by (simp_all add: numeral_2_eq_2 numeral_3_eq_3)

lemma encode_sextets:
  "base64_EncodeToString [a] = take 2 (sextets (unat a * 65536)) @ [pad, pad]"
  "base64_EncodeToString [a, b] = take 3 (sextets (unat a * 65536 + unat b * 256)) @ [pad]"
  "base64_EncodeToString (a # b # c # s) =
    sextets (unat a * 65536 + unat b * 256 + unat c) @ base64_EncodeToString s"
  by (simp_all only: sextets_def base64_EncodeToString.simps Let_def take_quads append.simps)

lemma decode_sextets:
  assumes "v div 262144 < 64"
  shows "decode_quanta (sextets v @ s) = map_option ((@) (quantum (v div 262144) (v div 4096 mod 64)
      (v div 64 mod 64) (v mod 64))) (decode_quanta s)"
    and "v mod 64 = 0 \<Longrightarrow> decode_quanta (take 3 (sextets v) @ [pad]) =
      Some (take 2 (quantum (v div 262144) (v div 4096 mod 64) (v div 64 mod 64) (v mod 64)))"
    and "v div 64 mod 64 = 0 \<Longrightarrow> v mod 64 = 0 \<Longrightarrow> decode_quanta (take 2 (sextets v) @ [pad, pad]) =
      Some (take 1 (quantum (v div 262144) (v div 4096 mod 64) (v div 64 mod 64) (v mod 64)))"
proof -
  have lt: "v div 4096 mod 64 < 64" "v div 64 mod 64 < 64" "v mod 64 < 64" by simp_all
  note D = decode_quantum [OF assms lt]
  show "decode_quanta (sextets v @ s) = map_option ((@) (quantum (v div 262144) (v div 4096 mod 64)
      (v div 64 mod 64) (v mod 64))) (decode_quanta s)"
    using D(1) by (simp only: sextets_def append.simps)
  show "decode_quanta (take 3 (sextets v) @ [pad]) =
      Some (take 2 (quantum (v div 262144) (v div 4096 mod 64) (v div 64 mod 64) (v mod 64)))"
    if "v mod 64 = 0"
    unfolding that using D(2) by (simp add: sextets_def numeral_3_eq_3 del: decode_quanta.simps)
  show "decode_quanta (take 2 (sextets v) @ [pad, pad]) =
      Some (take 1 (quantum (v div 262144) (v div 4096 mod 64) (v div 64 mod 64) (v mod 64)))"
    if "v div 64 mod 64 = 0" "v mod 64 = 0"
    unfolding that using D(3) by (simp add: sextets_def numeral_2_eq_2 del: decode_quanta.simps)
qed

lemma decode_encode: "decode_quanta (base64_EncodeToString bs) = Some bs"
proof (induction bs rule: base64_EncodeToString.induct)
  case 1
  show ?case by simp
next
  case (2 a)
  have "unat a * 65536 = 64 * (64 * (unat a * 16))" by simp
  then have "unat a * 65536 div 64 mod 64 = 0" "unat a * 65536 mod 64 = 0"
    by (simp_all only: nonzero_mult_div_cancel_left mod_mult_self1_is_0)
  with quantum_bytes [of a 0 0] show ?case
    unfolding encode_sextets by (simp add: decode_sextets del: decode_quanta.simps)
next
  case (3 a b)
  have "unat a * 65536 + unat b * 256 = 64 * (unat a * 1024 + unat b * 4)" by simp
  then have "(unat a * 65536 + unat b * 256) mod 64 = 0" by (simp only: mod_mult_self1_is_0)
  with quantum_bytes [of a b 0] show ?case
    unfolding encode_sextets by (simp add: decode_sextets del: decode_quanta.simps)
next
  case (4 a b c s)
  then show ?case
    unfolding encode_sextets decode_sextets(1) [OF quantum_bytes(2)] quantum_bytes(1) by simp
qed

lemma sextets_kept:
  assumes "v div 262144 < 64"
  shows "filter (\<lambda>c. c \<noteq> CHR 0x0A \<and> c \<noteq> CHR 0x0D) (sextets v) = sextets v"
proof -
  have lt: "v div 4096 mod 64 < 64" "v div 64 mod 64 < 64" "v mod 64 < 64" by simp_all
  show ?thesis
    unfolding sextets_def using alphabet_kept [OF assms] alphabet_kept [OF lt(1)]
      alphabet_kept [OF lt(2)] alphabet_kept [OF lt(3)] by simp
qed

lemma take_kept: "filter P xs = xs \<Longrightarrow> filter P (take n xs) = take n xs"
  by (metis filter_True filter_id_conv in_set_takeD)

lemma encode_no_newline:
  "filter (\<lambda>c. c \<noteq> CHR 0x0A \<and> c \<noteq> CHR 0x0D) (base64_EncodeToString bs) = base64_EncodeToString bs"
proof (induction bs rule: base64_EncodeToString.induct)
  case 1
  show ?case by simp
next
  case (2 a)
  have "unat a * 65536 div 262144 < 64" using quantum_bytes(2) [of a 0 0] by simp
  from take_kept [OF sextets_kept [OF this], of 2] pad_kept show ?case
    unfolding encode_sextets filter_append by simp
next
  case (3 a b)
  have "(unat a * 65536 + unat b * 256) div 262144 < 64" using quantum_bytes(2) [of a b 0] by simp
  from take_kept [OF sextets_kept [OF this], of 3] pad_kept show ?case
    unfolding encode_sextets filter_append by simp
next
  case (4 a b c s)
  with sextets_kept [OF quantum_bytes(2) [of a b c]] show ?case
    unfolding encode_sextets filter_append by simp
qed

lemma base64_round_trip: "base64_DecodeString (base64_EncodeToString bs) = Some bs"
  by (simp add: base64_DecodeString_def encode_no_newline decode_encode)

section \<open>Clamped bytes\<close>

lemma clamp_low:
  fixes b :: byte
  shows "8 dvd unat (b AND 248)" "unat (b AND 248) \<le> 248"
proof -
  have "take_bit 3 (b AND 248) = 0" by (simp add: take_bit_and)
  then have "unat (take_bit 3 (b AND 248)) = 0" by simp
  then show "8 dvd unat (b AND 248)"
    by (simp add: take_bit_eq_mod unat_mod dvd_eq_mod_eq_0)
  have "b AND 248 \<le> 248" by (rule word_and_le1)
  then show "unat (b AND 248) \<le> 248" by (simp add: word_le_nat_alt)
qed

lemma clamp_high:
  fixes t :: byte
  shows "64 \<le> unat ((t AND 127) OR 64)" "unat ((t AND 127) OR 64) < 128"
proof -
  have "64 \<le> (t AND 127) OR 64" by (rule le_word_or1)
  then show "64 \<le> unat ((t AND 127) OR 64)" by (simp add: word_le_nat_alt)
  have "((t AND 127) OR 64) = ((t AND 127) OR 64) AND 127"
    by (simp add: word_bw_assocs bit.conj_disj_distrib2)
  then have "(t AND 127) OR 64 \<le> 127" by (metis word_and_le1)
  then show "unat ((t AND 127) OR 64) < 128" by (simp add: word_le_nat_alt)
qed

section \<open>Properties\<close>

text \<open>
  A generated pair survives its text form: the strings handed to the caller decode to a
  private key and the public key that belongs to it.
\<close>

theorem generated_keys_load:
  assumes "crypto_ok C" "length bs = 32"
  shows "\<exists>sk pk. FromBase64 (fst (GetPriAndPubKey C (Some bs))) = Some sk \<and>
    FromBase64 (snd (GetPriAndPubKey C (Some bs))) = Some pk \<and>
    sk = fst (newPrivateKey bs False) \<and> pk = publicKey C sk"
  using assms crypto_sizes(4) [OF crypto_okD(1)]
  by (simp add: GetPriAndPubKey_def FromBase64_def loadExactBase64_def base64_round_trip
      newPrivateKey_def publicKey_def Let_def)

theorem generated_keys_load_witness:
  "\<exists>sk pk. FromBase64 (fst (GetPriAndPubKey toy_crypto (Some (replicate 32 0xff)))) = Some sk \<and>
    FromBase64 (snd (GetPriAndPubKey toy_crypto (Some (replicate 32 0xff)))) = Some pk \<and>
    sk = fst (newPrivateKey (replicate 32 0xff) False) \<and> pk = publicKey toy_crypto sk"
  by (rule generated_keys_load [OF toy_crypto_ok]) simp
text \<open>
  A fresh private key read as a little-endian number is a multiple of 8 between 2^254 and
  2^255, the scalars curve25519 asks for, whatever bytes the random source gave.
\<close>

theorem private_key_clamped:
  assumes "length bs = 32"
  shows "8 dvd le_dec (fst (newPrivateKey bs err)) \<and>
    2 ^ 254 \<le> le_dec (fst (newPrivateKey bs err)) \<and> le_dec (fst (newPrivateKey bs err)) < 2 ^ 255"
proof -
  obtain b mid t where bs: "bs = b # mid @ [t]" and mid: "length mid = 30"
  proof -
    from assms obtain b rest where "bs = b # rest" "length rest = 31" by (cases bs) auto
    moreover from this(2) obtain mid t where "rest = mid @ [t]" "length mid = 30"
      by (cases rest rule: rev_cases) auto
    ultimately show ?thesis using that by simp
  qed
  let ?lo = "unat (b AND 248)" and ?hi = "unat ((t AND 127) OR 64)"
  have "clamp bs = (b AND 248) # mid @ [(t AND 127) OR 64]"
    using mid by (simp add: clamp_def bs Let_def nth_append list_update_append nth_Cons' numeral_eq_Suc)
  then have dec: "le_dec (fst (newPrivateKey bs err)) = ?lo + 256 * (le_dec mid + 256 ^ 30 * ?hi)"
    using mid by (simp add: newPrivateKey_def le_dec_append)
  have "le_dec mid < 256 ^ 30" using le_dec_bound [of mid] mid by simp
  moreover have lo: "8 dvd ?lo" "?lo \<le> 248" and "64 \<le> ?hi" "?hi < 128"
    by (rule clamp_low clamp_high)+
  ultimately show ?thesis unfolding dec by (auto intro!: dvd_add)
qed

theorem private_key_clamped_witness:
  "8 dvd le_dec (fst (newPrivateKey (replicate 32 0xff) False)) \<and>
    2 ^ 254 \<le> le_dec (fst (newPrivateKey (replicate 32 0xff) False)) \<and>
    le_dec (fst (newPrivateKey (replicate 32 0xff) False)) < 2 ^ 255"
  by (rule private_key_clamped) simp
end
