(* ===== verification/XChaCha20.thy ===== *)
theory XChaCha20
  imports Crypto
begin

text \<open>
  \<^verbatim>\<open>controller/xchacha20.go\<close>: HChaCha20, written out there on sixteen local
  variables, and the XChaCha20-Poly1305 construction over the library's ChaCha20-Poly1305.
\<close>

section \<open>The code\<close>

text \<open>
  The twelve assignments the source repeats for each of its eight quarters, on the variables
  \<open>a\<close>, \<open>b\<close>, \<open>c\<close>, \<open>d\<close> of that quarter. Shifts are those of \<^verbatim>\<open>uint32\<close>.
\<close>

definition quarter :: "u32 \<Rightarrow> u32 \<Rightarrow> u32 \<Rightarrow> u32 \<Rightarrow> u32 \<times> u32 \<times> u32 \<times> u32" where
  "quarter a b c d =
    (let a = a + b;
         d = d XOR a;
         d = (push_bit 16 d) OR (drop_bit 16 d);
         c = c + d;
         b = b XOR c;
         b = (push_bit 12 b) OR (drop_bit 20 b);
         a = a + b;
         d = d XOR a;
         d = (push_bit 8 d) OR (drop_bit 24 d);
         c = c + d;
         b = b XOR c;
         b = (push_bit 7 b) OR (drop_bit 25 b)
     in (a, b, c, d))"

type_synonym vars = "u32 \<times> u32 \<times> u32 \<times> u32 \<times> u32 \<times> u32 \<times> u32 \<times> u32 \<times>
  u32 \<times> u32 \<times> u32 \<times> u32 \<times> u32 \<times> u32 \<times> u32 \<times> u32"

fun double_round :: "vars \<Rightarrow> vars" where
  "double_round (v00, v01, v02, v03, v04, v05, v06, v07, v08, v09, v10, v11, v12, v13, v14, v15) =
    (case quarter v00 v04 v08 v12 of (v00, v04, v08, v12) \<Rightarrow>
     case quarter v01 v05 v09 v13 of (v01, v05, v09, v13) \<Rightarrow>
     case quarter v02 v06 v10 v14 of (v02, v06, v10, v14) \<Rightarrow>
     case quarter v03 v07 v11 v15 of (v03, v07, v11, v15) \<Rightarrow>
     case quarter v00 v05 v10 v15 of (v00, v05, v10, v15) \<Rightarrow>
     case quarter v01 v06 v11 v12 of (v01, v06, v11, v12) \<Rightarrow>
     case quarter v02 v07 v08 v13 of (v02, v07, v08, v13) \<Rightarrow>
     case quarter v03 v04 v09 v14 of (v03, v04, v09, v14) \<Rightarrow>
     (v00, v01, v02, v03, v04, v05, v06, v07, v08, v09, v10, v11, v12, v13, v14, v15))"

definition load :: "bytes \<Rightarrow> nat \<Rightarrow> u32" where
  "load bs i = get_le32 (drop i bs)"

definition HChaCha20_setup :: "bytes \<Rightarrow> bytes \<Rightarrow> vars" where
  "HChaCha20_setup nonce key =
    (0x61707865, 0x3320646e, 0x79622d32, 0x6b206574,
     load key 0, load key 4, load key 8, load key 12, load key 16, load key 20, load key 24, load key 28,
     load nonce 0, load nonce 4, load nonce 8, load nonce 12)"

fun HChaCha20_out :: "vars \<Rightarrow> bytes" where
  "HChaCha20_out (v00, v01, v02, v03, v04, v05, v06, v07, v08, v09, v10, v11, v12, v13, v14, v15) =
    le32 v00 @ le32 v01 @ le32 v02 @ le32 v03 @ le32 v12 @ le32 v13 @ le32 v14 @ le32 v15"

text \<open>The loop counts by two to twenty.\<close>

definition HChaCha20 :: "bytes \<Rightarrow> bytes \<Rightarrow> bytes" where
  "HChaCha20 nonce key = HChaCha20_out ((double_round ^^ 10) (HChaCha20_setup nonce key))"

definition XChaCha20Poly1305Encrypt :: "crypto \<Rightarrow> bytes \<Rightarrow> bytes \<Rightarrow> bytes \<Rightarrow> bytes \<Rightarrow> bytes" where
  "XChaCha20Poly1305Encrypt C nonceFull plaintext additionalData key =
    (let derivedKey = HChaCha20 (take 16 nonceFull) key;
         nonce = replicate 4 0 @ take 8 (drop 16 nonceFull)
     in aead_seal C derivedKey nonce plaintext additionalData)"

definition XChaCha20Poly1305Decrypt ::
  "crypto \<Rightarrow> bytes \<Rightarrow> bytes \<Rightarrow> bytes \<Rightarrow> bytes \<Rightarrow> bytes option" where
  "XChaCha20Poly1305Decrypt C nonceFull plaintext additionalData key =
    (let derivedKey = HChaCha20 (take 16 nonceFull) key;
         nonce = replicate 4 0 @ take 8 (drop 16 nonceFull)
     in aead_open C derivedKey nonce plaintext additionalData)"

lemma xchacha_round_trip [crypto_simps]:
  "aead_ok C \<Longrightarrow>
    XChaCha20Poly1305Decrypt C n (XChaCha20Poly1305Encrypt C n p a k) a k = Some p"
  by (simp add: XChaCha20Poly1305Encrypt_def XChaCha20Poly1305Decrypt_def Let_def open_seal)

lemma length_xchacha [crypto_simps]:
  "sizes_ok C \<Longrightarrow> length (XChaCha20Poly1305Encrypt C n p a k) = length p + 16"
  by (simp add: XChaCha20Poly1305Encrypt_def Let_def crypto_simps)

section \<open>The specification\<close>

text \<open>
  RFC 8439 and the XChaCha draft: a state of sixteen words, a quarter round on four indices by
  rotations, ten times the column and the diagonal rounds, the first and the last row out.
\<close>

definition QR :: "nat \<times> nat \<times> nat \<times> nat \<Rightarrow> u32 list \<Rightarrow> u32 list" where
  "QR = (\<lambda>(x, y, z, w) s.
    let a0 = s ! x + s ! y; d0 = word_rotl 16 (s ! w XOR a0);
        c0 = s ! z + d0; b0 = word_rotl 12 (s ! y XOR c0);
        a1 = a0 + b0; d1 = word_rotl 8 (d0 XOR a1);
        c1 = c0 + d1; b1 = word_rotl 7 (b0 XOR c1)
    in s[x := a1, y := b1, z := c1, w := d1])"

definition column_round :: "(nat \<times> nat \<times> nat \<times> nat) list" where
  "column_round = [(0, 4, 8, 12), (1, 5, 9, 13), (2, 6, 10, 14), (3, 7, 11, 15)]"

definition diagonal_round :: "(nat \<times> nat \<times> nat \<times> nat) list" where
  "diagonal_round = [(0, 5, 10, 15), (1, 6, 11, 12), (2, 7, 8, 13), (3, 4, 9, 14)]"

definition inner_block :: "u32 list \<Rightarrow> u32 list" where
  "inner_block = fold QR (column_round @ diagonal_round)"

definition hchacha20_spec :: "bytes \<Rightarrow> bytes \<Rightarrow> bytes" where
  "hchacha20_spec nonce key =
    (let s = (inner_block ^^ 10) ([0x61707865, 0x3320646e, 0x79622d32, 0x6b206574] @
       map (\<lambda>i. load key (4 * i)) [0..<8] @ map (\<lambda>i. load nonce (4 * i)) [0..<4])
     in concat (map le32 (take 4 s @ drop 12 s)))"

section \<open>The code implements the specification\<close>

fun words_of :: "vars \<Rightarrow> u32 list" where
  "words_of (v00, v01, v02, v03, v04, v05, v06, v07, v08, v09, v10, v11, v12, v13, v14, v15) =
    [v00, v01, v02, v03, v04, v05, v06, v07, v08, v09, v10, v11, v12, v13, v14, v15]"

lemma shifts_rotate:
  fixes w :: u32
  assumes "n < 32"
  shows "(push_bit n w) OR (drop_bit (32 - n) w) = word_rotl n w"
proof (rule bit_word_eqI)
  fix k
  assume "k < LENGTH(32)"
  then have k: "k < 32" by simp
  show "bit (push_bit n w OR drop_bit (32 - n) w) k = bit (word_rotl n w) k"
  proof (cases "k < n")
    case True
    then have "(k + (32 - n)) mod 32 = 32 - n + k" using assms by simp
    with True k assms show ?thesis
      by (simp add: bit_or_iff bit_push_bit_iff bit_drop_bit_eq bit_word_rotl_iff)
  next
    case False
    then have "(k + (32 - n)) mod 32 = k - n" using assms k by (simp add: mod_if)
    moreover have "\<not> bit w (32 - n + k)"
      using False assms by (intro notI) (drule bit_imp_le_length, simp)
    ultimately show ?thesis using False k assms
      by (simp add: bit_or_iff bit_push_bit_iff bit_drop_bit_eq bit_word_rotl_iff)
  qed
qed

lemma quarter_rotl:
  "quarter a b c d =
    (let a0 = a + b; d0 = word_rotl 16 (d XOR a0);
         c0 = c + d0; b0 = word_rotl 12 (b XOR c0);
         a1 = a0 + b0; d1 = word_rotl 8 (d0 XOR a1);
         c1 = c0 + d1; b1 = word_rotl 7 (b0 XOR c1)
     in (a1, b1, c1, d1))"
  using shifts_rotate [of 16] shifts_rotate [of 12] shifts_rotate [of 8] shifts_rotate [of 7]
  by (simp add: quarter_def Let_def)

lemma QR_quarter:
  "QR (x, y, z, w) s =
    (case quarter (s ! x) (s ! y) (s ! z) (s ! w) of (a, b, c, d) \<Rightarrow> s[x := a, y := b, z := c, w := d])"
  by (simp add: QR_def quarter_rotl Let_def)

lemma QR_words:
  "quarter v00 v04 v08 v12 = (a, b, c, d) \<Longrightarrow>
    QR (0, 4, 8, 12) [v00, v01, v02, v03, v04, v05, v06, v07, v08, v09, v10, v11, v12, v13, v14, v15] =
      [a, v01, v02, v03, b, v05, v06, v07, c, v09, v10, v11, d, v13, v14, v15]"
  "quarter v01 v05 v09 v13 = (a, b, c, d) \<Longrightarrow>
    QR (1, 5, 9, 13) [v00, v01, v02, v03, v04, v05, v06, v07, v08, v09, v10, v11, v12, v13, v14, v15] =
      [v00, a, v02, v03, v04, b, v06, v07, v08, c, v10, v11, v12, d, v14, v15]"
  "quarter v02 v06 v10 v14 = (a, b, c, d) \<Longrightarrow>
    QR (2, 6, 10, 14) [v00, v01, v02, v03, v04, v05, v06, v07, v08, v09, v10, v11, v12, v13, v14, v15] =
      [v00, v01, a, v03, v04, v05, b, v07, v08, v09, c, v11, v12, v13, d, v15]"
  "quarter v03 v07 v11 v15 = (a, b, c, d) \<Longrightarrow>
    QR (3, 7, 11, 15) [v00, v01, v02, v03, v04, v05, v06, v07, v08, v09, v10, v11, v12, v13, v14, v15] =
      [v00, v01, v02, a, v04, v05, v06, b, v08, v09, v10, c, v12, v13, v14, d]"
  "quarter v00 v05 v10 v15 = (a, b, c, d) \<Longrightarrow>
    QR (0, 5, 10, 15) [v00, v01, v02, v03, v04, v05, v06, v07, v08, v09, v10, v11, v12, v13, v14, v15] =
      [a, v01, v02, v03, v04, b, v06, v07, v08, v09, c, v11, v12, v13, v14, d]"
  "quarter v01 v06 v11 v12 = (a, b, c, d) \<Longrightarrow>
    QR (1, 6, 11, 12) [v00, v01, v02, v03, v04, v05, v06, v07, v08, v09, v10, v11, v12, v13, v14, v15] =
      [v00, a, v02, v03, v04, v05, b, v07, v08, v09, v10, c, d, v13, v14, v15]"
  "quarter v02 v07 v08 v13 = (a, b, c, d) \<Longrightarrow>
    QR (2, 7, 8, 13) [v00, v01, v02, v03, v04, v05, v06, v07, v08, v09, v10, v11, v12, v13, v14, v15] =
      [v00, v01, a, v03, v04, v05, v06, b, c, v09, v10, v11, v12, d, v14, v15]"
  "quarter v03 v04 v09 v14 = (a, b, c, d) \<Longrightarrow>
    QR (3, 4, 9, 14) [v00, v01, v02, v03, v04, v05, v06, v07, v08, v09, v10, v11, v12, v13, v14, v15] =
      [v00, v01, v02, a, b, v05, v06, v07, v08, c, v10, v11, v12, v13, d, v15]"
  by (simp_all add: QR_quarter)

lemma inner_block_words: "inner_block (words_of v) = words_of (double_round v)"
proof (cases v rule: words_of.cases)
  case (1 v00 v01 v02 v03 v04 v05 v06 v07 v08 v09 v10 v11 v12 v13 v14 v15)
  obtain a0 b0 c0 d0 where q0: "quarter v00 v04 v08 v12 = (a0, b0, c0, d0)"
    by (rule prod_cases4)
  obtain a1 b1 c1 d1 where q1: "quarter v01 v05 v09 v13 = (a1, b1, c1, d1)"
    by (rule prod_cases4)
  obtain a2 b2 c2 d2 where q2: "quarter v02 v06 v10 v14 = (a2, b2, c2, d2)"
    by (rule prod_cases4)
  obtain a3 b3 c3 d3 where q3: "quarter v03 v07 v11 v15 = (a3, b3, c3, d3)"
    by (rule prod_cases4)
  obtain a4 b4 c4 d4 where q4: "quarter a0 b1 c2 d3 = (a4, b4, c4, d4)"
    by (rule prod_cases4)
  obtain a5 b5 c5 d5 where q5: "quarter a1 b2 c3 d0 = (a5, b5, c5, d5)"
    by (rule prod_cases4)
  obtain a6 b6 c6 d6 where q6: "quarter a2 b3 c0 d1 = (a6, b6, c6, d6)"
    by (rule prod_cases4)
  obtain a7 b7 c7 d7 where q7: "quarter a3 b0 c1 d2 = (a7, b7, c7, d7)"
    by (rule prod_cases4)
  show ?thesis
    unfolding 1 inner_block_def column_round_def diagonal_round_def append.simps words_of.simps
      fold_simps double_round.simps
    by (simp only: q0 q1 q2 q3 q4 q5 q6 q7 prod.case words_of.simps
        QR_words(1) [OF q0] QR_words(2) [OF q1] QR_words(3) [OF q2] QR_words(4) [OF q3] QR_words(5) [OF q4] QR_words(6) [OF q5] QR_words(7) [OF q6] QR_words(8) [OF q7])
qed

lemma inner_blocks_words: "(inner_block ^^ n) (words_of v) = words_of ((double_round ^^ n) v)"
  by (induction n arbitrary: v) (simp_all add: inner_block_words)

lemma out_words: "HChaCha20_out v = concat (map le32 (take 4 (words_of v) @ drop 12 (words_of v)))"
  by (cases v rule: words_of.cases) simp

text \<open>
  C30: the unrolled \<^verbatim>\<open>HChaCha20\<close> computes the specified function on every nonce and key.
\<close>

theorem hchacha20_meets_spec: "HChaCha20 nonce key = hchacha20_spec nonce key"
proof -
  have "words_of (HChaCha20_setup nonce key) = [0x61707865, 0x3320646e, 0x79622d32, 0x6b206574] @
      map (\<lambda>i. load key (4 * i)) [0..<8] @ map (\<lambda>i. load nonce (4 * i)) [0..<4]"
    by (simp add: HChaCha20_setup_def upt_rec)
  then show ?thesis
    unfolding HChaCha20_def hchacha20_spec_def Let_def out_words inner_blocks_words [symmetric]
    by simp
qed

end
