(* ===== verification/Tai64n.thy ===== *)
theory Tai64n
  imports Constants
begin

text \<open>
  The handshake timestamps of \<^verbatim>\<open>controller/tai64.go\<close>: twelve bytes, big-endian
  seconds then nanoseconds, compared as byte strings.
\<close>

section \<open>Operations\<close>

definition TAI64NBase :: u64 where "TAI64NBase = 4611686018427387914"
definition TAI64NSize :: nat where "TAI64NSize = 12"

text \<open>
  \<^verbatim>\<open>now.Unix()\<close> is the floor of the nanoseconds over a second;
  \<^verbatim>\<open>uint32(now.UnixNano())\<close> keeps the low 32 bits of the nanoseconds since 1970.
\<close>

definition Timestamp :: "time \<Rightarrow> bytes" where
  "Timestamp now =
    (let secs = TAI64NBase + word_of_int (now div second);
         nano = word_of_int now :: u32
     in be64 secs @ be32 nano)"

text \<open>\<^verbatim>\<open>bytes.Compare(t1, t2) > 0\<close>: the first differing byte decides.\<close>

fun bytes_gt :: "bytes \<Rightarrow> bytes \<Rightarrow> bool" where
  "bytes_gt [] ys = False"
| "bytes_gt (x # xs) [] = True"
| "bytes_gt (x # xs) (y # ys) = (x > y \<or> x = y \<and> bytes_gt xs ys)"

definition tai_After :: "bytes \<Rightarrow> bytes \<Rightarrow> bool" where
  "tai_After t1 t2 = bytes_gt t1 t2"

section \<open>Byte order is numeric order\<close>

lemma length_Timestamp [simp]: "length (Timestamp now) = TAI64NSize"
  by (simp add: Timestamp_def TAI64NSize_def Let_def)

lemma bytes_gt_irrefl [simp]: "\<not> bytes_gt xs xs"
  by (induction xs) auto

lemma bytes_gt_trans: "bytes_gt xs ys \<Longrightarrow> bytes_gt ys zs \<Longrightarrow> bytes_gt xs zs"
proof (induction xs ys arbitrary: zs rule: bytes_gt.induct)
  case (1 ys)
  then show ?case by simp
next
  case (2 x xs)
  then show ?case by simp
next
  case (3 x xs y ys)
  then show ?case by (cases zs) auto
qed

lemma bytes_gt_append:
  "length xs = length ys \<Longrightarrow>
    bytes_gt (xs @ us) (ys @ vs) \<longleftrightarrow> bytes_gt xs ys \<or> xs = ys \<and> bytes_gt us vs"
  by (induction xs ys rule: list_induct2) auto

lemma bytes_gt_rev:
  "length xs = length ys \<Longrightarrow> bytes_gt (rev xs) (rev ys) \<longleftrightarrow> le_dec xs > le_dec ys"
proof (induction xs ys rule: list_induct2)
  case Nil
  then show ?case by simp
next
  case (Cons x xs y ys)
  have "rev xs = rev ys \<longleftrightarrow> le_dec xs = le_dec ys"
    using Cons.hyps le_enc_le_dec [of xs] le_enc_le_dec [of ys] by (metis rev_is_rev_conv)
  moreover have "unat x < 256" "unat y < 256" using unat_bound [of x] unat_bound [of y] by simp_all
  ultimately show ?case
    using Cons by (auto simp: bytes_gt_append word_less_nat_alt)
qed

lemma be64_gt: "bytes_gt (be64 a) (be64 b) \<longleftrightarrow> a > b"
  using unat_bound [of a] unat_bound [of b]
  by (simp add: be64_def bytes_gt_rev le_dec_le_enc word_less_nat_alt)

lemma be32_gt: "bytes_gt (be32 a) (be32 b) \<longleftrightarrow> a > b"
  using unat_bound [of a] unat_bound [of b]
  by (simp add: be32_def bytes_gt_rev le_dec_le_enc word_less_nat_alt)

lemma be64_inj: "be64 a = be64 b \<longleftrightarrow> a = b"
  by (metis be64_gt bytes_gt_irrefl linorder_neq_iff)

lemma be32_inj: "be32 a = be32 b \<longleftrightarrow> a = b"
  by (metis be32_gt bytes_gt_irrefl linorder_neq_iff)

text \<open>The order of timestamps, with the times they are taken from before 2^63 seconds.\<close>

definition tai_secs :: "time \<Rightarrow> nat" where
  "tai_secs t = 4611686018427387914 + nat (t div second)"

lemma unat_tai_secs:
  assumes "0 \<le> t" "t < 2 ^ 62 * second"
  shows "unat (TAI64NBase + word_of_int (t div second)) = tai_secs t"
proof -
  have t: "0 \<le> t div second" "t div second < 2 ^ 62"
    using assms by (simp_all add: second_def)
  then have "unat (word_of_int (t div second) :: u64) = nat (t div second)"
    by (simp add: unsigned_of_int take_bit_int_eq_self)
  with t show ?thesis
    by (simp add: TAI64NBase_def tai_secs_def unat_word_ariths nat_less_iff)
qed

lemma tai_After_iff:
  assumes "0 \<le> t" "t < 2 ^ 62 * second" "0 \<le> u" "u < 2 ^ 62 * second"
  shows "tai_After (Timestamp t) (Timestamp u) \<longleftrightarrow>
    t div second > u div second \<or>
    t div second = u div second \<and> (word_of_int t :: u32) > word_of_int u"
proof -
  let ?a = "TAI64NBase + word_of_int (t div second)" and ?b = "TAI64NBase + word_of_int (u div second)"
  have nonneg: "0 \<le> t div second" "0 \<le> u div second" using assms by (simp_all add: second_def)
  have "?a > ?b \<longleftrightarrow> t div second > u div second"
    unfolding word_less_nat_alt unat_tai_secs [OF assms(1,2)] unat_tai_secs [OF assms(3,4)]
    using nonneg by (auto simp: tai_secs_def)
  moreover have "?a = ?b \<longleftrightarrow> t div second = u div second"
    unfolding word_unat_eq_iff unat_tai_secs [OF assms(1,2)] unat_tai_secs [OF assms(3,4)]
    using nonneg by (simp add: tai_secs_def eq_nat_nat_iff)
  ultimately show ?thesis
    by (simp add: tai_After_def Timestamp_def Let_def bytes_gt_append be64_gt be32_gt be64_inj)
qed

section \<open>Properties\<close>

text \<open>
  A timestamp taken in a strictly later second is after the earlier one, so a handshake
  initiation made in a later second is never refused as a replay of the earlier one.
\<close>

theorem timestamp_later_second_after:
  assumes "0 \<le> u" "t < 2 ^ 62 * second" "u div second < t div second"
  shows "tai_After (Timestamp t) (Timestamp u) \<and> \<not> tai_After (Timestamp u) (Timestamp t)"
proof -
  have "u < t" using assms(3) by (metis linorder_not_less zdiv_mono1 second_def zero_less_numeral)
  then show ?thesis using assms by (simp add: tai_After_iff)
qed

theorem timestamp_later_second_after_witness:
  "tai_After (Timestamp 1700000001000000000) (Timestamp 1700000000999999999) \<and>
    \<not> tai_After (Timestamp 1700000000999999999) (Timestamp 1700000001000000000)"
  by (rule timestamp_later_second_after) (simp_all add: second_def)

text \<open>
  Within one second the timestamps are not monotone. The nanosecond field holds
  \<^verbatim>\<open>uint32(now.UnixNano())\<close>, the low 32 bits of the nanoseconds since 1970 and not the
  nanoseconds of the second: it wraps every 4.29 seconds, and a time 300 ms later in the same
  second can have a timestamp that is before the earlier one, so its initiation is refused as a
  replay.
\<close>

theorem timestamp_not_monotone_within_second:
  "\<exists>t u. (0::time) \<le> u \<and> u < t \<and> t - u = 300000000 \<and> t div second = u div second \<and>
    tai_After (Timestamp u) (Timestamp t) \<and> \<not> tai_After (Timestamp t) (Timestamp u)"
proof (intro exI conjI)
  let ?u = "4294900000 :: time" and ?t = "4594900000 :: time"
  show "(0::time) \<le> ?u" "?u < ?t" "?t - ?u = 300000000" "?t div second = ?u div second"
    by (simp_all add: second_def)
  show "tai_After (Timestamp ?u) (Timestamp ?t)" "\<not> tai_After (Timestamp ?t) (Timestamp ?u)"
    by (simp_all add: tai_After_iff second_def word_less_nat_alt unsigned_of_int)
qed
end
