(* ===== verification/Wire.thy ===== *)
theory Wire
  imports Tai64n
begin

text \<open>
  The handshake messages of \<^verbatim>\<open>controller/noise_protocol.go\<close>, their images under
  \<^verbatim>\<open>binary.Write\<close> and \<^verbatim>\<open>binary.Read\<close> in little-endian order, and the
  extra fields of \<^verbatim>\<open>controller/extend_data.go\<close>.
\<close>

section \<open>Messages\<close>

definition NoisePublicKeySize :: nat where "NoisePublicKeySize = 32"
definition NoisePrivateKeySize :: nat where "NoisePrivateKeySize = 32"
definition timestampSize :: nat where "timestampSize = 4"
definition signSize :: nat where "signSize = 16"
definition allowIpSize :: nat where "allowIpSize = 4"
definition netmaskSize :: nat where "netmaskSize = 4"
definition Size128 :: nat where "Size128 = 16"

lemmas field_consts = NoisePublicKeySize_def NoisePrivateKeySize_def timestampSize_def
  signSize_def allowIpSize_def netmaskSize_def Size128_def TagSize_def TAI64NSize_def

record MessageInitiation =
  mi_Type :: u32
  mi_Sender :: u32
  mi_Ephemeral :: bytes
  mi_Static :: bytes
  mi_Timestamp :: bytes
  mi_Ts :: bytes
  mi_Sign :: bytes
  mi_AllowIp :: bytes
  mi_Netmask :: bytes
  mi_MAC1 :: bytes
  mi_MAC2 :: bytes

record MessageResponse =
  mr_Type :: u32
  mr_Sender :: u32
  mr_Receiver :: u32
  mr_Ephemeral :: bytes
  mr_Empty :: bytes
  mr_MAC1 :: bytes
  mr_MAC2 :: bytes

record MessageCookieReply =
  mc_Type :: u32
  mc_Receiver :: u32
  mc_Nonce :: bytes
  mc_Cookie :: bytes

text \<open>The array fields as lists, and the lengths their Go types fix.\<close>

definition initiation_arrays :: "MessageInitiation \<Rightarrow> bytes list" where
  "initiation_arrays m = [mi_Ephemeral m, mi_Static m, mi_Timestamp m, mi_Ts m, mi_Sign m,
    mi_AllowIp m, mi_Netmask m, mi_MAC1 m, mi_MAC2 m]"

definition initiation_layout :: "nat list" where
  "initiation_layout = [NoisePublicKeySize, NoisePublicKeySize + TagSize, TAI64NSize + TagSize,
    timestampSize, signSize, allowIpSize, netmaskSize, Size128, Size128]"

definition response_arrays :: "MessageResponse \<Rightarrow> bytes list" where
  "response_arrays m = [mr_Ephemeral m, mr_Empty m, mr_MAC1 m, mr_MAC2 m]"

definition response_layout :: "nat list" where
  "response_layout = [NoisePublicKeySize, TagSize, Size128, Size128]"

definition cookie_arrays :: "MessageCookieReply \<Rightarrow> bytes list" where
  "cookie_arrays m = [mc_Nonce m, mc_Cookie m]"

definition cookie_layout :: "nat list" where
  "cookie_layout = [24, Size128 + TagSize]"

definition initiation_wf :: "MessageInitiation \<Rightarrow> bool" where
  "initiation_wf m \<longleftrightarrow> map length (initiation_arrays m) = initiation_layout"

definition response_wf :: "MessageResponse \<Rightarrow> bool" where
  "response_wf m \<longleftrightarrow> map length (response_arrays m) = response_layout"

definition cookie_wf :: "MessageCookieReply \<Rightarrow> bool" where
  "cookie_wf m \<longleftrightarrow> map length (cookie_arrays m) = cookie_layout"

section \<open>Encoding and decoding\<close>

text \<open>\<open>cut ns bs\<close> splits the front of \<open>bs\<close> into pieces of the lengths \<open>ns\<close>.\<close>

fun cut :: "nat list \<Rightarrow> bytes \<Rightarrow> bytes list" where
  "cut [] bs = []"
| "cut (n # ns) bs = take n bs # cut ns (drop n bs)"

definition write_initiation :: "MessageInitiation \<Rightarrow> bytes" where
  "write_initiation m = concat (le32 (mi_Type m) # le32 (mi_Sender m) # initiation_arrays m)"

definition write_response :: "MessageResponse \<Rightarrow> bytes" where
  "write_response m =
    concat (le32 (mr_Type m) # le32 (mr_Sender m) # le32 (mr_Receiver m) # response_arrays m)"

definition write_cookie :: "MessageCookieReply \<Rightarrow> bytes" where
  "write_cookie m = concat (le32 (mc_Type m) # le32 (mc_Receiver m) # cookie_arrays m)"

text \<open>
  \<^verbatim>\<open>binary.Read\<close> takes exactly the size of the structure from the reader, fails when
  there is less and leaves the rest unread.
\<close>

definition read_initiation :: "bytes \<Rightarrow> MessageInitiation option" where
  "read_initiation bs =
    (if length bs < 8 + sum_list initiation_layout then None
     else case cut (4 # 4 # initiation_layout) bs of
       [ty, sen, eph, sta, tim, ts, sig, aip, net, m1, m2] \<Rightarrow>
         Some \<lparr>mi_Type = get_le32 ty, mi_Sender = get_le32 sen, mi_Ephemeral = eph,
           mi_Static = sta, mi_Timestamp = tim, mi_Ts = ts, mi_Sign = sig, mi_AllowIp = aip,
           mi_Netmask = net, mi_MAC1 = m1, mi_MAC2 = m2\<rparr>
     | _ \<Rightarrow> None)"

definition read_response :: "bytes \<Rightarrow> MessageResponse option" where
  "read_response bs =
    (if length bs < 12 + sum_list response_layout then None
     else case cut (4 # 4 # 4 # response_layout) bs of
       [ty, sen, rcv, eph, emp, m1, m2] \<Rightarrow>
         Some \<lparr>mr_Type = get_le32 ty, mr_Sender = get_le32 sen, mr_Receiver = get_le32 rcv,
           mr_Ephemeral = eph, mr_Empty = emp, mr_MAC1 = m1, mr_MAC2 = m2\<rparr>
     | _ \<Rightarrow> None)"

definition read_cookie :: "bytes \<Rightarrow> MessageCookieReply option" where
  "read_cookie bs =
    (if length bs < 8 + sum_list cookie_layout then None
     else case cut (4 # 4 # cookie_layout) bs of
       [ty, rcv, non, coo] \<Rightarrow>
         Some \<lparr>mc_Type = get_le32 ty, mc_Receiver = get_le32 rcv, mc_Nonce = non, mc_Cookie = coo\<rparr>
     | _ \<Rightarrow> None)"

section \<open>The extra fields of an initiation\<close>

text \<open>\<^verbatim>\<open>copy\<close> of a slice into a zeroed array of \<open>n\<close> bytes.\<close>

definition copy_into :: "nat \<Rightarrow> bytes \<Rightarrow> bytes" where
  "copy_into n src = take n (src @ replicate n 0)"

definition newTimestampData :: "u32 \<Rightarrow> bytes" where
  "newTimestampData Ts = be32 Ts"

text \<open>
  \<^verbatim>\<open>hex.DecodeString\<close> returns the bytes before the first bad digit together with its
  error, which \<^verbatim>\<open>newSignData\<close> ignores.
\<close>

definition fromHexChar :: "char \<Rightarrow> nat option" where
  "fromHexChar c =
    (if CHR ''0'' \<le> c \<and> c \<le> CHR ''9'' then Some (of_char c - 48)
     else if CHR ''a'' \<le> c \<and> c \<le> CHR ''f'' then Some (of_char c - 97 + 10)
     else if CHR ''A'' \<le> c \<and> c \<le> CHR ''F'' then Some (of_char c - 65 + 10)
     else None)"

fun hex_DecodeString :: "string \<Rightarrow> bytes" where
  "hex_DecodeString (a # b # s) =
    (case (fromHexChar a, fromHexChar b) of
      (Some x, Some y) \<Rightarrow> word_of_nat (16 * x + y) # hex_DecodeString s
    | _ \<Rightarrow> [])"
| "hex_DecodeString _ = []"

definition newSignData :: "string \<Rightarrow> bytes" where
  "newSignData Sign = copy_into signSize (hex_DecodeString Sign)"

text \<open>The argument is the four-byte form of the parsed \<^verbatim>\<open>AllowIp\<close>, nil when there is none.\<close>

definition newAllowIpData :: "bytes option \<Rightarrow> bytes" where
  "newAllowIpData ip = copy_into allowIpSize (case ip of None \<Rightarrow> [] | Some b \<Rightarrow> b)"

definition newNetmaskData :: "u32 \<Rightarrow> bytes" where
  "newNetmaskData Netmask = be32 Netmask"

section \<open>Cutting inverts concatenation\<close>

lemma cut_concat [codec_simps]: "cut (map length xss) (concat xss @ rest) = xss"
  by (induction xss) simp_all

lemma concat_cut [codec_simps]: "sum_list ns \<le> length bs \<Longrightarrow> concat (cut ns bs) = take (sum_list ns) bs"
proof (induction ns arbitrary: bs)
  case Nil
  show ?case by simp
next
  case (Cons n ns)
  then show ?case by (simp add: take_add)
qed

lemma length_cut: "sum_list ns \<le> length bs \<Longrightarrow> map length (cut ns bs) = ns"
  by (induction ns arbitrary: bs) simp_all

lemma length_concat_map: "length (concat xss) = sum_list (map length xss)"
  by (induction xss) simp_all

lemmas layouts = initiation_layout_def response_layout_def cookie_layout_def field_consts
lemmas arrays = initiation_arrays_def response_arrays_def cookie_arrays_def
lemmas writes = write_initiation_def write_response_def write_cookie_def
lemmas wfs = initiation_wf_def response_wf_def cookie_wf_def

lemma write_lengths [codec_simps]:
  "initiation_wf m \<Longrightarrow> length (write_initiation m) = 176"
  "response_wf r \<Longrightarrow> length (write_response r) = 92"
  "cookie_wf c \<Longrightarrow> length (write_cookie c) = 64"
  by (simp_all add: writes length_concat_map wfs layouts)

lemma sum_layouts [simp]:
  "sum_list initiation_layout = 168" "sum_list response_layout = 80" "sum_list cookie_layout = 56"
  by (simp_all add: layouts)

lemma read_write_initiation:
  assumes "initiation_wf m"
  shows "read_initiation (write_initiation m @ rest) = Some m"
proof -
  let ?xss = "le32 (mi_Type m) # le32 (mi_Sender m) # initiation_arrays m"
  have "cut (map length ?xss) (concat ?xss @ rest) = ?xss" by (rule cut_concat)
  with assms have "cut (4 # 4 # initiation_layout) (write_initiation m @ rest) = ?xss"
    by (simp add: write_initiation_def initiation_wf_def)
  with assms show ?thesis
    by (simp add: read_initiation_def write_lengths initiation_arrays_def del: cut.simps)
qed

lemma read_write_response:
  assumes "response_wf m"
  shows "read_response (write_response m @ rest) = Some m"
proof -
  let ?xss = "le32 (mr_Type m) # le32 (mr_Sender m) # le32 (mr_Receiver m) # response_arrays m"
  have "cut (map length ?xss) (concat ?xss @ rest) = ?xss" by (rule cut_concat)
  with assms have "cut (4 # 4 # 4 # response_layout) (write_response m @ rest) = ?xss"
    by (simp add: write_response_def response_wf_def)
  with assms show ?thesis
    by (simp add: read_response_def write_lengths response_arrays_def del: cut.simps)
qed

lemma read_write_cookie:
  assumes "cookie_wf m"
  shows "read_cookie (write_cookie m @ rest) = Some m"
proof -
  let ?xss = "le32 (mc_Type m) # le32 (mc_Receiver m) # cookie_arrays m"
  have "cut (map length ?xss) (concat ?xss @ rest) = ?xss" by (rule cut_concat)
  with assms have "cut (4 # 4 # cookie_layout) (write_cookie m @ rest) = ?xss"
    by (simp add: write_cookie_def cookie_wf_def)
  with assms show ?thesis
    by (simp add: read_cookie_def write_lengths cookie_arrays_def del: cut.simps)
qed

lemma take_4_drop: "le32 (get_le32 (take 4 bs)) = take 4 bs" if "4 \<le> length bs"
  using that by (simp add: le32_get_le32)

lemma write_read_initiation:
  assumes "length bs = 176"
  shows "\<exists>m. read_initiation bs = Some m \<and> initiation_wf m \<and> write_initiation m = bs"
proof -
  let ?ns = "4 # 4 # initiation_layout"
  define xss where "xss = cut ?ns bs"
  have sum: "sum_list ?ns = 176" by (simp add: layouts)
  have cat: "concat xss = bs" and len: "map length xss = ?ns"
    using assms sum concat_cut [of ?ns bs] length_cut [of ?ns bs] by (simp_all add: xss_def)
  from len obtain ty s eph sta tim ts sg aip net m1 m2 where
    xss: "xss = [ty, s, eph, sta, tim, ts, sg, aip, net, m1, m2]"
    by (auto simp: initiation_layout_def map_eq_Cons_conv)
  let ?m = "\<lparr>mi_Type = get_le32 ty, mi_Sender = get_le32 s, mi_Ephemeral = eph, mi_Static = sta,
    mi_Timestamp = tim, mi_Ts = ts, mi_Sign = sg, mi_AllowIp = aip, mi_Netmask = net,
    mi_MAC1 = m1, mi_MAC2 = m2\<rparr>"
  have "read_initiation bs = Some ?m"
    using assms by (simp add: read_initiation_def xss_def [symmetric] xss del: cut.simps)
  moreover have "initiation_wf ?m" "le32 (get_le32 ty) = ty" "le32 (get_le32 s) = s"
    using len by (simp_all add: xss initiation_wf_def initiation_arrays_def initiation_layout_def
        le32_get_le32)
  moreover from this have "write_initiation ?m = bs"
    using cat by (simp add: xss write_initiation_def initiation_arrays_def)
  ultimately show ?thesis by blast
qed
section \<open>Properties\<close>

text \<open>
  C28: every handshake message is read back from its wire image as it was written, whatever
  bytes follow it, and the images have the lengths 176, 92 and 64.
\<close>

theorem handshake_messages_round_trip:
  assumes "initiation_wf m" "response_wf r" "cookie_wf c"
  shows "read_initiation (write_initiation m @ rest) = Some m \<and> length (write_initiation m) = 176 \<and>
    read_response (write_response r @ rest) = Some r \<and> length (write_response r) = 92 \<and>
    read_cookie (write_cookie c @ rest) = Some c \<and> length (write_cookie c) = 64"
  using assms by (simp add: read_write_initiation read_write_response read_write_cookie write_lengths)

definition blank_initiation :: MessageInitiation where
  "blank_initiation = \<lparr>mi_Type = 1, mi_Sender = 7, mi_Ephemeral = replicate 32 1,
    mi_Static = replicate 48 2, mi_Timestamp = replicate 28 3, mi_Ts = replicate 4 4,
    mi_Sign = replicate 16 5, mi_AllowIp = replicate 4 6, mi_Netmask = replicate 4 7,
    mi_MAC1 = replicate 16 8, mi_MAC2 = replicate 16 9\<rparr>"

definition blank_response :: MessageResponse where
  "blank_response = \<lparr>mr_Type = 2, mr_Sender = 9, mr_Receiver = 7, mr_Ephemeral = replicate 32 1,
    mr_Empty = replicate 16 2, mr_MAC1 = replicate 16 3, mr_MAC2 = replicate 16 4\<rparr>"

definition blank_cookie :: MessageCookieReply where
  "blank_cookie = \<lparr>mc_Type = 3, mc_Receiver = 7, mc_Nonce = replicate 24 1, mc_Cookie = replicate 32 2\<rparr>"

lemma blank_wf: "initiation_wf blank_initiation" "response_wf blank_response" "cookie_wf blank_cookie"
  by (simp_all add: wfs layouts arrays blank_initiation_def blank_response_def blank_cookie_def)

theorem handshake_messages_round_trip_witness:
  "read_initiation (write_initiation blank_initiation @ [0]) = Some blank_initiation \<and>
    length (write_initiation blank_initiation) = 176 \<and>
    read_response (write_response blank_response @ [0]) = Some blank_response \<and>
    length (write_response blank_response) = 92 \<and>
    read_cookie (write_cookie blank_cookie @ [0]) = Some blank_cookie \<and>
    length (write_cookie blank_cookie) = 64"
  by (rule handshake_messages_round_trip [OF blank_wf])

text \<open>
  C38: the declared size of an initiation is 173 bytes (the comments count one byte of netmask)
  but the structure has four bytes of netmask and an image of 176: no well-formed initiation has
  the declared size, and no packet of the declared size can be decoded as an initiation.
\<close>

theorem initiation_size_mismatch:
  "(\<forall>m. initiation_wf m \<longrightarrow> length (write_initiation m) \<noteq> MessageInitiationSize) \<and>
    (\<forall>bs. length bs = MessageInitiationSize \<longrightarrow> read_initiation bs = None)"
  by (simp add: write_lengths MessageInitiationSize_def read_initiation_def)

theorem initiation_size_mismatch_witness:
  "length (write_initiation blank_initiation) \<noteq> MessageInitiationSize \<and>
    read_initiation (replicate 173 0) = None"
  using initiation_size_mismatch blank_wf(1) by (simp add: MessageInitiationSize_def)
end
