(* ===== verification/Channels.thy ===== *)
theory Channels
  imports Constants
begin

text \<open>
  Buffered channels, the one-place signal channels and timers of
  \<^verbatim>\<open>controller/misc.go\<close>, the work elements of
  \<^verbatim>\<open>controller/send.go\<close> and \<^verbatim>\<open>controller/receive.go\<close>, and the
  queues that drop their oldest element when they are full. Elements are shared between two
  queues in the source, so they live in a store and a queue holds their addresses.
\<close>

section \<open>Channels\<close>

record 'a chan =
  chan_cap :: nat
  chan_buf :: "'a list"

definition make_chan :: "nat \<Rightarrow> 'a chan" where
  "make_chan n = \<lparr>chan_cap = n, chan_buf = []\<rparr>"

text \<open>The non-blocking halves of a \<^verbatim>\<open>select\<close> with a default: \<open>None\<close> takes the default.\<close>

definition chan_send :: "'a chan \<Rightarrow> 'a \<Rightarrow> 'a chan option" where
  "chan_send c x =
    (if length (chan_buf c) < chan_cap c then Some (c\<lparr>chan_buf := chan_buf c @ [x]\<rparr>) else None)"

definition chan_recv :: "'a chan \<Rightarrow> ('a \<times> 'a chan) option" where
  "chan_recv c =
    (case chan_buf c of [] \<Rightarrow> None | x # xs \<Rightarrow> Some (x, c\<lparr>chan_buf := xs\<rparr>))"

definition chan_len :: "'a chan \<Rightarrow> nat" where
  "chan_len c = length (chan_buf c)"

definition chan_ok :: "'a chan \<Rightarrow> bool" where
  "chan_ok c \<longleftrightarrow> length (chan_buf c) \<le> chan_cap c"

section \<open>Signals and timers\<close>

definition signalSend :: "unit chan \<Rightarrow> unit chan" where
  "signalSend c = (case chan_send c () of Some c' \<Rightarrow> c' | None \<Rightarrow> c)"

definition signalClear :: "unit chan \<Rightarrow> unit chan" where
  "signalClear c = (case chan_recv c of Some (_, c') \<Rightarrow> c' | None \<Rightarrow> c)"

text \<open>
  A \<^verbatim>\<open>time.Timer\<close>: the time it is set to go off at, if it is running, and the
  one-place channel it fires into. \<^verbatim>\<open>Stop\<close> reports whether it was running and leaves
  the channel alone, as does \<^verbatim>\<open>Reset\<close>.
\<close>

record timer =
  t_deadline :: "time option"
  t_C :: "unit chan"

definition newTimer :: "time \<Rightarrow> duration \<Rightarrow> timer" where
  "newTimer now d = \<lparr>t_deadline = Some (now + d), t_C = make_chan 1\<rparr>"

definition timer_Stop :: "timer \<Rightarrow> bool \<times> timer" where
  "timer_Stop t = (t_deadline t \<noteq> None, t\<lparr>t_deadline := None\<rparr>)"

definition timer_Reset :: "timer \<Rightarrow> time \<Rightarrow> duration \<Rightarrow> timer" where
  "timer_Reset t now d = t\<lparr>t_deadline := Some (now + d)\<rparr>"

text \<open>The runtime fires a running timer that is due: one value, if the channel has room.\<close>

definition timer_fire :: "timer \<Rightarrow> time \<Rightarrow> timer" where
  "timer_fire t now =
    (case t_deadline t of
      None \<Rightarrow> t
    | Some d \<Rightarrow> if d \<le> now then t\<lparr>t_deadline := None, t_C := signalSend (t_C t)\<rparr> else t)"

definition timerStop :: "timer \<Rightarrow> timer" where
  "timerStop t =
    (let (running, t) = timer_Stop t in
     if \<not> running then t\<lparr>t_C := signalClear (t_C t)\<rparr> else t)"

definition NewStoppedTimer :: "time \<Rightarrow> timer" where
  "NewStoppedTimer now = timerStop (newTimer now (3600 * second))"

section \<open>Work elements\<close>

text \<open>
  \<open>locked\<close> is the state of the element's mutex, \<open>buffer\<close> names the message buffer the
  packet is a slice of and \<open>offset\<close> where in it the slice starts; the packet's bytes are held
  as a value.
\<close>

record ('p, 'k) QueueOutboundElement =
  qo_dropped :: bool
  qo_locked :: bool
  qo_buffer :: nat
  qo_offset :: nat
  qo_packet :: bytes
  qo_nonce :: u64
  qo_keyPair :: "'k option"
  qo_peer :: "'p option"

record 'k QueueInboundElement =
  qi_dropped :: bool
  qi_locked :: bool
  qi_buffer :: nat
  qi_packet :: bytes
  qi_counter :: u64
  qi_keyPair :: "'k option"

record UDPAddr =
  ua_IP :: bytes
  ua_Port :: u64

record QueueHandshakeElement =
  qh_msgType :: u32
  qh_packet :: bytes
  qh_buffer :: nat
  qh_source :: UDPAddr

type_synonym eid = nat
type_synonym ('p, 'k) outbound_store = "eid \<Rightarrow> ('p, 'k) QueueOutboundElement"
type_synonym 'k inbound_store = "eid \<Rightarrow> 'k QueueInboundElement"

definition qo_Drop :: "('p, 'k) outbound_store \<Rightarrow> eid \<Rightarrow> ('p, 'k) outbound_store" where
  "qo_Drop st e = st(e := (st e)\<lparr>qo_dropped := True\<rparr>)"

definition qo_IsDropped :: "('p, 'k) outbound_store \<Rightarrow> eid \<Rightarrow> bool" where
  "qo_IsDropped st e = qo_dropped (st e)"

definition qi_Drop :: "'k inbound_store \<Rightarrow> eid \<Rightarrow> 'k inbound_store" where
  "qi_Drop st e = st(e := (st e)\<lparr>qi_dropped := True\<rparr>)"

definition qi_IsDropped :: "'k inbound_store \<Rightarrow> eid \<Rightarrow> bool" where
  "qi_IsDropped st e = qi_dropped (st e)"

text \<open>Unlocking a mutex that is not locked is a fatal error of the runtime.\<close>

definition qo_Unlock :: "('p, 'k) outbound_store \<Rightarrow> eid \<Rightarrow> ('p, 'k) outbound_store option" where
  "qo_Unlock st e = (if qo_locked (st e) then Some (st(e := (st e)\<lparr>qo_locked := False\<rparr>)) else None)"

definition qi_Unlock :: "'k inbound_store \<Rightarrow> eid \<Rightarrow> 'k inbound_store option" where
  "qi_Unlock st e = (if qi_locked (st e) then Some (st(e := (st e)\<lparr>qi_locked := False\<rparr>)) else None)"

section \<open>The queues that drop their oldest element\<close>

text \<open>
  The five functions \<^verbatim>\<open>addTo...Queue\<close> are one loop: send, and while the channel is
  full receive its oldest element and release it. \<open>release\<close> is what each does with that
  element. \<open>None\<close>: a panic, or no return.
\<close>

partial_function (option) add_dropping_oldest ::
  "('h \<Rightarrow> 'a \<Rightarrow> 'h option) \<Rightarrow> 'a chan \<Rightarrow> 'a \<Rightarrow> 'h \<Rightarrow> ('a chan \<times> 'h) option" where
  "add_dropping_oldest release queue element h =
    (case chan_send queue element of
      Some queue' \<Rightarrow> Some (queue', h)
    | None \<Rightarrow>
        (case chan_recv queue of
          Some (old, queue') \<Rightarrow>
            (case release h old of
              None \<Rightarrow> None
            | Some h' \<Rightarrow> add_dropping_oldest release queue' element h')
        | None \<Rightarrow> add_dropping_oldest release queue element h))"

declare add_dropping_oldest.simps [code]

definition addToInboundQueue ::
  "eid chan \<Rightarrow> eid \<Rightarrow> 'k inbound_store \<Rightarrow> (eid chan \<times> 'k inbound_store) option" where
  "addToInboundQueue = add_dropping_oldest (\<lambda>st old. Some (qi_Drop st old))"

definition addToDecryptionQueue ::
  "eid chan \<Rightarrow> eid \<Rightarrow> 'k inbound_store \<Rightarrow> (eid chan \<times> 'k inbound_store) option" where
  "addToDecryptionQueue = add_dropping_oldest (\<lambda>st old. qi_Unlock (qi_Drop st old) old)"

definition addToOutboundQueue ::
  "eid chan \<Rightarrow> eid \<Rightarrow> ('p, 'k) outbound_store \<Rightarrow> (eid chan \<times> ('p, 'k) outbound_store) option" where
  "addToOutboundQueue = add_dropping_oldest (\<lambda>st old. Some (qo_Drop st old))"

definition addToEncryptionQueue ::
  "eid chan \<Rightarrow> eid \<Rightarrow> ('p, 'k) outbound_store \<Rightarrow> (eid chan \<times> ('p, 'k) outbound_store) option" where
  "addToEncryptionQueue = add_dropping_oldest (\<lambda>st old. qo_Unlock (qo_Drop st old) old)"

text \<open>The pool of free message buffers is the list of their names, the last one put first.\<close>

definition PutMessageBuffer :: "nat list \<Rightarrow> nat \<Rightarrow> nat list" where
  "PutMessageBuffer pool buffer = buffer # pool"

definition addToHandshakeQueue ::
  "QueueHandshakeElement chan \<Rightarrow> QueueHandshakeElement \<Rightarrow> nat list \<Rightarrow>
    (QueueHandshakeElement chan \<times> nat list) option" where
  "addToHandshakeQueue =
    add_dropping_oldest (\<lambda>pool elem. Some (PutMessageBuffer pool (qh_buffer elem)))"

text \<open>\<^verbatim>\<open>FlushNonceQueue\<close> receives as many elements as the queue held at the call.\<close>

fun flush_loop :: "nat \<Rightarrow> 'a chan \<Rightarrow> 'a chan" where
  "flush_loop 0 c = c"
| "flush_loop (Suc n) c = (case chan_recv c of None \<Rightarrow> c | Some (_, c') \<Rightarrow> flush_loop n c')"

definition FlushNonceQueue :: "'a chan \<Rightarrow> 'a chan" where
  "FlushNonceQueue nonce = flush_loop (chan_len nonce) nonce"

section \<open>One step of adding\<close>

lemma chan_ok_make [simp]: "chan_ok (make_chan n)"
  by (simp add: chan_ok_def make_chan_def)

lemma add_room:
  assumes "length (chan_buf q) < chan_cap q"
  shows "add_dropping_oldest rel q x h = Some (q\<lparr>chan_buf := chan_buf q @ [x]\<rparr>, h)"
  using assms by (subst add_dropping_oldest.simps) (simp add: chan_send_def)

lemma add_full:
  assumes "length (chan_buf q) = chan_cap q" "0 < chan_cap q" "rel h (hd (chan_buf q)) = Some h'"
  shows "add_dropping_oldest rel q x h = Some (q\<lparr>chan_buf := tl (chan_buf q) @ [x]\<rparr>, h')"
proof -
  obtain y ys where buf: "chan_buf q = y # ys" using assms(1,2) by (cases "chan_buf q") auto
  with assms have "length (chan_buf (q\<lparr>chan_buf := ys\<rparr>)) < chan_cap (q\<lparr>chan_buf := ys\<rparr>)" by simp
  from add_room [OF this, of rel x h'] assms buf show ?thesis
    by (subst add_dropping_oldest.simps) (simp add: chan_send_def chan_recv_def)
qed

text \<open>A channel without room for one element can never be added to.\<close>

lemma add_never_returns:
  assumes "chan_cap q = 0" "chan_buf q = []"
  shows "add_dropping_oldest rel q x h = None"
proof -
  have "chan_cap p \<noteq> 0 \<or> chan_buf p \<noteq> []" if "add_dropping_oldest r p y g = Some z"
    for r :: "'b \<Rightarrow> 'a \<Rightarrow> 'b option" and p y g z
    using that
  proof (rule add_dropping_oldest.raw_induct
      [where P = "\<lambda>r p y g z. chan_cap p \<noteq> 0 \<or> chan_buf p \<noteq> []", rotated])
    fix f and r :: "'b \<Rightarrow> 'a \<Rightarrow> 'b option" and p y g z
    assume ih: "\<And>r p y g z. f r p y g = Some z \<Longrightarrow> chan_cap p \<noteq> 0 \<or> chan_buf p \<noteq> []"
      and run: "(case chan_send p y of
          Some queue' \<Rightarrow> Some (queue', g)
        | None \<Rightarrow> (case chan_recv p of
            Some (old, queue') \<Rightarrow>
              (case r g old of None \<Rightarrow> None | Some h' \<Rightarrow> f r queue' y h')
          | None \<Rightarrow> f r p y g)) = Some z"
    show "chan_cap p \<noteq> 0 \<or> chan_buf p \<noteq> []"
      using run ih [of r p y g] by (cases z) (auto simp: chan_send_def chan_recv_def)
  qed
  with assms show ?thesis by (cases "add_dropping_oldest rel q x h") blast+
qed

lemma flush_loop_buf: "chan_buf (flush_loop n c) = drop n (chan_buf c) \<and>
    chan_cap (flush_loop n c) = chan_cap c"
proof (induction n arbitrary: c)
  case 0
  show ?case by simp
next
  case (Suc n)
  show ?case by (cases "chan_buf c") (simp_all add: chan_recv_def Suc.IH)
qed

lemma FlushNonceQueue_empties:
  "chan_buf (FlushNonceQueue q) = [] \<and> chan_cap (FlushNonceQueue q) = chan_cap q"
  by (simp add: FlushNonceQueue_def chan_len_def flush_loop_buf)

lemma signalSend_pending: "chan_cap c = 1 \<Longrightarrow> chan_ok c \<Longrightarrow>
    chan_buf (signalSend c) = [()] \<and> chan_cap (signalSend c) = 1"
  by (cases "chan_buf c") (auto simp: signalSend_def chan_send_def chan_ok_def)

lemma signalClear_none: "chan_ok c \<Longrightarrow> chan_cap c = 1 \<Longrightarrow>
    chan_buf (signalClear c) = [] \<and> chan_cap (signalClear c) = 1"
  by (cases "chan_buf c") (auto simp: signalClear_def chan_recv_def chan_ok_def)

section \<open>The contract of a queue that drops its oldest element\<close>

text \<open>
  \<open>released\<close> is what has been given up for good, \<open>token\<close> what is given up with an item.
  \<open>add_list\<close> adds one element after another.
\<close>

fun add_list :: "('s \<Rightarrow> 'a \<Rightarrow> 's option) \<Rightarrow> 's \<Rightarrow> 'a list \<Rightarrow> 's option" where
  "add_list add s [] = Some s"
| "add_list add s (x # xs) = (case add s x of None \<Rightarrow> None | Some s' \<Rightarrow> add_list add s' xs)"

locale drop_queue =
  fixes add :: "'s \<Rightarrow> 'a \<Rightarrow> 's option"
    and items :: "'s \<Rightarrow> 'a list"
    and cap :: "'s \<Rightarrow> nat"
    and released :: "'s \<Rightarrow> 'r set"
    and token :: "'a \<Rightarrow> 'r"
    and inv :: "'s \<Rightarrow> bool"
    and fits :: "'s \<Rightarrow> 'a \<Rightarrow> bool"
  assumes bounded: "inv s \<Longrightarrow> 0 < cap s \<and> length (items s) \<le> cap s"
    and add_ok: "inv s \<Longrightarrow> fits s x \<Longrightarrow> \<exists>s'. add s x = Some s' \<and> inv s' \<and> cap s' = cap s \<and>
      items s' = drop (Suc (length (items s)) - cap s) (items s @ [x]) \<and>
      released s' = released s \<union> token ` set (take (Suc (length (items s)) - cap s) (items s))"
    and add_fits: "inv s \<Longrightarrow> fits s x \<Longrightarrow> fits s y \<Longrightarrow> x \<noteq> y \<Longrightarrow> add s x = Some s' \<Longrightarrow> fits s' y"
begin

lemma add_list_ok:
  "inv s \<Longrightarrow> distinct xs \<Longrightarrow> \<forall>x \<in> set xs. fits s x \<Longrightarrow>
    \<exists>s'. add_list add s xs = Some s' \<and> inv s' \<and> cap s' = cap s \<and>
      items s' = drop (length (items s) + length xs - cap s) (items s @ xs) \<and>
      released s' = released s \<union> token ` set (take (length (items s) + length xs - cap s) (items s @ xs))"
proof (induction xs arbitrary: s)
  case Nil
  with bounded [of s] show ?case by simp
next
  case (Cons x xs)
  define d where "d = Suc (length (items s)) - cap s"
  define ys where "ys = items s @ x # xs"
  obtain s1 where s1: "add s x = Some s1" "inv s1" "cap s1 = cap s"
    "items s1 = drop d (items s @ [x])" "released s1 = released s \<union> token ` set (take d (items s))"
    using add_ok [of s x] Cons.prems by (auto simp: d_def)
  have b: "0 < cap s" "length (items s) \<le> cap s" using bounded [of s] Cons.prems(1) by simp_all
  then have d: "d \<le> length (items s)" by (simp add: d_def)
  have "\<forall>y \<in> set xs. fits s1 y"
    using add_fits [of s x _ s1] Cons.prems s1(1) by auto
  with Cons.IH [OF s1(2)] Cons.prems(2) obtain s' where s': "add_list add s1 xs = Some s'" "inv s'"
    "cap s' = cap s1" "items s' = drop (length (items s1) + length xs - cap s1) (items s1 @ xs)"
    "released s' = released s1 \<union> token ` set (take (length (items s1) + length xs - cap s1) (items s1 @ xs))"
    by auto
  define e where "e = length (items s1) + length xs - cap s1"
  have tail: "items s1 @ xs = drop d ys"
    using d by (simp add: s1(4) ys_def)
  have de: "d + e = length (items s) + length (x # xs) - cap s"
    using b d by (simp add: e_def s1(3,4)) (simp add: d_def)
  have "items s' = drop (d + e) ys"
    using s'(4) [folded e_def] by (simp add: tail add.commute)
  moreover have "take (d + e) ys = take d ys @ take e (drop d ys)"
    by (rule take_add)
  then have "released s' = released s \<union> token ` set (take (d + e) ys)"
    using s'(5) [folded e_def] d by (simp add: tail s1(5) ys_def image_Un Un_assoc)
  ultimately show ?case
    using s1 s' de by (simp add: ys_def)
qed

text \<open>The newest element is always in the queue, and what is in the queue keeps its order.\<close>

lemma newest_queued:
  assumes "inv s" "fits s x" "add s x = Some s'"
  shows "x \<in> set (items s')"
  using add_ok [OF assms(1,2)] assms(3) bounded [OF assms(1)] by auto

lemma add_list_bounded:
  assumes "inv s" "distinct xs" "\<forall>x \<in> set xs. fits s x" "add_list add s xs = Some s'"
  shows "length (items s') \<le> cap s"
proof -
  from add_list_ok [OF assms(1-3)] assms(4) have "inv s'" "cap s' = cap s" by auto
  with bounded [of s'] show ?thesis by simp
qed

end
section \<open>The queues of the source keep the contract\<close>

definition seq_inv :: "'a chan \<times> 'h \<Rightarrow> bool" where
  "seq_inv s \<longleftrightarrow> 0 < chan_cap (fst s) \<and> chan_ok (fst s)"

definition items_of :: "'a chan \<times> 'h \<Rightarrow> 'a list" where
  "items_of s = chan_buf (fst s)"

definition cap_of :: "'a chan \<times> 'h \<Rightarrow> nat" where
  "cap_of s = chan_cap (fst s)"

lemma seq_inv_bounded: "seq_inv s \<Longrightarrow> 0 < cap_of s \<and> length (items_of s) \<le> cap_of s"
  by (simp add: seq_inv_def cap_of_def items_of_def chan_ok_def)

text \<open>One add under a release that succeeds on the oldest element.\<close>

lemma add_step:
  assumes "seq_inv (q, h)" "length (chan_buf q) = chan_cap q \<Longrightarrow> rel h (hd (chan_buf q)) = Some h1"
    "length (chan_buf q) < chan_cap q \<Longrightarrow> h1 = h"
  shows "\<exists>q'. add_dropping_oldest rel q x h = Some (q', h1) \<and> chan_cap q' = chan_cap q \<and>
    seq_inv (q', h1) \<and>
    chan_buf q' = drop (Suc (length (chan_buf q)) - chan_cap q) (chan_buf q @ [x])"
proof (cases "length (chan_buf q) < chan_cap q")
  case True
  with assms show ?thesis by (simp add: add_room seq_inv_def chan_ok_def)
next
  case False
  with assms(1) have full: "length (chan_buf q) = chan_cap q" "0 < chan_cap q"
    by (auto simp: seq_inv_def chan_ok_def)
  moreover from full obtain y ys where "chan_buf q = y # ys" by (cases "chan_buf q") auto
  ultimately show ?thesis
    using add_full [of q rel h h1 x] assms(2) by (simp add: seq_inv_def chan_ok_def)
qed

lemma evicted:
  assumes "seq_inv (q, h)"
  shows "take (Suc (length (chan_buf q)) - chan_cap q) (chan_buf q) =
    (if length (chan_buf q) = chan_cap q then [hd (chan_buf q)] else [])"
  using assms by (cases "chan_buf q") (auto simp: seq_inv_def chan_ok_def)

lemma inbound_contract:
  assumes "seq_inv (q, st)"
  shows "\<exists>q' st'. addToInboundQueue q x st = Some (q', st') \<and> chan_cap q' = chan_cap q \<and>
    seq_inv (q', st') \<and>
    chan_buf q' = drop (Suc (length (chan_buf q)) - chan_cap q) (chan_buf q @ [x]) \<and>
    {e. qi_dropped (st' e)} = {e. qi_dropped (st e)} \<union>
      set (take (Suc (length (chan_buf q)) - chan_cap q) (chan_buf q))"
proof -
  let ?h = "if length (chan_buf q) = chan_cap q then qi_Drop st (hd (chan_buf q)) else st"
  have "\<exists>q'. addToInboundQueue q x st = Some (q', ?h) \<and> chan_cap q' = chan_cap q \<and>
      seq_inv (q', ?h) \<and> chan_buf q' = drop (Suc (length (chan_buf q)) - chan_cap q) (chan_buf q @ [x])"
    unfolding addToInboundQueue_def by (rule add_step [OF assms]) simp_all
  then show ?thesis
    unfolding evicted [OF assms] by (auto simp: qi_Drop_def)
qed

lemma outbound_contract:
  assumes "seq_inv (q, st)"
  shows "\<exists>q' st'. addToOutboundQueue q x st = Some (q', st') \<and> chan_cap q' = chan_cap q \<and>
    seq_inv (q', st') \<and>
    chan_buf q' = drop (Suc (length (chan_buf q)) - chan_cap q) (chan_buf q @ [x]) \<and>
    {e. qo_dropped (st' e)} = {e. qo_dropped (st e)} \<union>
      set (take (Suc (length (chan_buf q)) - chan_cap q) (chan_buf q))"
proof -
  let ?h = "if length (chan_buf q) = chan_cap q then qo_Drop st (hd (chan_buf q)) else st"
  have "\<exists>q'. addToOutboundQueue q x st = Some (q', ?h) \<and> chan_cap q' = chan_cap q \<and>
      seq_inv (q', ?h) \<and> chan_buf q' = drop (Suc (length (chan_buf q)) - chan_cap q) (chan_buf q @ [x])"
    unfolding addToOutboundQueue_def by (rule add_step [OF assms]) simp_all
  then show ?thesis
    unfolding evicted [OF assms] by (auto simp: qo_Drop_def)
qed

interpretation inq: drop_queue "\<lambda>(q, st) e. addToInboundQueue q e st" items_of cap_of
    "\<lambda>s. {e. qi_dropped (snd s e)}" id seq_inv "\<lambda>_ _. True"
proof unfold_locales
  fix s :: "eid chan \<times> 'k inbound_store" and x
  assume "seq_inv s"
  then show "\<exists>s'. (case s of (q, st) \<Rightarrow> \<lambda>e. addToInboundQueue q e st) x = Some s' \<and> seq_inv s' \<and>
      cap_of s' = cap_of s \<and>
      items_of s' = drop (Suc (length (items_of s)) - cap_of s) (items_of s @ [x]) \<and>
      {e. qi_dropped (snd s' e)} = {e. qi_dropped (snd s e)} \<union>
        id ` set (take (Suc (length (items_of s)) - cap_of s) (items_of s))"
    using inbound_contract [of "fst s" "snd s" x]
    by (auto simp: items_of_def cap_of_def split_beta)
qed (auto dest: seq_inv_bounded)

interpretation outq: drop_queue "\<lambda>(q, st) e. addToOutboundQueue q e st" items_of cap_of
    "\<lambda>s. {e. qo_dropped (snd s e)}" id seq_inv "\<lambda>_ _. True"
proof unfold_locales
  fix s :: "eid chan \<times> ('p, 'k) outbound_store" and x
  assume "seq_inv s"
  then show "\<exists>s'. (case s of (q, st) \<Rightarrow> \<lambda>e. addToOutboundQueue q e st) x = Some s' \<and> seq_inv s' \<and>
      cap_of s' = cap_of s \<and>
      items_of s' = drop (Suc (length (items_of s)) - cap_of s) (items_of s @ [x]) \<and>
      {e. qo_dropped (snd s' e)} = {e. qo_dropped (snd s e)} \<union>
        id ` set (take (Suc (length (items_of s)) - cap_of s) (items_of s))"
    using outbound_contract [of "fst s" "snd s" x]
    by (auto simp: items_of_def cap_of_def split_beta)
qed (auto dest: seq_inv_bounded)
text \<open>
  In the parallel queues every queued element is locked by the routine that queued it, so the
  unlock of an evicted one never fails. An element to be added is locked and not yet queued.
\<close>

definition dec_inv :: "eid chan \<times> 'k inbound_store \<Rightarrow> bool" where
  "dec_inv s \<longleftrightarrow> seq_inv s \<and> distinct (items_of s) \<and> (\<forall>e \<in> set (items_of s). qi_locked (snd s e))"

definition enc_inv :: "eid chan \<times> ('p, 'k) outbound_store \<Rightarrow> bool" where
  "enc_inv s \<longleftrightarrow> seq_inv s \<and> distinct (items_of s) \<and> (\<forall>e \<in> set (items_of s). qo_locked (snd s e))"

definition dec_fits :: "eid chan \<times> 'k inbound_store \<Rightarrow> eid \<Rightarrow> bool" where
  "dec_fits s e \<longleftrightarrow> qi_locked (snd s e) \<and> e \<notin> set (items_of s)"

definition enc_fits :: "eid chan \<times> ('p, 'k) outbound_store \<Rightarrow> eid \<Rightarrow> bool" where
  "enc_fits s e \<longleftrightarrow> qo_locked (snd s e) \<and> e \<notin> set (items_of s)"

lemma seq_full_Cons:
  assumes "seq_inv (q, st)" "length (chan_buf q) = chan_cap q"
  obtains y ys where "chan_buf q = y # ys"
  using assms by (cases "chan_buf q") (auto simp: seq_inv_def)

lemma decryption_contract:
  assumes "dec_inv (q, st)" "dec_fits (q, st) x"
  shows "\<exists>q' st'. addToDecryptionQueue q x st = Some (q', st') \<and> chan_cap q' = chan_cap q \<and>
    dec_inv (q', st') \<and>
    chan_buf q' = drop (Suc (length (chan_buf q)) - chan_cap q) (chan_buf q @ [x]) \<and>
    (\<forall>e. st' e = (if e \<in> set (take (Suc (length (chan_buf q)) - chan_cap q) (chan_buf q))
      then (st e)\<lparr>qi_dropped := True, qi_locked := False\<rparr> else st e)) \<and>
    {e. qi_dropped (st' e)} = {e. qi_dropped (st e)} \<union>
      set (take (Suc (length (chan_buf q)) - chan_cap q) (chan_buf q))"
proof -
  let ?y = "hd (chan_buf q)"
  have seq: "seq_inv (q, st)" and dist: "distinct (chan_buf q)"
    and locked: "\<forall>e \<in> set (chan_buf q). qi_locked (st e)"
    and x: "qi_locked (st x)" "x \<notin> set (chan_buf q)"
    using assms by (simp_all add: dec_inv_def dec_fits_def items_of_def)
  let ?h = "if length (chan_buf q) = chan_cap q
    then st(?y := (st ?y)\<lparr>qi_dropped := True, qi_locked := False\<rparr>) else st"
  have "\<exists>q'. addToDecryptionQueue q x st = Some (q', ?h) \<and> chan_cap q' = chan_cap q \<and>
      seq_inv (q', ?h) \<and> chan_buf q' = drop (Suc (length (chan_buf q)) - chan_cap q) (chan_buf q @ [x])"
    unfolding addToDecryptionQueue_def
  proof (rule add_step [OF seq])
    assume full: "length (chan_buf q) = chan_cap q"
    then have "?y \<in> set (chan_buf q)" using seq_full_Cons [OF seq] by (metis list.set_sel(1) list.distinct(1))
    then show "qi_Unlock (qi_Drop st ?y) ?y = Some ?h"
      using full locked by (simp add: qi_Unlock_def qi_Drop_def)
  qed simp
  then obtain q' where q': "addToDecryptionQueue q x st = Some (q', ?h)" "chan_cap q' = chan_cap q"
    "seq_inv (q', ?h)" "chan_buf q' = drop (Suc (length (chan_buf q)) - chan_cap q) (chan_buf q @ [x])"
    by blast
  have "dec_inv (q', ?h)"
  proof (cases "length (chan_buf q) = chan_cap q")
    case True
    then obtain y ys where "chan_buf q = y # ys" using seq_full_Cons [OF seq] by blast
    with True q'(3,4) dist locked x show ?thesis
      by (auto simp: dec_inv_def items_of_def simp flip: True)
  next
    case False
    with seq have "Suc (length (chan_buf q)) - chan_cap q = 0" by (simp add: seq_inv_def chan_ok_def)
    with False q'(3,4) dist locked x show ?thesis by (auto simp: dec_inv_def items_of_def)
  qed
  with q' show ?thesis unfolding evicted [OF seq] by auto
qed

lemma encryption_contract:
  assumes "enc_inv (q, st)" "enc_fits (q, st) x"
  shows "\<exists>q' st'. addToEncryptionQueue q x st = Some (q', st') \<and> chan_cap q' = chan_cap q \<and>
    enc_inv (q', st') \<and>
    chan_buf q' = drop (Suc (length (chan_buf q)) - chan_cap q) (chan_buf q @ [x]) \<and>
    (\<forall>e. st' e = (if e \<in> set (take (Suc (length (chan_buf q)) - chan_cap q) (chan_buf q))
      then (st e)\<lparr>qo_dropped := True, qo_locked := False\<rparr> else st e)) \<and>
    {e. qo_dropped (st' e)} = {e. qo_dropped (st e)} \<union>
      set (take (Suc (length (chan_buf q)) - chan_cap q) (chan_buf q))"
proof -
  let ?y = "hd (chan_buf q)"
  have seq: "seq_inv (q, st)" and dist: "distinct (chan_buf q)"
    and locked: "\<forall>e \<in> set (chan_buf q). qo_locked (st e)"
    and x: "qo_locked (st x)" "x \<notin> set (chan_buf q)"
    using assms by (simp_all add: enc_inv_def enc_fits_def items_of_def)
  let ?h = "if length (chan_buf q) = chan_cap q
    then st(?y := (st ?y)\<lparr>qo_dropped := True, qo_locked := False\<rparr>) else st"
  have "\<exists>q'. addToEncryptionQueue q x st = Some (q', ?h) \<and> chan_cap q' = chan_cap q \<and>
      seq_inv (q', ?h) \<and> chan_buf q' = drop (Suc (length (chan_buf q)) - chan_cap q) (chan_buf q @ [x])"
    unfolding addToEncryptionQueue_def
  proof (rule add_step [OF seq])
    assume full: "length (chan_buf q) = chan_cap q"
    then have "?y \<in> set (chan_buf q)" using seq_full_Cons [OF seq] by (metis list.set_sel(1) list.distinct(1))
    then show "qo_Unlock (qo_Drop st ?y) ?y = Some ?h"
      using full locked by (simp add: qo_Unlock_def qo_Drop_def)
  qed simp
  then obtain q' where q': "addToEncryptionQueue q x st = Some (q', ?h)" "chan_cap q' = chan_cap q"
    "seq_inv (q', ?h)" "chan_buf q' = drop (Suc (length (chan_buf q)) - chan_cap q) (chan_buf q @ [x])"
    by blast
  have "enc_inv (q', ?h)"
  proof (cases "length (chan_buf q) = chan_cap q")
    case True
    then obtain y ys where "chan_buf q = y # ys" using seq_full_Cons [OF seq] by blast
    with True q'(3,4) dist locked x show ?thesis
      by (auto simp: enc_inv_def items_of_def simp flip: True)
  next
    case False
    with seq have "Suc (length (chan_buf q)) - chan_cap q = 0" by (simp add: seq_inv_def chan_ok_def)
    with False q'(3,4) dist locked x show ?thesis by (auto simp: enc_inv_def items_of_def)
  qed
  with q' show ?thesis unfolding evicted [OF seq] by auto
qed
interpretation decq: drop_queue "\<lambda>(q, st) e. addToDecryptionQueue q e st" items_of cap_of
    "\<lambda>s. {e. qi_dropped (snd s e)}" id dec_inv dec_fits
proof unfold_locales
  fix s :: "eid chan \<times> 'k inbound_store" and x
  assume "dec_inv s" "dec_fits s x"
  then show "\<exists>s'. (case s of (q, st) \<Rightarrow> \<lambda>e. addToDecryptionQueue q e st) x = Some s' \<and> dec_inv s' \<and>
      cap_of s' = cap_of s \<and>
      items_of s' = drop (Suc (length (items_of s)) - cap_of s) (items_of s @ [x]) \<and>
      {e. qi_dropped (snd s' e)} = {e. qi_dropped (snd s e)} \<union>
        id ` set (take (Suc (length (items_of s)) - cap_of s) (items_of s))"
    using decryption_contract [of "fst s" "snd s" x]
    by (auto simp: items_of_def cap_of_def split_beta split: if_splits)
next
  fix s s' :: "eid chan \<times> 'k inbound_store" and x y
  assume a: "dec_inv s" "dec_fits s x" "dec_fits s y" "x \<noteq> y"
    and add: "(case s of (q, st) \<Rightarrow> \<lambda>e. addToDecryptionQueue q e st) x = Some s'"
  show "dec_fits s' y"
    using decryption_contract [of "fst s" "snd s" x] a add
    by (auto simp: dec_fits_def items_of_def split_beta split: if_splits
        dest!: in_set_takeD in_set_dropD)
qed (auto simp: dec_inv_def dest: seq_inv_bounded)

interpretation encq: drop_queue "\<lambda>(q, st) e. addToEncryptionQueue q e st" items_of cap_of
    "\<lambda>s. {e. qo_dropped (snd s e)}" id enc_inv enc_fits
proof unfold_locales
  fix s :: "eid chan \<times> ('p, 'k) outbound_store" and x
  assume "enc_inv s" "enc_fits s x"
  then show "\<exists>s'. (case s of (q, st) \<Rightarrow> \<lambda>e. addToEncryptionQueue q e st) x = Some s' \<and> enc_inv s' \<and>
      cap_of s' = cap_of s \<and>
      items_of s' = drop (Suc (length (items_of s)) - cap_of s) (items_of s @ [x]) \<and>
      {e. qo_dropped (snd s' e)} = {e. qo_dropped (snd s e)} \<union>
        id ` set (take (Suc (length (items_of s)) - cap_of s) (items_of s))"
    using encryption_contract [of "fst s" "snd s" x]
    by (auto simp: items_of_def cap_of_def split_beta split: if_splits)
next
  fix s s' :: "eid chan \<times> ('p, 'k) outbound_store" and x y
  assume a: "enc_inv s" "enc_fits s x" "enc_fits s y" "x \<noteq> y"
    and add: "(case s of (q, st) \<Rightarrow> \<lambda>e. addToEncryptionQueue q e st) x = Some s'"
  show "enc_fits s' y"
    using encryption_contract [of "fst s" "snd s" x] a add
    by (auto simp: enc_fits_def items_of_def split_beta split: if_splits
        dest!: in_set_takeD in_set_dropD)
qed (auto simp: enc_inv_def dest: seq_inv_bounded)

lemma handshake_contract:
  assumes "seq_inv (q, pool)"
  shows "\<exists>q' pool'. addToHandshakeQueue q x pool = Some (q', pool') \<and> chan_cap q' = chan_cap q \<and>
    seq_inv (q', pool') \<and>
    chan_buf q' = drop (Suc (length (chan_buf q)) - chan_cap q) (chan_buf q @ [x]) \<and>
    set pool' = set pool \<union>
      qh_buffer ` set (take (Suc (length (chan_buf q)) - chan_cap q) (chan_buf q))"
proof -
  let ?h = "if length (chan_buf q) = chan_cap q
    then PutMessageBuffer pool (qh_buffer (hd (chan_buf q))) else pool"
  have "\<exists>q'. addToHandshakeQueue q x pool = Some (q', ?h) \<and> chan_cap q' = chan_cap q \<and>
      seq_inv (q', ?h) \<and> chan_buf q' = drop (Suc (length (chan_buf q)) - chan_cap q) (chan_buf q @ [x])"
    unfolding addToHandshakeQueue_def by (rule add_step [OF assms]) simp_all
  then show ?thesis
    unfolding evicted [OF assms] by (auto simp: PutMessageBuffer_def)
qed

interpretation hsq: drop_queue "\<lambda>(q, pool) e. addToHandshakeQueue q e pool" items_of cap_of
    "\<lambda>s. set (snd s)" qh_buffer seq_inv "\<lambda>_ _. True"
proof unfold_locales
  fix s :: "QueueHandshakeElement chan \<times> nat list" and x
  assume "seq_inv s"
  then show "\<exists>s'. (case s of (q, pool) \<Rightarrow> \<lambda>e. addToHandshakeQueue q e pool) x = Some s' \<and> seq_inv s' \<and>
      cap_of s' = cap_of s \<and>
      items_of s' = drop (Suc (length (items_of s)) - cap_of s) (items_of s @ [x]) \<and>
      set (snd s') = set (snd s) \<union>
        qh_buffer ` set (take (Suc (length (items_of s)) - cap_of s) (items_of s))"
    using handshake_contract [of "fst s" "snd s" x]
    by (auto simp: items_of_def cap_of_def split_beta)
qed (auto dest: seq_inv_bounded)

section \<open>Properties\<close>

text \<open>
  C19: queueing any number of locked, distinct work elements for encryption always returns and
  never unlocks an unlocked mutex; the queue then holds the newest elements in the order they
  were added, and exactly the ones pushed out at the front are marked dropped.
\<close>

theorem encryption_queue_keeps_newest:
  fixes st :: "('p, 'k) outbound_store"
  assumes "enc_inv (q, st)" "distinct es" "\<forall>e \<in> set es. enc_fits (q, st) e"
  shows "\<exists>q' st'. add_list (\<lambda>(q, st) e. addToEncryptionQueue q e st) (q, st) es = Some (q', st') \<and>
    chan_buf q' = drop (length (chan_buf q) + length es - chan_cap q) (chan_buf q @ es) \<and>
    {e. qo_dropped (st' e)} = {e. qo_dropped (st e)} \<union>
      set (take (length (chan_buf q) + length es - chan_cap q) (chan_buf q @ es)) \<and>
    (\<forall>e \<in> set (chan_buf q'). qo_locked (st' e))"
  using encq.add_list_ok [OF assms] by (auto simp: items_of_def cap_of_def enc_inv_def)

definition locked_store :: "(nat, nat) outbound_store" where
  "locked_store = (\<lambda>_. \<lparr>qo_dropped = False, qo_locked = True, qo_buffer = 0, qo_offset = 0, qo_packet = [],
    qo_nonce = 0, qo_keyPair = None, qo_peer = None\<rparr>)"

theorem encryption_queue_keeps_newest_witness:
  "\<exists>q' st'. add_list (\<lambda>(q, st) e. addToEncryptionQueue q e st)
      (\<lparr>chan_cap = 2, chan_buf = [1, 2]\<rparr>, locked_store) [3, 4, 5] = Some (q', st') \<and>
    chan_buf q' = drop 3 [1, 2, 3, 4, 5] \<and>
    {e. qo_dropped (st' e)} = {} \<union> set (take 3 [1, 2, 3, 4, 5]) \<and>
    (\<forall>e \<in> set (chan_buf q'). qo_locked (st' e))"
  using encryption_queue_keeps_newest [of "\<lparr>chan_cap = 2, chan_buf = [1, 2]\<rparr>" locked_store "[3, 4, 5]"]
  by (simp add: enc_inv_def enc_fits_def seq_inv_def chan_ok_def items_of_def locked_store_def)

text \<open>
  The handshake queue never grows beyond its capacity, keeps the newest packets in order,
  and every packet it throws away gives its message buffer back to the pool.
\<close>

theorem handshake_queue_returns_buffers:
  assumes "seq_inv (q, pool)" "distinct es"
  shows "\<exists>q' pool'. add_list (\<lambda>(q, pool) e. addToHandshakeQueue q e pool) (q, pool) es = Some (q', pool') \<and>
    length (chan_buf q') \<le> chan_cap q \<and>
    chan_buf q' = drop (length (chan_buf q) + length es - chan_cap q) (chan_buf q @ es) \<and>
    set pool' = set pool \<union>
      qh_buffer ` set (take (length (chan_buf q) + length es - chan_cap q) (chan_buf q @ es))"
  using hsq.add_list_ok [OF assms] by (auto simp: items_of_def cap_of_def)

definition handshake_packet :: "nat \<Rightarrow> QueueHandshakeElement" where
  "handshake_packet n = \<lparr>qh_msgType = MessageResponseType, qh_packet = [], qh_buffer = n,
    qh_source = \<lparr>ua_IP = [192, 0, 2, 1], ua_Port = 51820\<rparr>\<rparr>"

theorem handshake_queue_returns_buffers_witness:
  "\<exists>q' pool'. add_list (\<lambda>(q, pool) e. addToHandshakeQueue q e pool)
      (\<lparr>chan_cap = 1, chan_buf = [handshake_packet 7]\<rparr>, [0]) [handshake_packet 8] = Some (q', pool') \<and>
    length (chan_buf q') \<le> 1 \<and> chan_buf q' = [handshake_packet 8] \<and> set pool' = {0, 7}"
  using handshake_queue_returns_buffers [of "\<lparr>chan_cap = 1, chan_buf = [handshake_packet 7]\<rparr>" "[0]"
      "[handshake_packet 8]"]
  by (simp add: seq_inv_def chan_ok_def handshake_packet_def insert_commute)
end
