(* ===== verification/Cookie.thy ===== *)
theory Cookie
  imports Keys XChaCha20 Wire Channels
begin

text \<open>
  The denial-of-service protection of \<^verbatim>\<open>controller/cookie.go\<close>: the two message
  authentication codes at the end of every handshake message, and the cookie a loaded
  responder makes an initiator echo. A slice out of range is None.
\<close>

section \<open>State\<close>

record CookieChecker =
  cc_mac1_key :: bytes
  cc_secret :: bytes
  cc_secretSet :: time
  cc_encryptionKey :: bytes

record CookieGenerator =
  cg_mac1_key :: bytes
  cg_cookie :: bytes
  cg_cookieSet :: time
  cg_hasLastMAC1 :: bool
  cg_lastMAC1 :: bytes
  cg_encryptionKey :: bytes

definition new_CookieChecker :: CookieChecker where
  "new_CookieChecker = \<lparr>cc_mac1_key = replicate 32 0, cc_secret = replicate 32 0,
    cc_secretSet = zeroTime, cc_encryptionKey = replicate 32 0\<rparr>"

definition new_CookieGenerator :: CookieGenerator where
  "new_CookieGenerator = \<lparr>cg_mac1_key = replicate 32 0, cg_cookie = replicate 16 0,
    cg_cookieSet = zeroTime, cg_hasLastMAC1 = False, cg_lastMAC1 = replicate 16 0,
    cg_encryptionKey = replicate 32 0\<rparr>"

definition ascii :: "string \<Rightarrow> bytes" where
  "ascii s = map (\<lambda>c. word_of_nat (of_char c)) s"

definition WGLabelMAC1 :: bytes where "WGLabelMAC1 = ascii ''mac1----''"
definition WGLabelCookie :: bytes where "WGLabelCookie = ascii ''cookie--''"

section \<open>Operations\<close>

definition cc_Init :: "crypto \<Rightarrow> CookieChecker \<Rightarrow> bytes \<Rightarrow> CookieChecker" where
  "cc_Init C st pk = st\<lparr>
    cc_mac1_key := blake2s C (WGLabelMAC1 @ pk),
    cc_encryptionKey := blake2s C (WGLabelCookie @ pk),
    cc_secretSet := zeroTime\<rparr>"

definition cg_Init :: "crypto \<Rightarrow> CookieGenerator \<Rightarrow> bytes \<Rightarrow> CookieGenerator" where
  "cg_Init C st pk = st\<lparr>
    cg_mac1_key := blake2s C (WGLabelMAC1 @ pk),
    cg_encryptionKey := blake2s C (WGLabelCookie @ pk),
    cg_cookieSet := zeroTime\<rparr>"

definition CheckMAC1 :: "crypto \<Rightarrow> CookieChecker \<Rightarrow> bytes \<Rightarrow> bool option" where
  "CheckMAC1 C st msg =
    (if length msg < 2 * Size128 then None
     else let smac2 = length msg - Size128; smac1 = smac2 - Size128;
              mac1 = blake2s_mac C (cc_mac1_key st) (take smac1 msg)
          in Some (mac1 = take Size128 (drop smac1 msg)))"

text \<open>The cookie binds the address and the port, as the bytes of an \<^verbatim>\<open>int\<close>.\<close>

definition derive_cookie :: "crypto \<Rightarrow> bytes \<Rightarrow> UDPAddr \<Rightarrow> bytes" where
  "derive_cookie C secret src = blake2s_mac C secret (ua_IP src @ le64 (ua_Port src))"

definition CheckMAC2 :: "crypto \<Rightarrow> CookieChecker \<Rightarrow> bytes \<Rightarrow> UDPAddr \<Rightarrow> time \<Rightarrow> bool option" where
  "CheckMAC2 C st msg src now =
    (if timeSub now (cc_secretSet st) > CookieRefreshTime then Some False
     else let cookie = derive_cookie C (cc_secret st) src
          in if length msg < Size128 then None
             else let smac2 = length msg - Size128;
                      mac2 = blake2s_mac C cookie (take smac2 msg)
                  in Some (mac2 = drop smac2 msg))"

text \<open>
  \<open>rnd\<close> and \<open>rnd2\<close> are the two reads of random bytes, each with whether it failed,
  \<open>now2\<close> the second clock reading. The reply is None when an error is returned.
\<close>

definition refresh_secret ::
  "CookieChecker \<Rightarrow> time \<Rightarrow> bytes \<times> bool \<Rightarrow> time \<Rightarrow> CookieChecker \<times> bool" where
  "refresh_secret st now rnd now2 =
    (if timeSub now (cc_secretSet st) > CookieRefreshTime
     then let st = st\<lparr>cc_secret := fst rnd\<rparr>
          in if snd rnd then (st, False) else (st\<lparr>cc_secretSet := now2\<rparr>, True)
     else (st, True))"

definition CreateReply ::
  "crypto \<Rightarrow> CookieChecker \<Rightarrow> bytes \<Rightarrow> u32 \<Rightarrow> UDPAddr \<Rightarrow> time \<Rightarrow> bytes \<times> bool \<Rightarrow> time \<Rightarrow> bytes \<times> bool \<Rightarrow>
    (CookieChecker \<times> MessageCookieReply option) option" where
  "CreateReply C st msg recv src now rnd now2 rnd2 =
    (case refresh_secret st now rnd now2 of
      (st, False) \<Rightarrow> Some (st, None)
    | (st, True) \<Rightarrow>
        let cookie = derive_cookie C (cc_secret st) src
        in if snd rnd2 then Some (st, None)
           else if length msg < 2 * Size128 then None
           else let smac2 = length msg - Size128; smac1 = smac2 - Size128;
                    nonce = fst rnd2
                in Some (st, Some \<lparr>mc_Type = MessageCookieReplyType, mc_Receiver = recv,
                     mc_Nonce = nonce,
                     mc_Cookie = XChaCha20Poly1305Encrypt C nonce cookie
                       (take Size128 (drop smac1 msg)) (cc_encryptionKey st)\<rparr>))"

definition ConsumeReply ::
  "crypto \<Rightarrow> CookieGenerator \<Rightarrow> MessageCookieReply \<Rightarrow> time \<Rightarrow> CookieGenerator \<times> bool" where
  "ConsumeReply C st msg now =
    (if \<not> cg_hasLastMAC1 st then (st, False)
     else case XChaCha20Poly1305Decrypt C (mc_Nonce msg) (mc_Cookie msg) (cg_lastMAC1 st)
                 (cg_encryptionKey st) of
            None \<Rightarrow> (st, False)
          | Some cookie \<Rightarrow> (st\<lparr>cg_cookieSet := now, cg_cookie := cookie\<rparr>, True))"

definition AddMacs ::
  "crypto \<Rightarrow> CookieGenerator \<Rightarrow> bytes \<Rightarrow> time \<Rightarrow> (CookieGenerator \<times> bytes) option" where
  "AddMacs C st msg now =
    (if length msg < 2 * Size128 then None
     else let smac2 = length msg - Size128; smac1 = smac2 - Size128;
              mac1 = blake2s_mac C (cg_mac1_key st) (take smac1 msg);
              msg = take smac1 msg @ mac1 @ drop smac2 msg;
              st = st\<lparr>cg_lastMAC1 := mac1, cg_hasLastMAC1 := True\<rparr>
          in if timeSub now (cg_cookieSet st) > CookieRefreshTime then Some (st, msg)
             else let mac2 = blake2s_mac C (cg_cookie st) (take smac2 msg)
                  in Some (st, take smac2 msg @ mac2))"

section \<open>Messages split at their codes\<close>

lemma split_macs:
  assumes "2 * Size128 \<le> length msg"
  obtains body m1 m2 where "msg = body @ m1 @ m2" "length m1 = 16" "length m2 = 16"
proof
  let ?k = "length msg - 32"
  show "msg = take ?k msg @ take 16 (drop ?k msg) @ drop 16 (drop ?k msg)"
    by (simp only: append_take_drop_id)
  show "length (take 16 (drop ?k msg)) = 16" "length (drop 16 (drop ?k msg)) = 16"
    using assms by (simp_all add: Size128_def)
qed

text \<open>The second code that \<^verbatim>\<open>AddMacs\<close> leaves at the end of the message.\<close>

definition second_mac :: "crypto \<Rightarrow> CookieGenerator \<Rightarrow> bytes \<Rightarrow> bytes \<Rightarrow> time \<Rightarrow> bytes" where
  "second_mac C st prefix m2 now =
    (if timeSub now (cg_cookieSet st) > CookieRefreshTime then m2
     else blake2s_mac C (cg_cookie st) prefix)"

lemma AddMacs_split:
  fixes body st
  assumes "sizes_ok C" "length m1 = 16" "length m2 = 16"
  defines "mac1 \<equiv> blake2s_mac C (cg_mac1_key st) body"
  shows "AddMacs C st (body @ m1 @ m2) now =
    Some (st\<lparr>cg_lastMAC1 := mac1, cg_hasLastMAC1 := True\<rparr>,
      body @ mac1 @ second_mac C st (body @ mac1) m2 now)"
proof -
  have [simp]: "length mac1 = 16" using assms(1) by (simp add: mac1_def crypto_simps)
  show ?thesis
    using assms(2,3) by (simp add: AddMacs_def second_mac_def Let_def Size128_def mac1_def [symmetric])
qed

lemma length_second_mac [crypto_simps]:
  "sizes_ok C \<Longrightarrow> length m2 = 16 \<Longrightarrow> length (second_mac C st p m2 now) = 16"
  by (simp add: second_mac_def crypto_simps)

lemma CheckMAC1_split:
  "length m1 = 16 \<Longrightarrow> length m2 = 16 \<Longrightarrow>
    CheckMAC1 C st (body @ m1 @ m2) = Some (blake2s_mac C (cc_mac1_key st) body = m1)"
  by (simp add: CheckMAC1_def Size128_def Let_def)

lemma CheckMAC2_split:
  "length m2 = 16 \<Longrightarrow> \<not> timeSub now (cc_secretSet st) > CookieRefreshTime \<Longrightarrow>
    CheckMAC2 C st (prefix @ m2) src now =
      Some (blake2s_mac C (derive_cookie C (cc_secret st) src) prefix = m2)"
  by (simp add: CheckMAC2_def Size128_def Let_def)

lemma CreateReply_split:
  assumes "length m1 = 16" "length m2 = 16" "refresh_secret st now rnd now2 = (st', True)" "\<not> snd rnd2"
  shows "CreateReply C st (body @ m1 @ m2) recv src now rnd now2 rnd2 =
    Some (st', Some \<lparr>mc_Type = MessageCookieReplyType, mc_Receiver = recv, mc_Nonce = fst rnd2,
      mc_Cookie = XChaCha20Poly1305Encrypt C (fst rnd2) (derive_cookie C (cc_secret st') src) m1
        (cc_encryptionKey st')\<rparr>)"
  using assms by (simp add: CreateReply_def Size128_def Let_def)

lemma refresh_secret_key: "cc_encryptionKey (fst (refresh_secret st now rnd now2)) = cc_encryptionKey st"
  by (simp add: refresh_secret_def Let_def)

text \<open>What a pair of states for the same public key shares.\<close>

definition same_peer :: "CookieChecker \<Rightarrow> CookieGenerator \<Rightarrow> bool" where
  "same_peer ck cg \<longleftrightarrow> cc_mac1_key ck = cg_mac1_key cg \<and> cc_encryptionKey ck = cg_encryptionKey cg"

lemma same_peer_Init: "same_peer (cc_Init C ck pk) (cg_Init C cg pk)"
  by (simp add: same_peer_def cc_Init_def cg_Init_def)

section \<open>The challenge as a protocol\<close>

text \<open>
  The contract a responder and an initiator rely on: \<open>stamp\<close> closes a message, \<open>valid\<close> is the
  cheap check, \<open>challenge\<close> answers a stamped message under load, \<open>learn\<close> takes the answer in,
  and \<open>proves\<close> accepts what is stamped after that from the same address within \<open>life\<close>.
\<close>

locale cookie_exchange =
  fixes stamp :: "'g \<Rightarrow> bytes \<Rightarrow> time \<Rightarrow> ('g \<times> bytes) option"
    and valid :: "'c \<Rightarrow> bytes \<Rightarrow> bool option"
    and challenge :: "'c \<Rightarrow> bytes \<Rightarrow> UDPAddr \<Rightarrow> time \<Rightarrow> ('c \<times> 'r) option"
    and learn :: "'g \<Rightarrow> 'r \<Rightarrow> time \<Rightarrow> 'g \<times> bool"
    and proves :: "'c \<Rightarrow> bytes \<Rightarrow> UDPAddr \<Rightarrow> time \<Rightarrow> bool option"
    and paired :: "'c \<Rightarrow> 'g \<Rightarrow> bool"
    and message :: "bytes \<Rightarrow> bool"
    and fresh :: "'c \<Rightarrow> time \<Rightarrow> bool"
    and life :: duration
  assumes stamp_valid: "paired c g \<Longrightarrow> message m \<Longrightarrow>
      \<exists>g' m'. stamp g m t = Some (g', m') \<and> paired c g' \<and> message m' \<and> valid c m' = Some True"
    and challenge_learn: "paired c g \<Longrightarrow> message m \<Longrightarrow> stamp g m t = Some (g1, m1) \<Longrightarrow>
      challenge c m1 src t1 = Some (c1, r) \<Longrightarrow> paired c1 g1 \<and> snd (learn g1 r t2) \<and> paired c1 (fst (learn g1 r t2))"
    and learn_proves: "paired c g \<Longrightarrow> message m \<Longrightarrow> stamp g m t = Some (g1, m1) \<Longrightarrow>
      challenge c m1 src t1 = Some (c1, r) \<Longrightarrow> message m2 \<Longrightarrow> t3 - t2 \<le> life \<Longrightarrow> fresh c1 t4 \<Longrightarrow>
      stamp (fst (learn g1 r t2)) m2 t3 = Some (g3, m3) \<Longrightarrow> proves c1 m3 src t4 = Some True"
begin

text \<open>A whole exchange: the challenge is learnt and the next message gets through both checks.\<close>

lemma exchange:
  assumes "paired c g" "message m" "message m2" "stamp g m t = Some (g1, m1)"
    "challenge c m1 src t1 = Some (c1, r)" "t3 - t2 \<le> life" "fresh c1 t4"
  shows "valid c m1 = Some True \<and> snd (learn g1 r t2) \<and>
    (\<exists>g3 m3. stamp (fst (learn g1 r t2)) m2 t3 = Some (g3, m3) \<and>
      valid c1 m3 = Some True \<and> proves c1 m3 src t4 = Some True)"
proof -
  from stamp_valid [OF assms(1,2), of t] assms(4) have "valid c m1 = Some True" by auto
  moreover have learnt: "snd (learn g1 r t2)" "paired c1 (fst (learn g1 r t2))"
    using challenge_learn [OF assms(1,2,4,5)] by blast+
  moreover from stamp_valid [OF learnt(2) assms(3)] obtain g3 m3 where
    "stamp (fst (learn g1 r t2)) m2 t3 = Some (g3, m3)" "valid c1 m3 = Some True" by blast
  moreover from learn_proves [OF assms(1,2,4,5,3,6,7) this(1)] have "proves c1 m3 src t4 = Some True" .
  ultimately show ?thesis by blast
qed

end

text \<open>
  The code's challenge with good randomness, returning the reply: the secret is refreshed when
  it is too old, with \<open>rnd\<close> at the same clock reading.
\<close>

definition challenge_with ::
  "crypto \<Rightarrow> bytes \<Rightarrow> bytes \<Rightarrow> u32 \<Rightarrow> CookieChecker \<Rightarrow> bytes \<Rightarrow> UDPAddr \<Rightarrow> time \<Rightarrow>
    (CookieChecker \<times> MessageCookieReply) option" where
  "challenge_with C rnd nonce recv st msg src now =
    (case CreateReply C st msg recv src now (rnd, False) now (nonce, False) of
      Some (st, Some reply) \<Rightarrow> Some (st, reply) | _ \<Rightarrow> None)"

definition mac_message :: "bytes \<Rightarrow> bool" where
  "mac_message msg \<longleftrightarrow> 2 * Size128 \<le> length msg"

definition secret_fresh :: "CookieChecker \<Rightarrow> time \<Rightarrow> bool" where
  "secret_fresh st now \<longleftrightarrow> now - cc_secretSet st \<le> CookieRefreshTime"

lemma refresh_gt_iff: "timeSub t u > CookieRefreshTime \<longleftrightarrow> t - u > CookieRefreshTime"
  by (rule timeSub_gt_iff) (simp_all add: duration_consts)

lemma challenge_with_split:
  assumes "length m1 = 16" "length m2 = 16"
  shows "challenge_with C rnd nonce recv st (body @ m1 @ m2) src now =
    (let st' = fst (refresh_secret st now (rnd, False) now)
     in Some (st', \<lparr>mc_Type = MessageCookieReplyType, mc_Receiver = recv, mc_Nonce = nonce,
      mc_Cookie = XChaCha20Poly1305Encrypt C nonce (derive_cookie C (cc_secret st') src) m1
        (cc_encryptionKey st')\<rparr>))"
proof -
  have "refresh_secret st now (rnd, False) now = (fst (refresh_secret st now (rnd, False) now), True)"
    by (simp add: refresh_secret_def Let_def)
  from CreateReply_split [OF assms this] show ?thesis
    by (simp add: challenge_with_def Let_def)
qed

lemma stamp_keeps:
  assumes "sizes_ok C" "mac_message m" "AddMacs C g m t = Some (g1, m1)"
  obtains body b2 where "m1 = body @ blake2s_mac C (cg_mac1_key g) body @ b2" "length b2 = 16"
    "g1 = g\<lparr>cg_lastMAC1 := blake2s_mac C (cg_mac1_key g) body, cg_hasLastMAC1 := True\<rparr>"
    "\<not> t - cg_cookieSet g > CookieRefreshTime \<Longrightarrow>
      b2 = blake2s_mac C (cg_cookie g) (body @ blake2s_mac C (cg_mac1_key g) body)"
proof -
  from assms(2) obtain body a1 a2 where m: "m = body @ a1 @ a2" "length a1 = 16" "length a2 = 16"
    unfolding mac_message_def by (rule split_macs)
  with AddMacs_split [OF assms(1) m(2,3)] assms(3) show ?thesis
    by (intro that [of body "second_mac C g (body @ blake2s_mac C (cg_mac1_key g) body) a2 t"])
      (auto simp: crypto_sizes(2) [OF assms(1)] second_mac_def refresh_gt_iff)
qed

lemma learn_reply:
  assumes C: "crypto_ok C" and "cg_hasLastMAC1 g" "cg_encryptionKey g = cc_encryptionKey c"
    "mc_Cookie r = XChaCha20Poly1305Encrypt C (mc_Nonce r) cookie (cg_lastMAC1 g) (cc_encryptionKey c)"
  shows "ConsumeReply C g r t = (g\<lparr>cg_cookieSet := t, cg_cookie := cookie\<rparr>, True)"
  using assms by (simp add: ConsumeReply_def xchacha_round_trip [OF crypto_okD(2) [OF C]])
definition cookie_pair :: "crypto \<Rightarrow> CookieChecker \<Rightarrow> CookieGenerator \<Rightarrow> bool" where
  "cookie_pair C ck cg \<longleftrightarrow> crypto_ok C \<and> same_peer ck cg"

lemma stamp_valid_law:
  assumes "cookie_pair C ck cg" "mac_message m"
  shows "\<exists>g' m'. AddMacs C cg m t = Some (g', m') \<and> cookie_pair C ck g' \<and> mac_message m' \<and>
    CheckMAC1 C ck m' = Some True"
proof -
  from assms(1) have C: "sizes_ok C" "crypto_ok C" and same: "same_peer ck cg"
    by (simp_all add: cookie_pair_def crypto_ok_def)
  from assms(2) obtain body a1 a2 where m: "m = body @ a1 @ a2" "length a1 = 16" "length a2 = 16"
    unfolding mac_message_def by (rule split_macs)
  let ?mac1 = "blake2s_mac C (cg_mac1_key cg) body"
  have "length ?mac1 = 16" using C(1) by (rule crypto_sizes)
  moreover have "length (second_mac C cg (body @ ?mac1) a2 t) = 16"
    using length_second_mac [OF C(1) m(3)] .
  ultimately show ?thesis
    using same C(2) by (simp add: m(1) AddMacs_split [OF C(1) m(2,3)] CheckMAC1_split
        cookie_pair_def same_peer_def mac_message_def Size128_def)
qed

lemma challenge_law:
  assumes "cookie_pair C ck cg" "mac_message m" "AddMacs C cg m t = Some (g1, m1)"
    "challenge_with C rnd nonce recv ck m1 src t1 = Some (c1, r)"
  shows "ConsumeReply C g1 r t2 =
      (g1\<lparr>cg_cookieSet := t2, cg_cookie := derive_cookie C (cc_secret c1) src\<rparr>, True)"
    and "same_peer c1 g1"
proof -
  from assms(1) have C: "sizes_ok C" "crypto_ok C" and same: "same_peer ck cg"
    by (simp_all add: cookie_pair_def crypto_ok_def)
  obtain body b2 where m1: "m1 = body @ blake2s_mac C (cg_mac1_key cg) body @ b2" "length b2 = 16"
    "g1 = cg\<lparr>cg_lastMAC1 := blake2s_mac C (cg_mac1_key cg) body, cg_hasLastMAC1 := True\<rparr>"
    using stamp_keeps [OF C(1) assms(2,3)] .
  have len: "length (blake2s_mac C (cg_mac1_key cg) body) = 16" using C(1) by (rule crypto_sizes)
  have c1: "c1 = fst (refresh_secret ck t1 (rnd, False) t1)"
    and r: "mc_Nonce r = nonce" "mc_Cookie r = XChaCha20Poly1305Encrypt C nonce
      (derive_cookie C (cc_secret c1) src) (blake2s_mac C (cg_mac1_key cg) body) (cc_encryptionKey c1)"
    using assms(4) challenge_with_split [OF len m1(2)] by (auto simp: m1(1) Let_def)
  have keys: "cc_encryptionKey c1 = cc_encryptionKey ck" "cc_mac1_key c1 = cc_mac1_key ck"
    by (simp_all add: c1 refresh_secret_def Let_def)
  show "same_peer c1 g1" using same by (simp add: same_peer_def keys m1(3))
  show "ConsumeReply C g1 r t2 =
      (g1\<lparr>cg_cookieSet := t2, cg_cookie := derive_cookie C (cc_secret c1) src\<rparr>, True)"
    using same by (intro learn_reply [OF C(2), where c = c1])
      (simp_all add: m1(3) same_peer_def keys r)
qed

interpretation ce: cookie_exchange "AddMacs C" "CheckMAC1 C" "challenge_with C rnd nonce recv"
    "ConsumeReply C" "CheckMAC2 C" "cookie_pair C" mac_message secret_fresh CookieRefreshTime
  for C rnd nonce recv
proof unfold_locales
  show "\<exists>g' m'. AddMacs C g m t = Some (g', m') \<and> cookie_pair C c g' \<and> mac_message m' \<and>
      CheckMAC1 C c m' = Some True" if "cookie_pair C c g" "mac_message m" for c g m t
    by (rule stamp_valid_law [OF that])
  show "cookie_pair C c1 g1 \<and> snd (ConsumeReply C g1 r t2) \<and> cookie_pair C c1 (fst (ConsumeReply C g1 r t2))"
    if "cookie_pair C c g" "mac_message m" "AddMacs C g m t = Some (g1, m1)"
      "challenge_with C rnd nonce recv c m1 src t1 = Some (c1, r)" for c g m t g1 m1 src t1 c1 r t2
    using challenge_law(1) [OF that, of t2] challenge_law(2) [OF that] that(1) by (simp add: cookie_pair_def same_peer_def)
  show "CheckMAC2 C c1 m3 src t4 = Some True"
    if a: "cookie_pair C c g" "mac_message m" "AddMacs C g m t = Some (g1, m1)"
      "challenge_with C rnd nonce recv c m1 src t1 = Some (c1, r)"
      and m2: "mac_message m2" and time: "t3 - t2 \<le> CookieRefreshTime" and fresh: "secret_fresh c1 t4"
      and stamp: "AddMacs C (fst (ConsumeReply C g1 r t2)) m2 t3 = Some (g3, m3)"
    for c g m t g1 m1 src t1 c1 r m2 t3 t2 t4 g3 m3
  proof -
    have C: "sizes_ok C" using a(1) by (simp add: cookie_pair_def crypto_ok_def)
    let ?g = "fst (ConsumeReply C g1 r t2)"
    have g: "cg_cookieSet ?g = t2" "cg_cookie ?g = derive_cookie C (cc_secret c1) src"
      using challenge_law(1) [OF a, of t2] by simp_all
    obtain body b2 where m3: "m3 = body @ blake2s_mac C (cg_mac1_key ?g) body @ b2" "length b2 = 16"
      "\<not> t3 - cg_cookieSet ?g > CookieRefreshTime \<Longrightarrow>
        b2 = blake2s_mac C (cg_cookie ?g) (body @ blake2s_mac C (cg_mac1_key ?g) body)"
      using stamp_keeps [OF C m2 stamp] by metis
    have "\<not> timeSub t4 (cc_secretSet c1) > CookieRefreshTime"
      using fresh by (simp add: secret_fresh_def refresh_gt_iff)
    from CheckMAC2_split [OF m3(2) this, of C "body @ blake2s_mac C (cg_mac1_key ?g) body" src]
      m3(3) time g show ?thesis by (simp add: m3(1))
  qed
qed

section \<open>Properties\<close>

text \<open>
  C16: what the initiator stamps for a public key passes the first check of the owner of that
  key; when the owner answers it with a cookie reply the initiator accepts the reply, and the
  next message it stamps within the cookie's life passes both checks from the same address as
  long as the responder keeps its secret.
\<close>

theorem cookie_exchange_succeeds:
  assumes "crypto_ok C" "mac_message m" "mac_message m2"
    "AddMacs C (cg_Init C cg pk) m t = Some (g1, m1)"
    "challenge_with C rnd nonce recv (cc_Init C ck pk) m1 src t1 = Some (c1, r)"
    "t3 - t2 \<le> CookieRefreshTime" "t4 - cc_secretSet c1 \<le> CookieRefreshTime"
  shows "CheckMAC1 C (cc_Init C ck pk) m1 = Some True \<and> snd (ConsumeReply C g1 r t2) \<and>
    (\<exists>g3 m3. AddMacs C (fst (ConsumeReply C g1 r t2)) m2 t3 = Some (g3, m3) \<and>
      CheckMAC1 C c1 m3 = Some True \<and> CheckMAC2 C c1 m3 src t4 = Some True)"
  using assms by (intro ce.exchange [where m = m and src = src and rnd = rnd and nonce = nonce])
    (simp_all add: cookie_pair_def same_peer_Init secret_fresh_def)

theorem cookie_exchange_succeeds_witness:
  "\<exists>g1 m1 c1 r.
    AddMacs toy_crypto (cg_Init toy_crypto new_CookieGenerator [1]) (replicate 40 0) 5 = Some (g1, m1) \<and>
    challenge_with toy_crypto [1] [2] 7 (cc_Init toy_crypto new_CookieChecker [1]) m1
      \<lparr>ua_IP = [192, 0, 2, 1], ua_Port = 51820\<rparr> 6 = Some (c1, r) \<and>
    CheckMAC1 toy_crypto (cc_Init toy_crypto new_CookieChecker [1]) m1 = Some True \<and>
    snd (ConsumeReply toy_crypto g1 r 7) \<and>
    (\<exists>g3 m3. AddMacs toy_crypto (fst (ConsumeReply toy_crypto g1 r 7)) (replicate 50 0) 8 = Some (g3, m3) \<and>
      CheckMAC1 toy_crypto c1 m3 = Some True \<and>
      CheckMAC2 toy_crypto c1 m3 \<lparr>ua_IP = [192, 0, 2, 1], ua_Port = 51820\<rparr> 9 = Some True)"
proof -
  let ?src = "\<lparr>ua_IP = [192, 0, 2, 1], ua_Port = 51820\<rparr>"
  have msg: "mac_message (replicate 40 0)" "mac_message (replicate 50 0)"
    by (simp_all add: mac_message_def Size128_def)
  have pair: "cookie_pair toy_crypto (cc_Init toy_crypto new_CookieChecker [1])
      (cg_Init toy_crypto new_CookieGenerator [1])"
    by (simp add: cookie_pair_def same_peer_Init toy_crypto_ok)
  obtain g1 m1 where 1: "AddMacs toy_crypto (cg_Init toy_crypto new_CookieGenerator [1]) (replicate 40 0) 5 =
      Some (g1, m1)" "mac_message m1"
    using stamp_valid_law [OF pair msg(1)] by blast
  obtain body a1 a2 where "m1 = body @ a1 @ a2" "length a1 = 16" "length a2 = 16"
    using 1(2) unfolding mac_message_def by (rule split_macs)
  moreover have "timeSub 6 zeroTime > CookieRefreshTime"
    by (simp add: timeSub_def zeroTime_def duration_consts)
  ultimately obtain c1 r where 2: "challenge_with toy_crypto [1] [2] 7 (cc_Init toy_crypto new_CookieChecker [1])
      m1 ?src 6 = Some (c1, r)" "cc_secretSet c1 = 6"
    by (simp add: challenge_with_split Let_def refresh_secret_def cc_Init_def)
  show ?thesis
    using cookie_exchange_succeeds [OF toy_crypto_ok msg 1(1) 2(1), where ?t3.0 = 8 and ?t2.0 = 7 and ?t4.0 = 9] 1(1) 2
    by (simp add: duration_consts)
qed

text \<open>
  A reply that does not open under the last first code the initiator sent, or that arrives
  before it has sent any message, changes nothing; no reply ever changes the keys of the peer.
\<close>

theorem unsolicited_cookie_ignored:
  "(\<not> cg_hasLastMAC1 st \<or>
      XChaCha20Poly1305Decrypt C (mc_Nonce r) (mc_Cookie r) (cg_lastMAC1 st) (cg_encryptionKey st) = None \<longrightarrow>
      ConsumeReply C st r now = (st, False)) \<and>
    cg_mac1_key (fst (ConsumeReply C st r now)) = cg_mac1_key st \<and>
    cg_encryptionKey (fst (ConsumeReply C st r now)) = cg_encryptionKey st"
  by (auto simp: ConsumeReply_def split: option.splits)

theorem unsolicited_cookie_ignored_witness:
  "ConsumeReply toy_crypto new_CookieGenerator blank_cookie 5 = (new_CookieGenerator, False)"
  using unsolicited_cookie_ignored [of new_CookieGenerator toy_crypto blank_cookie 5]
  by (simp add: new_CookieGenerator_def)
end
