(* ===== verification/Index_Table.thy ===== *)
theory Index_Table
  imports Constants
begin

text \<open>
  The table of \<^verbatim>\<open>controller/index.go\<close> from 32-bit receiver indices to the peer,
  handshake or key pair they name. Peers and key pairs are named by \<open>'p\<close> and \<open>'k\<close>; the
  handshake pointer of an entry is the handshake of a peer, named by that peer. Index 0 is
  reserved for "no index".
\<close>

section \<open>State and operations\<close>

record ('p, 'k) IndexTableEntry =
  ie_peer :: "'p option"
  ie_handshake :: "'p option"
  ie_keyPair :: "'k option"

type_synonym ('p, 'k) index_table = "u32 \<rightharpoonup> ('p, 'k) IndexTableEntry"

definition zero_entry :: "('p, 'k) IndexTableEntry" where
  "zero_entry = \<lparr>ie_peer = None, ie_handshake = None, ie_keyPair = None\<rparr>"

definition it_Init :: "('p, 'k) index_table" where
  "it_Init = Map.empty"

definition it_Delete :: "('p, 'k) index_table \<Rightarrow> u32 \<Rightarrow> ('p, 'k) index_table" where
  "it_Delete table index = (if index = 0 then table else table(index := None))"

definition it_Insert ::
  "('p, 'k) index_table \<Rightarrow> u32 \<Rightarrow> ('p, 'k) IndexTableEntry \<Rightarrow> ('p, 'k) index_table" where
  "it_Insert table key v = table(key \<mapsto> v)"

definition it_Lookup :: "('p, 'k) index_table \<Rightarrow> u32 \<Rightarrow> ('p, 'k) IndexTableEntry" where
  "it_Lookup table idx = (case table idx of None \<Rightarrow> zero_entry | Some e \<Rightarrow> e)"

text \<open>
  One iteration of the loop of \<^verbatim>\<open>NewIndex\<close> reads four random bytes. A draw holds
  them, whether \<^verbatim>\<open>rand.Read\<close> failed, and what other goroutines do to the table between
  the read lock of the first check and the write lock of the second.
\<close>

record ('p, 'k) draw =
  d_bytes :: bytes
  d_err :: bool
  d_others :: "('p, 'k) index_table \<Rightarrow> ('p, 'k) index_table"

definition randUint32 :: "('p, 'k) draw \<Rightarrow> u32 \<times> bool" where
  "randUint32 d = (get_le32 (d_bytes d), d_err d)"

text \<open>
  The loop over the random draws. \<open>None\<close>: every draw given was rejected and the loop is
  still running. Otherwise the table, the index, whether the read failed, and the draws left.
\<close>

fun NewIndex ::
  "('p, 'k) index_table \<Rightarrow> 'p \<Rightarrow> ('p, 'k) draw list \<Rightarrow>
    (('p, 'k) index_table \<times> u32 \<times> bool \<times> ('p, 'k) draw list) option" where
  "NewIndex table peer [] = None"
| "NewIndex table peer (d # ds) =
    (let (index, err) = randUint32 d in
     if err then Some (table, index, True, ds)
     else if index = 0 then NewIndex table peer ds
     else if table index \<noteq> None then NewIndex table peer ds
     else let table = d_others d table in
       if table index \<noteq> None then NewIndex table peer ds
       else Some (table(index \<mapsto> \<lparr>ie_peer = Some peer, ie_handshake = Some peer, ie_keyPair = None\<rparr>),
                  index, False, ds))"

text \<open>Draws without interference, as the sequential models of the handshake use them.\<close>

definition quiet :: "bytes \<Rightarrow> ('p, 'k) draw" where
  "quiet bs = \<lparr>d_bytes = bs, d_err = False, d_others = id\<rparr>"

section \<open>The interface of an index store\<close>

locale index_store =
  fixes look :: "'t \<Rightarrow> u32 \<Rightarrow> 'e"
    and put :: "'t \<Rightarrow> u32 \<Rightarrow> 'e \<Rightarrow> 't"
    and del :: "'t \<Rightarrow> u32 \<Rightarrow> 't"
    and blank :: 'e
  assumes look_put: "look (put t i e) j = (if i = j then e else look t j)"
    and look_del: "look (del t i) j = (if i = j \<and> i \<noteq> 0 then blank else look t j)"
begin

lemma look_put_same: "look (put t i e) i = e"
  by (simp add: look_put)

lemma look_put_other: "i \<noteq> j \<Longrightarrow> look (put t i e) j = look t j"
  by (simp add: look_put)

lemma look_del_same: "i \<noteq> 0 \<Longrightarrow> look (del t i) i = blank"
  by (simp add: look_del)

lemma look_del_other: "i \<noteq> j \<Longrightarrow> look (del t i) j = look t j"
  by (simp add: look_del)

lemma look_del_zero: "look (del t 0) j = look t j"
  by (simp add: look_del)

lemma look_del_all:
  "look (foldl del t is) j = (if j \<in> set is \<and> j \<noteq> 0 then blank else look t j)"
  by (induction "is" arbitrary: t) (auto simp: look_del)

lemma look_replace: "i \<noteq> j \<Longrightarrow> look (put (del t i) j e) i = (if i = 0 then look t 0 else blank)"
  by (simp add: look_put look_del)

end

interpretation ix: index_store it_Lookup it_Insert it_Delete zero_entry
  by unfold_locales (auto simp: it_Lookup_def it_Insert_def it_Delete_def)

section \<open>Fresh indices\<close>

text \<open>One iteration, without the pairs of the source's short declarations.\<close>

lemma NewIndex_Cons:
  "NewIndex table peer (d # ds) =
    (let i = get_le32 (d_bytes d) in
     if d_err d then Some (table, i, True, ds)
     else if i = 0 \<or> table i \<noteq> None then NewIndex table peer ds
     else if d_others d table i \<noteq> None then NewIndex (d_others d table) peer ds
     else Some ((d_others d table)(i \<mapsto> \<lparr>ie_peer = Some peer, ie_handshake = Some peer, ie_keyPair = None\<rparr>),
                i, False, ds))"
  by (simp add: randUint32_def Let_def)

lemmas NewIndex_iteration = NewIndex.simps(1) NewIndex_Cons

lemma NewIndex_fresh:
  "NewIndex table peer ds = Some (table', i, False, ds') \<Longrightarrow>
    \<exists>us. set us \<subseteq> set ds \<and> i \<noteq> 0 \<and> fold d_others us table i = None \<and>
      table' = (fold d_others us table)
        (i \<mapsto> \<lparr>ie_peer = Some peer, ie_handshake = Some peer, ie_keyPair = None\<rparr>)"
proof (induction ds arbitrary: table)
  case Nil
  then show ?case by (simp only: NewIndex_iteration) simp
next
  case (Cons d ds)
  let ?i = "get_le32 (d_bytes d)"
  consider (skip) "NewIndex table peer ds = Some (table', i, False, ds')"
    | (retry) "NewIndex (d_others d table) peer ds = Some (table', i, False, ds')"
    | (taken) "i = ?i" "?i \<noteq> 0" "d_others d table ?i = None" "table' = (d_others d table)
        (?i \<mapsto> \<lparr>ie_peer = Some peer, ie_handshake = Some peer, ie_keyPair = None\<rparr>)"
    using Cons.prems by (simp only: NewIndex_Cons Let_def split: if_splits) auto
  then show ?case
  proof cases
    case skip
    then obtain us where "set us \<subseteq> set ds" "i \<noteq> 0" "fold d_others us table i = None"
      "table' = (fold d_others us table)
        (i \<mapsto> \<lparr>ie_peer = Some peer, ie_handshake = Some peer, ie_keyPair = None\<rparr>)"
      using Cons.IH by blast
    then show ?thesis by (intro exI [of _ us]) auto
  next
    case retry
    then obtain us where "set us \<subseteq> set ds" "i \<noteq> 0"
      "fold d_others us (d_others d table) i = None"
      "table' = (fold d_others us (d_others d table))
        (i \<mapsto> \<lparr>ie_peer = Some peer, ie_handshake = Some peer, ie_keyPair = None\<rparr>)"
      using Cons.IH by blast
    then show ?thesis by (intro exI [of _ "d # us"]) auto
  next
    case taken
    then show ?thesis by (intro exI [of _ "[d]"]) auto
  qed
qed

text \<open>Without interference the table the new entry is added to is the one at the call.\<close>

lemma fold_quiet: "\<forall>d \<in> set us. d_others d = id \<Longrightarrow> fold d_others us t = t"
  by (induction us) simp_all

lemma NewIndex_quiet:
  assumes "\<forall>d \<in> set ds. d_others d = id" "NewIndex table peer ds = Some (table', i, False, ds')"
  shows "i \<noteq> 0 \<and> table i = None \<and>
    table' = table(i \<mapsto> \<lparr>ie_peer = Some peer, ie_handshake = Some peer, ie_keyPair = None\<rparr>)"
proof -
  obtain us where "set us \<subseteq> set ds" "i \<noteq> 0" "fold d_others us table i = None"
    "table' = (fold d_others us table)
      (i \<mapsto> \<lparr>ie_peer = Some peer, ie_handshake = Some peer, ie_keyPair = None\<rparr>)"
    using NewIndex_fresh [OF assms(2)] by blast
  moreover from this(1) assms(1) have "fold d_others us table = table"
    by (intro fold_quiet) blast
  ultimately show ?thesis by simp
qed

text \<open>A draw that names a free index ends the loop.\<close>

lemma NewIndex_returns:
  "\<exists>d \<in> set ds. d_others d = id \<and> \<not> d_err d \<and> get_le32 (d_bytes d) \<noteq> 0 \<and>
      table (get_le32 (d_bytes d)) = None \<Longrightarrow>
    \<forall>d \<in> set ds. d_others d = id \<Longrightarrow> NewIndex table peer ds \<noteq> None"
proof (induction ds)
  case Nil
  then show ?case by simp
next
  case (Cons d ds)
  then show ?case
    by (simp only: NewIndex_Cons Let_def split: if_splits) auto
qed

text \<open>A loop that is still running has met only taken indices.\<close>

lemma NewIndex_rejects:
  assumes "NewIndex table peer ds = None" "\<forall>d \<in> set ds. d_others d = id"
  shows "\<forall>d \<in> set ds. get_le32 (d_bytes d) = 0 \<or> table (get_le32 (d_bytes d)) \<noteq> None"
proof (rule ccontr)
  assume "\<not> ?thesis"
  then obtain d where d: "d \<in> set ds" "get_le32 (d_bytes d) \<noteq> 0" "table (get_le32 (d_bytes d)) = None" by auto
  show False
  proof (cases "\<exists>d \<in> set ds. d_err d")
    case False
    with d assms(2) have "\<exists>d \<in> set ds. d_others d = id \<and> \<not> d_err d \<and> get_le32 (d_bytes d) \<noteq> 0 \<and>
        table (get_le32 (d_bytes d)) = None" by blast
    from NewIndex_returns [OF this assms(2)] assms(1) show False by blast
  next
    case True
    have "NewIndex t peer es \<noteq> None" if "\<exists>d \<in> set es. d_err d" for t es
      using that
    proof (induction es arbitrary: t)
      case (Cons e es)
      show ?case
      proof (cases "d_err e")
        case True
        then show ?thesis by (simp add: NewIndex_Cons Let_def del: NewIndex.simps)
      next
        case False
        with Cons have "NewIndex t' peer es \<noteq> None" for t' by auto
        with False show ?thesis by (simp only: NewIndex_Cons Let_def split: if_split) simp
      qed
    qed simp
    with True assms(1) show False by blast
  qed
qed

section \<open>Properties\<close>

text \<open>
  C20: whatever other goroutines do to the table between the two checks of
  \<^verbatim>\<open>NewIndex\<close>, the index it returns is not 0 and was free in the table as those
  goroutines left it: the new table differs from that one in the new entry alone, so no entry
  of another goroutine is lost.
\<close>

theorem new_index_never_overwrites:
  assumes "NewIndex table peer ds = Some (table', i, False, ds')"
  shows "\<exists>us. set us \<subseteq> set ds \<and> i \<noteq> 0 \<and> fold d_others us table i = None \<and>
    it_Lookup table' i = \<lparr>ie_peer = Some peer, ie_handshake = Some peer, ie_keyPair = None\<rparr> \<and>
    (\<forall>j. j \<noteq> i \<longrightarrow> it_Lookup table' j = it_Lookup (fold d_others us table) j)"
proof -
  obtain us where us: "set us \<subseteq> set ds" "i \<noteq> 0" "fold d_others us table i = None"
    "table' = (fold d_others us table)
      (i \<mapsto> \<lparr>ie_peer = Some peer, ie_handshake = Some peer, ie_keyPair = None\<rparr>)"
    using NewIndex_fresh [OF assms] by blast
  from us(4) have "table' = it_Insert (fold d_others us table) i
      \<lparr>ie_peer = Some peer, ie_handshake = Some peer, ie_keyPair = None\<rparr>"
    by (simp add: it_Insert_def)
  with us(1-3) show ?thesis by (intro exI [of _ us]) (simp add: ix.look_put)
qed

text \<open>The first draw is index 7, which another goroutine takes meanwhile; the second is 9.\<close>

definition racing_draws :: "(nat, nat) draw list" where
  "racing_draws =
    [\<lparr>d_bytes = [7, 0, 0, 0], d_err = False,
      d_others = (\<lambda>t. t(7 \<mapsto> \<lparr>ie_peer = Some 1, ie_handshake = Some 1, ie_keyPair = None\<rparr>))\<rparr>,
     quiet [9, 0, 0, 0]]"

definition racing_table :: "(nat, nat) index_table" where
  "racing_table =
    [7 \<mapsto> \<lparr>ie_peer = Some 1, ie_handshake = Some 1, ie_keyPair = None\<rparr>,
     9 \<mapsto> \<lparr>ie_peer = Some 2, ie_handshake = Some 2, ie_keyPair = None\<rparr>]"

lemma racing_draws_run: "NewIndex Map.empty 2 racing_draws = Some (racing_table, 9, False, [])"
proof -
  have "get_le32 [7, 0, 0, 0] = 7" "get_le32 [9, 0, 0, 0] = 9" by (simp_all add: get_le32_def)
  moreover have "(9::u32) \<noteq> 7" "(7::u32) \<noteq> 0" "(9::u32) \<noteq> 0" by simp_all
  ultimately show ?thesis
    unfolding racing_draws_def quiet_def racing_table_def
    by (simp only: NewIndex_iteration Let_def draw.simps fun_upd_apply if_True if_False simp_thms
        id_apply option.simps)
qed

theorem new_index_never_overwrites_witness:
  "\<exists>us. set us \<subseteq> set racing_draws \<and> (9::u32) \<noteq> 0 \<and> fold d_others us Map.empty 9 = None \<and>
    it_Lookup racing_table 9 = \<lparr>ie_peer = Some 2, ie_handshake = Some 2, ie_keyPair = None\<rparr> \<and>
    (\<forall>j. j \<noteq> 9 \<longrightarrow> it_Lookup racing_table j = it_Lookup (fold d_others us Map.empty) j)"
  by (rule new_index_never_overwrites [OF racing_draws_run])



end
