(* ===== verification/Replay.thy ===== *)
theory Replay
  imports Constants
begin

text \<open>
  The replay filter of \<^verbatim>\<open>controller/replay.go\<close> (a sliding window in the style of
  RFC 6479) on a 64-bit platform, where \<^verbatim>\<open>uintptr\<close> is a 64-bit word. The filter is
  refined to an abstract window: the largest counter seen and the set of counters accepted.
\<close>

unbundle bit_operations_syntax

section \<open>Constants and state\<close>

definition WordLogSize :: nat where "WordLogSize = 3"
definition WordSize :: nat where "WordSize = 2 ^ WordLogSize"
definition CounterRedundantBitsLog :: nat where "CounterRedundantBitsLog = WordLogSize + 3"
definition CounterRedundantBits :: nat where "CounterRedundantBits = WordSize * 8"
definition CounterBitsTotal :: nat where "CounterBitsTotal = 2048"
definition CounterWindowSize :: u64 where
  "CounterWindowSize = word_of_nat (CounterBitsTotal - CounterRedundantBits)"
definition BacktrackWords :: nat where "BacktrackWords = CounterBitsTotal div WordSize"

lemmas replay_consts =
  WordLogSize_def WordSize_def CounterRedundantBitsLog_def CounterRedundantBits_def
  CounterBitsTotal_def CounterWindowSize_def BacktrackWords_def

record ReplayFilter =
  rf_counter :: u64
  rf_backtrack :: "u64 list"

section \<open>Operations\<close>

text \<open>A filter as \<^verbatim>\<open>new(KeyPair)\<close> allocates it, and its \<^verbatim>\<open>Init\<close>.\<close>

definition zero_filter :: ReplayFilter where
  "zero_filter = \<lparr>rf_counter = 0, rf_backtrack = replicate BacktrackWords 0\<rparr>"

definition rf_Init :: "ReplayFilter \<Rightarrow> ReplayFilter" where
  "rf_Init flt = flt\<lparr>rf_counter := 0, rf_backtrack := (rf_backtrack flt)[0 := 0]\<rparr>"

text \<open>The loop of lines 52 to 54: clear the words after \<open>current\<close>, \<open>diff\<close> of them.\<close>

definition clear_words :: "u64 \<Rightarrow> u64 \<Rightarrow> u64 list \<Rightarrow> u64 list" where
  "clear_words current diff bt =
    foldl (\<lambda>bt i. bt[unat ((current + word_of_nat i) mod word_of_nat BacktrackWords) := 0])
      bt [1..<Suc (unat diff)]"

text \<open>Moving the window for \<open>counter\<close>; \<open>None\<close> is the early return behind the window.\<close>

definition slide :: "ReplayFilter \<Rightarrow> u64 \<Rightarrow> ReplayFilter option" where
  "slide flt counter =
    (let indexWord = drop_bit CounterRedundantBitsLog counter in
     if counter > rf_counter flt then
       (let current = drop_bit CounterRedundantBitsLog (rf_counter flt);
            diff = minUint64 (indexWord - current) (word_of_nat BacktrackWords)
        in Some (flt\<lparr>rf_counter := counter,
                   rf_backtrack := clear_words current diff (rf_backtrack flt)\<rparr>))
     else if rf_counter flt - counter > CounterWindowSize then None
     else Some flt)"

definition mark :: "ReplayFilter \<Rightarrow> u64 \<Rightarrow> ReplayFilter \<times> bool" where
  "mark flt counter =
    (let indexWord = unat (drop_bit CounterRedundantBitsLog counter mod word_of_nat BacktrackWords);
         indexBit = unat (counter AND word_of_nat (CounterRedundantBits - 1));
         oldValue = rf_backtrack flt ! indexWord;
         newValue = oldValue OR push_bit indexBit 1
     in (flt\<lparr>rf_backtrack := (rf_backtrack flt)[indexWord := newValue]\<rparr>, oldValue \<noteq> newValue))"

definition ValidateCounter :: "ReplayFilter \<Rightarrow> u64 \<Rightarrow> ReplayFilter \<times> bool" where
  "ValidateCounter flt counter =
    (if counter \<ge> RejectAfterMessages then (flt, False)
     else case slide flt counter of
            None \<Rightarrow> (flt, False)
          | Some flt \<Rightarrow> mark flt counter)"

section \<open>The abstract window\<close>

text \<open>
  The state is the largest counter seen and the set of counters accepted so far; a counter is
  accepted when it is below the limit, not more than \<open>width\<close> behind, and new.
\<close>

definition window_step :: "nat \<Rightarrow> nat \<Rightarrow> nat \<times> nat set \<Rightarrow> nat \<Rightarrow> (nat \<times> nat set) \<times> bool" where
  "window_step limit width st c =
    (case st of (mx, seen) \<Rightarrow>
      if limit \<le> c \<or> c + width < mx then (st, False)
      else ((max mx c, insert c seen), c \<notin> seen))"

text \<open>Feeding a list of counters to a filter: the final state and the verdicts.\<close>

fun checks :: "('s \<Rightarrow> 'c \<Rightarrow> 's \<times> bool) \<Rightarrow> 's \<Rightarrow> 'c list \<Rightarrow> 's \<times> bool list" where
  "checks step s [] = (s, [])"
| "checks step s (c # cs) =
    (let (s', b) = step s c; (s'', bs) = checks step s' cs in (s'', b # bs))"

lemma length_checks [simp]: "length (snd (checks step s cs)) = length cs"
  by (induction cs arbitrary: s) (auto split: prod.splits, metis snd_conv)

lemma window_run_distinct:
  assumes "checks (window_step limit width) (mx, seen) cs = (st, bs)"
  shows "distinct (map fst (filter snd (zip cs bs))) \<and>
    set (map fst (filter snd (zip cs bs))) \<inter> seen = {} \<and>
    (\<forall>c \<in> set (map fst (filter snd (zip cs bs))). c < limit)"
  using assms
proof (induction cs arbitrary: mx seen bs)
  case Nil
  then show ?case by simp
next
  case (Cons c cs)
  obtain mx' seen' b where step: "window_step limit width (mx, seen) c = ((mx', seen'), b)"
    by (metis prod.collapse)
  obtain bs' where run: "checks (window_step limit width) (mx', seen') cs = (st, bs')" "bs = b # bs'"
    using Cons.prems step by (auto split: prod.splits)
  note IH = Cons.IH [OF run(1)]
  show ?case
    using IH run(2) step by (auto simp: window_step_def split: if_splits)
qed

section \<open>Refinement\<close>

text \<open>
  The filter's bits agree with the set of accepted counters on the 256 words ending at the
  word of the largest counter.
\<close>

definition window_rel :: "ReplayFilter \<Rightarrow> nat \<Rightarrow> nat set \<Rightarrow> bool" where
  "window_rel f m S \<longleftrightarrow>
    length (rf_backtrack f) = 256 \<and> unat (rf_counter f) = m \<and> (\<forall>c \<in> S. c \<le> m) \<and>
    (\<forall>w b. w \<le> m div 64 \<and> m div 64 < w + 256 \<and> b < 64 \<longrightarrow>
      bit (rf_backtrack f ! (w mod 256)) b = (64 * w + b \<in> S))"

lemma replay_const_values:
  "CounterRedundantBitsLog = 6" "CounterRedundantBits = 64" "BacktrackWords = 256"
  "CounterWindowSize = 1984"
  by (simp_all add: replay_consts)

lemma unat_drop6: "unat (drop_bit 6 (c :: u64)) = unat c div 64"
  by (simp add: drop_bit_eq_div unat_div)

lemma unat_mod256: "unat ((w :: u64) mod 256) = unat w mod 256"
  by (simp add: unat_mod)

lemma unat_and63: "unat ((c :: u64) AND 63) = unat c mod 64"
proof -
  have "c AND 63 = take_bit 6 c" by (simp add: take_bit_eq_mask mask_eq_exp_minus_1)
  then show ?thesis by (simp add: unsigned_take_bit_eq take_bit_eq_mod unat_mod)
qed

lemma length_foldl_clear [simp]: "length (foldl (\<lambda>bt i. bt[g i := z]) bt is) = length bt"
  by (induction "is" arbitrary: bt) auto

lemma foldl_clear_nth:
  "j < length bt \<Longrightarrow> foldl (\<lambda>bt i. bt[g i := z]) bt is ! j = (if j \<in> g ` set is then z else bt ! j)"
proof (induction "is" rule: rev_induct)
  case Nil
  then show ?case by simp
next
  case (snoc i "is")
  then show ?case by (cases "g i = j") (auto simp: nth_list_update)
qed

lemma clear_words_nth:
  assumes "length bt = 256" "unat current + unat diff < 2 ^ 64" "j < 256"
  shows "clear_words current diff bt ! j =
    (if \<exists>i. 1 \<le> i \<and> i \<le> unat diff \<and> j = (unat current + i) mod 256 then 0 else bt ! j)"
proof -
  have idx: "unat ((current + word_of_nat i) mod word_of_nat BacktrackWords) = (unat current + i) mod 256"
    if "i \<le> unat diff" for i
  proof -
    have "unat (word_of_nat i :: u64) = i" using that assms(2) by (simp add: unat_of_nat)
    then have "unat (current + word_of_nat i) = unat current + i"
      using that assms(2) by (simp add: unat_word_ariths)
    then show ?thesis by (simp add: replay_const_values unat_mod256)
  qed
  let ?g = "\<lambda>i. unat ((current + word_of_nat i) mod word_of_nat BacktrackWords)"
  have "j \<in> ?g ` set [1..<Suc (unat diff)] \<longleftrightarrow>
      (\<exists>i. 1 \<le> i \<and> i \<le> unat diff \<and> j = (unat current + i) mod 256)"
    using idx by (auto simp: image_iff simp del: upt_Suc)
  then show ?thesis
    using foldl_clear_nth [of j bt ?g 0 "[1..<Suc (unat diff)]"] assms(1,3)
    by (simp add: clear_words_def del: upt_Suc)
qed

lemma length_clear_words [simp]: "length (clear_words current diff bt) = length bt"
  by (simp add: clear_words_def)

lemma mod_256_distinct:
  assumes "a < b" "b < a + 256"
  shows "a mod 256 \<noteq> b mod (256 :: nat)"
proof
  assume "a mod 256 = b mod 256"
  then have "b mod 256 = a mod 256" by simp
  with assms(1) have "256 dvd b - a" using mod_eq_dvd_iff_nat [of a b 256] by simp
  with assms show False by (auto dest: dvd_imp_le)
qed

text \<open>A window of 256 words moved by \<open>d\<close> words: a word beyond the old end lies in one that was cleared.\<close>

lemma cleared_position:
  assumes "C < w" "w \<le> W" "W < w + 256" "d = min (W - C) (256::nat)"
  shows "\<exists>i. 1 \<le> i \<and> i \<le> d \<and> w mod 256 = (C + i) mod 256"
proof (cases "w - C \<le> d")
  case True
  with assms(1) show ?thesis by (intro exI [of _ "w - C"]) auto
next
  case False
  with assms have d: "d = 256" by auto
  define i where "i = (w - C - 1) mod 256 + 1"
  have "(C + i) mod 256 = (C + 1 + (w - C - 1) mod 256) mod 256" by (simp add: i_def)
  also have "\<dots> = (C + 1 + (w - C - 1)) mod 256" by (rule mod_add_right_eq)
  also have "C + 1 + (w - C - 1) = w" using assms(1) by arith
  finally have "w mod 256 = (C + i) mod 256" by simp
  moreover have "1 \<le> i" "i \<le> 256" by (simp_all add: i_def Suc_le_eq)
  ultimately show ?thesis using d by auto
qed

lemma window_rel_advance:
  assumes rel: "window_rel f m S" and gt: "c > rf_counter f"
  defines "current \<equiv> drop_bit 6 (rf_counter f)" and "diff \<equiv> minUint64 (drop_bit 6 c - drop_bit 6 (rf_counter f)) 256"
  shows "window_rel (f\<lparr>rf_counter := c, rf_backtrack := clear_words current diff (rf_backtrack f)\<rparr>) (unat c) S"
proof -
  let ?W = "unat c div 64" and ?C = "m div 64"
  from rel have len: "length (rf_backtrack f) = 256" and m: "unat (rf_counter f) = m"
    and le: "\<And>x. x \<in> S \<Longrightarrow> x \<le> m"
    and bits: "\<And>w b. w \<le> ?C \<Longrightarrow> ?C < w + 256 \<Longrightarrow> b < 64 \<Longrightarrow>
      bit (rf_backtrack f ! (w mod 256)) b = (64 * w + b \<in> S)"
    by (auto simp: window_rel_def)
  from gt m have mc: "m < unat c" by (simp add: word_less_nat_alt)
  then have CW: "?C \<le> ?W" by (simp add: div_le_mono)
  have cur: "unat current = ?C" by (simp add: current_def unat_drop6 m)
  have "unat (drop_bit 6 c - drop_bit 6 (rf_counter f)) = ?W - ?C"
    using CW by (subst unat_sub) (simp_all add: word_le_nat_alt unat_drop6 m)
  then have dif: "unat diff = min (?W - ?C) 256"
    by (simp add: diff_def unat_minUint64)
  have "unat c < 2 ^ 64" using unat_bound [of c] by simp
  then have small: "unat current + unat diff < 2 ^ 64"
  proof -
    have "unat current + unat diff \<le> ?W" using CW cur dif by arith
    also have "\<dots> \<le> unat c" by (rule div_le_dividend)
    finally show ?thesis using \<open>unat c < 2 ^ 64\<close> by (rule le_less_trans)
  qed
  have new: "bit (clear_words current diff (rf_backtrack f) ! (w mod 256)) b = (64 * w + b \<in> S)"
    if w: "w \<le> ?W" "?W < w + 256" "b < 64" for w b
  proof (cases "w \<le> ?C")
    case True
    have "w mod 256 \<noteq> (?C + i) mod 256" if "1 \<le> i" "i \<le> unat diff" for i
      using that True w dif CW by (intro mod_256_distinct) arith+
    then have "clear_words current diff (rf_backtrack f) ! (w mod 256) = rf_backtrack f ! (w mod 256)"
      using clear_words_nth [OF len small, of "w mod 256"] cur by auto
    with bits [of w b] True w CW show ?thesis by simp
  next
    case False
    then have "64 * w + b \<notin> S" using le [of "64 * w + b"] by auto
    moreover have "\<exists>i. 1 \<le> i \<and> i \<le> unat diff \<and> w mod 256 = (?C + i) mod 256"
      using cleared_position [OF _ w(1,2) dif] False by simp
    ultimately show ?thesis
      using clear_words_nth [OF len small, of "w mod 256"] cur by simp
  qed
  show ?thesis
    using len le mc new by (fastforce simp: window_rel_def)
qed

text \<open>Setting a bit changes the word exactly if it was clear.\<close>

lemma set_bit_word:
  fixes old :: u64
  assumes "b < 64"
  shows "i < 64 \<Longrightarrow> bit (old OR push_bit b 1) i = (bit old i \<or> i = b)" "old \<noteq> old OR push_bit b 1 \<longleftrightarrow> \<not> bit old b"
proof -
  have new: "bit (old OR push_bit b 1) i = (bit old i \<or> i = b)" if "i < 64" for i
    using that by (auto simp: bit_or_iff bit_exp_iff)
  then show "i < 64 \<Longrightarrow> bit (old OR push_bit b 1) i = (bit old i \<or> i = b)" .
  show "old \<noteq> old OR push_bit b 1 \<longleftrightarrow> \<not> bit old b"
  proof
    show "\<not> bit old b" if "old \<noteq> old OR push_bit b 1"
    proof
      assume "bit old b"
      with new have "bit old i = bit (old OR push_bit b 1) i" if "i < 64" for i using that by auto
      then have "old = old OR push_bit b 1" by (intro bit_word_eqI) simp
      with that show False by simp
    qed
    show "old \<noteq> old OR push_bit b 1" if "\<not> bit old b" using that new [OF assms] by metis
  qed
qed

lemma window_rel_mark:
  assumes rel: "window_rel f m S" and c: "unat c \<le> m" "m \<le> unat c + 1984"
  shows "window_rel (fst (mark f c)) m (insert (unat c) S) \<and> snd (mark f c) = (unat c \<notin> S)"
proof -
  let ?w = "unat c div 64" and ?b = "unat c mod 64"
  from rel have len: "length (rf_backtrack f) = 256" and m: "unat (rf_counter f) = m"
    and le: "\<And>x. x \<in> S \<Longrightarrow> x \<le> m"
    and bits: "\<And>w b. w \<le> m div 64 \<Longrightarrow> m div 64 < w + 256 \<Longrightarrow> b < 64 \<Longrightarrow>
      bit (rf_backtrack f ! (w mod 256)) b = (64 * w + b \<in> S)"
    by (auto simp: window_rel_def)
  have here: "?w \<le> m div 64" "m div 64 < ?w + 256"
    using c by (auto simp: div_le_mono)
  have idx: "unat (drop_bit CounterRedundantBitsLog c mod word_of_nat BacktrackWords) = ?w mod 256"
    by (simp add: replay_const_values unat_mod256 unat_drop6)
  have ib: "unat (c AND word_of_nat (CounterRedundantBits - 1)) = ?b"
    by (simp add: replay_const_values unat_and63)
  define old where "old = rf_backtrack f ! (?w mod 256)"
  define new where "new = old OR push_bit ?b 1"
  have bit_new: "bit new b = (bit old b \<or> b = ?b)" if "b < 64" for b
    unfolding new_def by (rule set_bit_word(1) [OF _ that]) simp
  have "old \<noteq> new \<longleftrightarrow> \<not> bit old ?b" unfolding new_def by (rule set_bit_word(2)) simp
  then have "old \<noteq> new \<longleftrightarrow> unat c \<notin> S"
    using bits [OF here, of ?b] by (simp add: old_def)
  moreover have mark: "mark f c = (f\<lparr>rf_backtrack := (rf_backtrack f)[?w mod 256 := new]\<rparr>, old \<noteq> new)"
    unfolding mark_def Let_def idx ib old_def [symmetric] new_def [symmetric] by (rule refl)
  ultimately have snd: "snd (mark f c) = (unat c \<notin> S)" by simp
  from mark have fst: "fst (mark f c) = f\<lparr>rf_backtrack := (rf_backtrack f)[?w mod 256 := new]\<rparr>"
    by simp
  have "bit ((rf_backtrack f)[?w mod 256 := new] ! (w mod 256)) b = (64 * w + b \<in> insert (unat c) S)"
    if w: "w \<le> m div 64" "m div 64 < w + 256" "b < 64" for w b
  proof (cases "w = ?w")
    case True
    then have "64 * w + b = unat c \<longleftrightarrow> b = ?b"
      using mult_div_mod_eq [of 64 "unat c"] by linarith
    with True bits [OF w] bit_new [OF w(3)] len show ?thesis by (auto simp: old_def)
  next
    case False
    have "?w mod 256 \<noteq> w mod 256"
      using False here w mod_256_distinct [of ?w w] mod_256_distinct [of w ?w] by (cases "w < ?w") auto
    moreover have "(64 * w + b) div 64 = w" using w(3) by simp
    then have "64 * w + b \<noteq> unat c" using False by auto
    ultimately show ?thesis using bits [OF w] by simp
  qed
  then show ?thesis using fst snd len m le c(1) by (auto simp: window_rel_def)
qed

lemma ValidateCounter_refines:
  assumes "window_rel f m S" "window_step (2 ^ 64 - 17) 1984 (m, S) (unat c) = ((m', S'), ok)"
  shows "window_rel (fst (ValidateCounter f c)) m' S' \<and> snd (ValidateCounter f c) = ok"
proof (cases "RejectAfterMessages \<le> c")
  case True
  with assms show ?thesis
    by (auto simp: ValidateCounter_def window_step_def word_le_nat_alt unat_RejectAfterMessages)
next
  case False
  then have lim: "\<not> 2 ^ 64 - 17 \<le> unat c" by (simp add: word_le_nat_alt unat_RejectAfterMessages)
  have m: "unat (rf_counter f) = m" using assms(1) by (simp add: window_rel_def)
  show ?thesis
  proof (cases "c > rf_counter f")
    case True
    then have gt: "m < unat c" using m by (simp add: word_less_nat_alt)
    have slide: "slide f c = Some (f\<lparr>rf_counter := c, rf_backtrack :=
        clear_words (drop_bit 6 (rf_counter f))
          (minUint64 (drop_bit 6 c - drop_bit 6 (rf_counter f)) 256) (rf_backtrack f)\<rparr>)"
      using True by (simp add: slide_def replay_const_values Let_def)
    have st: "m' = unat c" "S' = insert (unat c) S" "ok = (unat c \<notin> S)"
      using assms(2) gt lim by (auto simp: window_step_def)
    show ?thesis
      using window_rel_mark [OF window_rel_advance [OF assms(1) True], of c] slide False st
      by (simp add: ValidateCounter_def)
  next
    case le: False
    then have cm: "unat c \<le> m" using m by (simp add: word_less_nat_alt)
    then have "unat (rf_counter f - c) = m - unat c"
      using m by (subst unat_sub) (simp_all add: word_le_nat_alt)
    then have behind: "rf_counter f - c > CounterWindowSize \<longleftrightarrow> unat c + 1984 < m"
      by (auto simp: word_less_nat_alt replay_const_values)
    show ?thesis
    proof (cases "unat c + 1984 < m")
      case True
      with behind le False assms lim show ?thesis
        by (auto simp: ValidateCounter_def slide_def Let_def window_step_def)
    next
      case inside: False
      then have st: "m' = m" "S' = insert (unat c) S" "ok = (unat c \<notin> S)"
        using assms(2) cm lim by (auto simp: window_step_def)
      have "slide f c = Some f" using le inside behind by (simp add: slide_def Let_def)
      then show ?thesis
        using window_rel_mark [OF assms(1) cm] inside False st by (simp add: ValidateCounter_def)
    qed
  qed
qed

lemma window_rel_Init: "window_rel (rf_Init zero_filter) 0 {}"
proof -
  have "(replicate 256 (0 :: u64))[0 := 0] ! k = 0" if "k < 256" for k
    using that by (cases k) simp_all
  then show ?thesis by (simp add: window_rel_def rf_Init_def zero_filter_def replay_const_values)
qed

section \<open>The interface of an anti-replay window\<close>

text \<open>What the receiver relies on: the verdicts are those of the abstract window.\<close>

locale replay_window =
  fixes fresh :: 'f
    and check :: "'f \<Rightarrow> u64 \<Rightarrow> 'f \<times> bool"
    and rel :: "'f \<Rightarrow> nat \<Rightarrow> nat set \<Rightarrow> bool"
    and limit width :: nat
  assumes rel_fresh: "rel fresh 0 {}"
    and rel_check: "rel f m S \<Longrightarrow> window_step limit width (m, S) (unat c) = ((m', S'), ok) \<Longrightarrow>
      rel (fst (check f c)) m' S' \<and> snd (check f c) = ok"
begin

lemma checks_refine:
  "rel f m S \<Longrightarrow>
    snd (checks check f cs) = snd (checks (window_step limit width) (m, S) (map unat cs)) \<and>
    (\<exists>m' S'. fst (checks (window_step limit width) (m, S) (map unat cs)) = (m', S') \<and>
      rel (fst (checks check f cs)) m' S')"
proof (induction cs arbitrary: f m S)
  case Nil
  then show ?case by simp
next
  case (Cons c cs)
  obtain m' S' ok where step: "window_step limit width (m, S) (unat c) = ((m', S'), ok)"
    by (metis prod.collapse)
  with rel_check [OF Cons.prems] have *: "rel (fst (check f c)) m' S'" "snd (check f c) = ok"
    by auto
  from Cons.IH [OF *(1)] *(2) step show ?case by (auto split: prod.splits)
qed

lemma accepted_once:
  "distinct (map fst (filter snd (zip cs (snd (checks check fresh cs)))))"
proof -
  let ?run = "checks (window_step limit width) (0, {}) (map unat cs)"
  have same: "snd (checks check fresh cs) = snd ?run"
    using checks_refine [OF rel_fresh] by blast
  have "distinct (map fst (filter snd (zip (map unat cs) (snd ?run))))"
    using window_run_distinct [of limit width 0 "{}" "map unat cs"] by (metis prod.collapse)
  also have "map fst (filter snd (zip (map unat cs) (snd ?run))) =
      map unat (map fst (filter snd (zip cs (snd ?run))))"
    by (simp add: zip_map1 filter_map comp_def case_prod_beta)
  finally show ?thesis by (simp only: same distinct_map [of unat])
qed

lemma fresh_in_window_accepted:
  assumes "rel f m S" "unat c < limit" "m \<le> unat c + width" "unat c \<notin> S"
  shows "snd (check f c)"
  using rel_check [OF assms(1), of c] assms(2-4) by (simp add: window_step_def)

end

interpretation replay: replay_window "rf_Init zero_filter" ValidateCounter window_rel "2 ^ 64 - 17" 1984
  by unfold_locales (fact window_rel_Init, rule ValidateCounter_refines)

section \<open>Properties\<close>

text \<open>
  C10: for every sequence of received counters, the verdicts of the filter of a new key pair
  are exactly those of the abstract window: a counter is accepted if and only if it is below
  \<^verbatim>\<open>RejectAfterMessages\<close>, at most 1984 behind the largest accepted so far, and not
  accepted before.
\<close>

theorem replay_verdicts_exact:
  "snd (checks ValidateCounter (rf_Init zero_filter) cs) =
    snd (checks (window_step (2 ^ 64 - 17) 1984) (0, {}) (map unat cs))"
  using replay.checks_refine [OF window_rel_Init, of cs] by blast

text \<open>No counter is ever accepted twice, in whatever order the counters arrive.\<close>

theorem replay_no_counter_twice:
  "distinct (map fst (filter snd (zip cs (snd (checks ValidateCounter (rf_Init zero_filter) cs)))))"
  by (rule replay.accepted_once)

end
