(* ===== verification/Trie.thy ===== *)
theory Trie
  imports Prelude
begin

text \<open>
  The binary trie of \<^verbatim>\<open>controller/trie.go\<close>: longest-prefix match of 4-byte and
  16-byte addresses to peers. Nodes are owned by exactly one parent, so the in-place updates of
  the source are functional updates here. A peer pointer is \<open>'p option\<close> (\<open>None\<close> is nil).
  The result \<open>None\<close> of a fallible operation is the Go panic (index out of range).

  A trie denotes a partial map from bit strings (prefixes) to peers, \<open>trie_map\<close>; the
  theorems refine every operation to that map.
\<close>

unbundle bit_operations_syntax

section \<open>Operations\<close>

datatype 'p Trie =
  Nil_Trie
| Node (t_cidr: nat) (t_child0: "'p Trie") (t_child1: "'p Trie") (t_bits: bytes)
    (t_peer: "'p option") (t_bit_at_byte: nat) (t_bit_at_shift: nat)

text \<open>The chain of one-bit shifts in the body of \<^verbatim>\<open>commonBits\<close>, for \<open>v \<noteq> 0\<close>.\<close>

definition firstDiff :: "byte \<Rightarrow> nat" where
  "firstDiff v =
    (let v = drop_bit 1 v in if v = 0 then 7 else
     let v = drop_bit 1 v in if v = 0 then 6 else
     let v = drop_bit 1 v in if v = 0 then 5 else
     let v = drop_bit 1 v in if v = 0 then 4 else
     let v = drop_bit 1 v in if v = 0 then 3 else
     let v = drop_bit 1 v in if v = 0 then 2 else
     let v = drop_bit 1 v in if v = 0 then 1 else 0)"

fun commonBitsLoop :: "nat \<Rightarrow> bytes \<Rightarrow> bytes \<Rightarrow> nat option" where
  "commonBitsLoop i [] ip2 = Some (i * 8)"
| "commonBitsLoop i (a # ip1) [] = None"
| "commonBitsLoop i (a # ip1) (b # ip2) =
    (let v = a XOR b in
     if v \<noteq> 0 then Some (i * 8 + firstDiff v) else commonBitsLoop (i + 1) ip1 ip2)"

definition commonBits :: "bytes \<Rightarrow> bytes \<Rightarrow> nat option" where
  "commonBits ip1 ip2 = commonBitsLoop 0 ip1 ip2"

fun RemovePeer :: "'p Trie \<Rightarrow> 'p option \<Rightarrow> 'p Trie" where
  "RemovePeer Nil_Trie p = Nil_Trie"
| "RemovePeer (Node c l r bs q byt sh) p =
    (let l = RemovePeer l p; r = RemovePeer r p in
     if q \<noteq> p then Node c l r bs q byt sh
     else if l = Nil_Trie then r else l)"

definition choose_bit :: "nat \<Rightarrow> nat \<Rightarrow> bytes \<Rightarrow> byte option" where
  "choose_bit byt sh ip =
    (if byt < length ip then Some (drop_bit sh (ip ! byt) AND 1) else None)"

definition newNode :: "bytes \<Rightarrow> nat \<Rightarrow> 'p option \<Rightarrow> 'p Trie" where
  "newNode ip cidr peer = Node cidr Nil_Trie Nil_Trie ip peer (cidr div 8) (7 - cidr mod 8)"

fun set_child :: "byte \<Rightarrow> 'p Trie \<Rightarrow> 'p Trie \<Rightarrow> 'p Trie" where
  "set_child b t Nil_Trie = Nil_Trie"
| "set_child b t (Node c l r bs q byt sh) =
    (if b = 0 then Node c t r bs q byt sh else Node c l t bs q byt sh)"

fun Insert :: "'p Trie \<Rightarrow> bytes \<Rightarrow> nat \<Rightarrow> 'p option \<Rightarrow> 'p Trie option" where
  "Insert Nil_Trie ip cidr peer = Some (newNode ip cidr peer)"
| "Insert (Node c l r bs q byt sh) ip cidr peer = do {
    common \<leftarrow> commonBits bs ip;
    if c \<le> cidr \<and> common \<ge> c then
      (if c = cidr then Some (Node c l r bs peer byt sh)
       else do {
         b \<leftarrow> choose_bit byt sh ip;
         if b = 0 then do { l' \<leftarrow> Insert l ip cidr peer; Some (Node c l' r bs q byt sh) }
         else do { r' \<leftarrow> Insert r ip cidr peer; Some (Node c l r' bs q byt sh) }
       })
    else (let new = newNode ip cidr peer; low = min cidr common in
      if cidr = low then do {
        b \<leftarrow> choose_bit (cidr div 8) (7 - cidr mod 8) bs;
        Some (set_child b (Node c l r bs q byt sh) new)
      }
      else do {
        b \<leftarrow> choose_bit (low div 8) (7 - low mod 8) ip;
        Some (set_child (b XOR 1) (Node c l r bs q byt sh) (set_child b new (newNode ip low None)))
      })
  }"

fun LookupLoop :: "'p Trie \<Rightarrow> bytes \<Rightarrow> 'p option \<Rightarrow> 'p option option" where
  "LookupLoop Nil_Trie ip found = Some found"
| "LookupLoop (Node c l r bs q byt sh) ip found = do {
    common \<leftarrow> commonBits bs ip;
    if common \<ge> c then
      (let found = (if q \<noteq> None then q else found) in
       if byt = length ip then Some found
       else do {
         b \<leftarrow> choose_bit byt sh ip;
         if b = 0 then LookupLoop l ip found else LookupLoop r ip found
       })
    else Some found
  }"

definition Lookup :: "'p Trie \<Rightarrow> bytes \<Rightarrow> 'p option option" where
  "Lookup t ip = LookupLoop t ip None"

fun Count :: "'p Trie \<Rightarrow> nat" where
  "Count Nil_Trie = 0"
| "Count (Node c l r bs q byt sh) = (let x = Count l; y = Count r in x + y)"

text \<open>
  \<^verbatim>\<open>net.CIDRMask\<close> and \<^verbatim>\<open>net.IPv4\<close> of Go's standard library, as
  \<^verbatim>\<open>AllowedIPs\<close> uses them.
\<close>

record IPNet =
  net_IP :: bytes
  net_Mask :: bytes

fun mask_bytes :: "nat \<Rightarrow> nat \<Rightarrow> bytes" where
  "mask_bytes 0 ones = []"
| "mask_bytes (Suc k) ones =
    (if ones \<ge> 8 then 255 # mask_bytes k (ones - 8)
     else NOT (drop_bit ones 255) # mask_bytes k 0)"

definition CIDRMask :: "nat \<Rightarrow> nat \<Rightarrow> bytes" where
  "CIDRMask ones bits =
    (if (bits \<noteq> 32 \<and> bits \<noteq> 128) \<or> ones > bits then [] else mask_bytes (bits div 8) ones)"

definition net_IPv4 :: "bytes \<Rightarrow> bytes" where
  "net_IPv4 bs = replicate 10 0 @ [255, 255] @ take 4 bs"

fun AllowedIPs :: "'p Trie \<Rightarrow> 'p option \<Rightarrow> IPNet list \<Rightarrow> IPNet list option" where
  "AllowedIPs Nil_Trie p results = Some results"
| "AllowedIPs (Node c l r bs q byt sh) p results = do {
    results \<leftarrow>
      (if q = p then
         (if length bs = 4 then
            Some (results @ [\<lparr>net_IP = net_IPv4 bs, net_Mask = CIDRMask c (length bs * 8)\<rparr>])
          else if length bs = 16 then
            Some (results @ [\<lparr>net_IP = bs, net_Mask = CIDRMask c (length bs * 8)\<rparr>])
          else None)
       else Some results);
    results \<leftarrow> AllowedIPs l p results;
    AllowedIPs r p results
  }"

section \<open>Common prefixes\<close>

lemma drop_bit_byte_eq_0:
  fixes v :: byte
  shows "drop_bit k v = 0 \<longleftrightarrow> (\<forall>n < 8. k \<le> n \<longrightarrow> \<not> bit v n)"
proof
  assume eq: "drop_bit k v = 0"
  show "\<forall>n < 8. k \<le> n \<longrightarrow> \<not> bit v n"
  proof (intro allI impI)
    fix n :: nat
    assume "k \<le> n"
    have "\<not> bit (drop_bit k v) (n - k)" using eq by simp
    with \<open>k \<le> n\<close> show "\<not> bit v n" by (simp add: bit_drop_bit_eq)
  qed
next
  assume none: "\<forall>n < 8. k \<le> n \<longrightarrow> \<not> bit v n"
  show "drop_bit k v = 0"
  proof (rule bit_word_eqI)
    fix n
    have "\<not> bit v (k + n)"
    proof (cases "k + n < 8")
      case True
      with none show ?thesis by simp
    next
      case False
      then show ?thesis using bit_imp_le_length [of v "k + n"] by auto
    qed
    then show "bit (drop_bit k v) n = bit (0 :: byte) n" by (simp add: bit_drop_bit_eq)
  qed
qed

lemma xor_eq_0_iff: "a XOR b = 0 \<longleftrightarrow> a = b" for a b :: "'a::len word"
  by (auto simp: bit_eq_iff bit_xor_iff)

lemma firstDiff_drop:
  assumes "v \<noteq> 0"
  shows "firstDiff v < 8 \<and> drop_bit (8 - firstDiff v) v = 0 \<and> drop_bit (7 - firstDiff v) v \<noteq> 0"
proof -
  have flat: "firstDiff v =
    (if drop_bit 1 v = 0 then 7 else if drop_bit 2 v = 0 then 6
     else if drop_bit 3 v = 0 then 5 else if drop_bit 4 v = 0 then 4
     else if drop_bit 5 v = 0 then 3 else if drop_bit 6 v = 0 then 2
     else if drop_bit 7 v = 0 then 1 else 0)"
    unfolding firstDiff_def Let_def drop_bit_drop_bit by (simp del: One_nat_def)
  have "drop_bit 8 v = 0" by (simp add: drop_bit_byte_eq_0)
  with assms show ?thesis unfolding flat by simp
qed

lemma firstDiff_spec:
  assumes "v \<noteq> 0"
  shows "firstDiff v < 8" "bit v (7 - firstDiff v)"
    "\<And>j. j < firstDiff v \<Longrightarrow> \<not> bit v (7 - j)"
proof -
  let ?k = "firstDiff v"
  from firstDiff_drop [OF assms] have lt: "?k < 8"
    and none: "\<And>n. n < 8 \<Longrightarrow> 8 - ?k \<le> n \<Longrightarrow> \<not> bit v n"
    and some: "\<exists>n < 8. 7 - ?k \<le> n \<and> bit v n"
    by (auto simp: drop_bit_byte_eq_0)
  show "?k < 8" by (rule lt)
  from some obtain n where n: "n < 8" "7 - ?k \<le> n" "bit v n" by blast
  with none [of n] have "n = 7 - ?k" by force
  with n show "bit v (7 - ?k)" by simp
  show "\<not> bit v (7 - j)" if "j < ?k" for j
    using none [of "7 - j"] that lt by simp
qed

text \<open>
  \<open>common_prefix n xs ys\<close>: the bit strings agree on exactly their first \<open>n\<close> bits.
\<close>

definition common_prefix :: "nat \<Rightarrow> bool list \<Rightarrow> bool list \<Rightarrow> bool" where
  "common_prefix n xs ys \<longleftrightarrow>
    n \<le> length xs \<and> take n xs = take n ys \<and> (n < length xs \<longrightarrow> xs ! n \<noteq> ys ! n)"

lemma common_prefix_append:
  assumes "length us = length vs" "us \<noteq> vs" "common_prefix n us vs"
  shows "common_prefix n (us @ xs) (vs @ ys)"
proof -
  from assms have "n < length us" by (auto simp: common_prefix_def le_less)
  with assms show ?thesis by (simp add: common_prefix_def nth_append)
qed

lemma common_prefix_byte:
  assumes "a \<noteq> b"
  shows "common_prefix (firstDiff (a XOR b)) (byte_bits a) (byte_bits b)"
proof -
  let ?n = "firstDiff (a XOR b)"
  from assms have nz: "a XOR b \<noteq> 0" by (simp add: xor_eq_0_iff)
  note spec = firstDiff_spec [OF nz]
  have "take ?n (byte_bits a) = take ?n (byte_bits b)"
    using spec by (intro nth_equalityI) (auto simp: byte_bits_nth bit_xor_iff)
  with spec show ?thesis
    by (auto simp: common_prefix_def byte_bits_nth bit_xor_iff)
qed

lemma commonBitsLoop_spec:
  "length xs = length ys \<Longrightarrow>
    \<exists>n. commonBitsLoop i xs ys = Some (i * 8 + n) \<and> common_prefix n (bits_of xs) (bits_of ys)"
proof (induction i xs ys rule: commonBitsLoop.induct)
  case (1 i ip2)
  then show ?case by (simp add: common_prefix_def)
next
  case (2 i a ip1)
  then show ?case by simp
next
  case (3 i a ip1 b ip2)
  show ?case
  proof (cases "a = b")
    case True
    with 3 obtain n where "commonBitsLoop (i + 1) ip1 ip2 = Some ((i + 1) * 8 + n)"
      and "common_prefix n (bits_of ip1) (bits_of ip2)" by auto
    with True show ?thesis
      by (intro exI [of _ "8 + n"]) (simp add: bits_of_Cons common_prefix_def nth_append)
  next
    case False
    then show ?thesis
      using common_prefix_append [OF _ _ common_prefix_byte [OF False]]
      by (simp add: bits_of_Cons byte_bits_inj xor_eq_0_iff Let_def)
  qed
qed

lemma commonBits_ok:
  assumes "length xs = length ys"
  obtains n where "commonBits xs ys = Some n" "common_prefix n (bits_of xs) (bits_of ys)"
  using commonBitsLoop_spec [OF assms, of 0] that by (auto simp: commonBits_def)

lemma common_prefix_le_iff:
  assumes "common_prefix n xs ys" "length xs = length ys" "m \<le> length xs"
  shows "m \<le> n \<longleftrightarrow> take m xs = take m ys"
proof
  assume "m \<le> n"
  with assms(1) show "take m xs = take m ys"
    by (auto simp: common_prefix_def intro: take_eq_take_le)
next
  assume eq: "take m xs = take m ys"
  show "m \<le> n"
  proof (rule ccontr)
    assume "\<not> m \<le> n"
    moreover from eq have "take m xs ! n = take m ys ! n" by simp
    ultimately have "xs ! n = ys ! n" by simp
    with \<open>\<not> m \<le> n\<close> assms show False by (simp add: common_prefix_def)
  qed
qed

lemma drop_bit_and_1: "drop_bit k v AND 1 = (if bit v k then 1 else 0)" for v :: byte
proof -
  have "x AND 1 = (if odd x then 1 else 0)" for x :: byte
    unfolding and_one_eq mod_2_eq_odd by simp
  then show ?thesis by (simp only: bit_iff_odd_drop_bit)
qed

lemma choose_bit_spec:
  assumes "c < 8 * length ip"
  shows "choose_bit (c div 8) (7 - c mod 8) ip = Some (if bits_of ip ! c then 1 else 0)"
proof -
  from assms have "c div 8 < length ip" by simp
  then show ?thesis
    by (simp only: choose_bit_def drop_bit_and_1 bits_of_nth [OF assms] if_True)
qed

section \<open>The prefix map a trie denotes\<close>

text \<open>
  \<open>trie_map t\<close> maps a prefix to the peer stored for it. The invariant: a node's address
  has the table's length, its branching position is the one computed from its
  \<^verbatim>\<open>cidr\<close>, and the nodes below child \<open>b\<close> extend its prefix by bit \<open>b\<close>.
\<close>

fun trie_map :: "'p Trie \<Rightarrow> bool list \<Rightarrow> 'p option" where
  "trie_map Nil_Trie = Map.empty"
| "trie_map (Node c l r bs q byt sh) =
    (trie_map l ++ trie_map r)(take c (bits_of bs) := q)"

fun trie_inv :: "nat \<Rightarrow> bool list \<Rightarrow> 'p Trie \<Rightarrow> bool" where
  "trie_inv len pre Nil_Trie = True"
| "trie_inv len pre (Node c l r bs q byt sh) =
    (length bs = len \<and> c \<le> 8 * len \<and> byt = c div 8 \<and> sh = 7 - c mod 8 \<and>
     length pre \<le> c \<and> take (length pre) (bits_of bs) = pre \<and>
     trie_inv len (take c (bits_of bs) @ [False]) l \<and>
     trie_inv len (take c (bits_of bs) @ [True]) r)"

lemma trie_inv_weaken:
  "trie_inv len (pre @ post) t \<Longrightarrow> trie_inv len pre t"
proof (cases t)
  case (Node c l r bs q byt sh)
  assume "trie_inv len (pre @ post) t"
  with Node have *: "take (length pre + length post) (bits_of bs) = pre @ post"
    and "trie_inv len (pre @ post) t" by simp_all
  from * have "take (length pre) (take (length pre + length post) (bits_of bs)) = pre"
    by simp
  then have "take (length pre) (bits_of bs) = pre" by simp
  with \<open>trie_inv len (pre @ post) t\<close> Node show ?thesis by simp
qed simp

lemma trie_inv_Nil: "trie_inv len pre t \<Longrightarrow> trie_inv len [] t"
  using trie_inv_weaken [of len "[]" pre t] by simp

lemma trie_inv_leaf: "trie_inv len pre t \<Longrightarrow> 8 * len < length pre \<Longrightarrow> t = Nil_Trie"
  by (cases t) auto

lemma trie_map_dom:
  "trie_inv len pre t \<Longrightarrow> trie_map t k = Some x \<Longrightarrow>
    take (length pre) k = pre \<and> length pre \<le> length k \<and> length k \<le> 8 * len"
proof (induction t arbitrary: pre)
  case Nil_Trie
  then show ?case by simp
next
  case (Node c l r bs q byt sh)
  let ?p = "take c (bits_of bs)"
  from Node.prems have len: "length ?p = c" and pre: "take (length pre) ?p = pre" "length pre \<le> c"
    by (simp_all add: min_absorb1)
  from Node.prems(2) consider "k = ?p" | "trie_map l k = Some x" | "trie_map r k = Some x"
    by (auto simp: map_add_Some_iff split: if_splits)
  then show ?case
  proof cases
    case 1
    with Node.prems(1) pre len show ?thesis by auto
  next
    case 2
    with Node.IH(1) [of "?p @ [False]"] Node.prems(1) len
    have k: "take (Suc c) k = ?p @ [False]" "Suc c \<le> length k" "length k \<le> 8 * len" by simp_all
    have "take (length pre) k = take (length pre) (take (Suc c) k)"
      using pre by (simp add: min_absorb1)
    also have "\<dots> = pre" using k(1) pre len by simp
    finally show ?thesis using k pre by simp
  next
    case 3
    with Node.IH(2) [of "?p @ [True]"] Node.prems(1) len
    have k: "take (Suc c) k = ?p @ [True]" "Suc c \<le> length k" "length k \<le> 8 * len" by simp_all
    have "take (length pre) k = take (length pre) (take (Suc c) k)"
      using pre by (simp add: min_absorb1)
    also have "\<dots> = pre" using k(1) pre len by simp
    finally show ?thesis using k pre by simp
  qed
qed

lemma trie_map_outside:
  assumes "trie_inv len pre t" "take (length pre) k \<noteq> pre"
  shows "trie_map t k = None"
  using trie_map_dom [OF assms(1)] assms(2) by (cases "trie_map t k") auto

lemma trie_map_short:
  assumes "trie_inv len pre t" "length k < length pre"
  shows "trie_map t k = None"
  using trie_map_dom [OF assms(1)] assms(2) by (cases "trie_map t k") fastforce+


section \<open>Insertion refines map update\<close>

lemma map_add_upd_right: "k \<notin> dom l \<Longrightarrow> l ++ r(k := v) = (l ++ r)(k := v)"
  by (auto simp: fun_eq_iff map_add_def dom_def split: option.splits)

lemma map_add_upd_left: "k \<notin> dom r \<Longrightarrow> l(k := v) ++ r = (l ++ r)(k := v)"
  by (auto simp: fun_eq_iff map_add_def dom_def split: option.splits)

lemma newNode_inv:
  assumes "length ip = len" "cidr \<le> 8 * len" "length pre \<le> cidr"
    "take (length pre) (bits_of ip) = pre"
  shows "trie_inv len pre (newNode ip cidr peer)"
  using assms by (simp add: newNode_def)

lemma newNode_map: "trie_map (newNode ip cidr peer) = Map.empty(take cidr (bits_of ip) := peer)"
  by (simp add: newNode_def)

lemma trie_inv_restrict:
  assumes "trie_inv len pre (Node c l r bs q byt sh)" "n \<le> c"
  shows "trie_inv len (take n (bits_of bs)) (Node c l r bs q byt sh)"
  using assms by (auto simp: min_absorb2)

lemma take_Suc_bit:
  "c < 8 * length ip \<Longrightarrow> take (Suc c) (bits_of ip) = take c (bits_of ip) @ [bits_of ip ! c]"
  by (simp add: take_Suc_conv_app_nth)

text \<open>The three shapes of an insertion: below a child, above the node, beside it.\<close>

lemma Insert_below:
  assumes inv: "trie_inv len pre (Node c l r bs q byt sh)"
    and eq: "take c (bits_of bs) = take c (bits_of ip)"
    and len: "length ip = len" "c < cidr" "cidr \<le> 8 * len"
    and IHl: "\<And>pre. trie_inv len pre l \<Longrightarrow> length pre \<le> cidr \<Longrightarrow> take (length pre) (bits_of ip) = pre \<Longrightarrow>
      \<exists>t'. Insert l ip cidr peer = Some t' \<and> trie_inv len pre t' \<and>
        trie_map t' = (trie_map l)(take cidr (bits_of ip) := peer)"
    and IHr: "\<And>pre. trie_inv len pre r \<Longrightarrow> length pre \<le> cidr \<Longrightarrow> take (length pre) (bits_of ip) = pre \<Longrightarrow>
      \<exists>t'. Insert r ip cidr peer = Some t' \<and> trie_inv len pre t' \<and>
        trie_map t' = (trie_map r)(take cidr (bits_of ip) := peer)"
    and com: "commonBits bs ip = Some common" "c \<le> common"
  shows "\<exists>t'. Insert (Node c l r bs q byt sh) ip cidr peer = Some t' \<and> trie_inv len pre t' \<and>
    trie_map t' = (trie_map (Node c l r bs q byt sh))(take cidr (bits_of ip) := peer)"
proof -
  let ?k = "take cidr (bits_of ip)" and ?p = "take c (bits_of bs)"
  let ?b = "bits_of ip ! c"
  from len have c: "c < 8 * length ip" by simp
  note choose = choose_bit_spec [OF c]
  have ch: "?p @ [?b] = take (Suc c) (bits_of ip)" using take_Suc_bit [OF c] eq by simp
  have k: "take (Suc c) ?k = ?p @ [?b]" "?k \<noteq> ?p" "length ?k = cidr"
    using ch len by (auto simp: min_absorb1 dest: arg_cong [of _ _ length])
  have inv_l: "trie_inv len (?p @ [False]) l" and inv_r: "trie_inv len (?p @ [True]) r"
    and lp: "length ?p = c" and geo: "byt = c div 8" "sh = 7 - c mod 8"
    using inv by simp_all
  have side: "take (length (?p @ [?b])) (bits_of ip) = ?p @ [?b]" "length (?p @ [?b]) \<le> cidr"
    using ch lp len by simp_all
  show ?thesis
  proof (cases ?b)
    case True
    then have "trie_map l ?k = None"
      using trie_map_outside [OF inv_l, of ?k] k lp by simp
    then have "?k \<notin> dom (trie_map l)" by auto
    moreover from True side inv_r obtain r' where "Insert r ip cidr peer = Some r'"
      "trie_inv len (?p @ [True]) r'" "trie_map r' = (trie_map r)(?k := peer)"
      using IHr [of "?p @ [True]"] by auto
    ultimately show ?thesis
      using True inv len com choose geo k(2)
      by (simp add: map_add_upd_right fun_upd_twist)
  next
    case False
    then have "trie_map r ?k = None"
      using trie_map_outside [OF inv_r, of ?k] k lp by simp
    then have "?k \<notin> dom (trie_map r)" by auto
    moreover from False side inv_l obtain l' where "Insert l ip cidr peer = Some l'"
      "trie_inv len (?p @ [False]) l'" "trie_map l' = (trie_map l)(?k := peer)"
      using IHl [of "?p @ [False]"] by auto
    ultimately show ?thesis
      using False inv len com choose geo k(2)
      by (simp add: map_add_upd_left fun_upd_twist)
  qed
qed

lemma Insert_above:
  assumes inv: "trie_inv len pre (Node c l r bs q byt sh)"
    and eq: "take cidr (bits_of bs) = take cidr (bits_of ip)"
    and len: "length ip = len" "cidr < c" "length pre \<le> cidr"
      "take (length pre) (bits_of ip) = pre"
    and com: "commonBits bs ip = Some common" "cidr \<le> common"
  shows "\<exists>t'. Insert (Node c l r bs q byt sh) ip cidr peer = Some t' \<and> trie_inv len pre t' \<and>
    trie_map t' = (trie_map (Node c l r bs q byt sh))(take cidr (bits_of ip) := peer)"
proof -
  let ?t = "Node c l r bs q byt sh" and ?b = "bits_of bs ! cidr"
  from inv len have c: "cidr < 8 * length bs" and lb: "length bs = len" "c \<le> 8 * len" by auto
  note choose = choose_bit_spec [OF c]
  from inv len have below: "trie_inv len (take (Suc cidr) (bits_of bs)) ?t"
    by (intro trie_inv_restrict) auto
  have "take (Suc cidr) (bits_of bs) = take cidr (bits_of ip) @ [?b]"
    using take_Suc_bit [OF c] eq by simp
  with below have inv': "trie_inv len (take cidr (bits_of ip) @ [?b]) ?t" by simp
  have "Insert ?t ip cidr peer =
      Some (set_child (if ?b then 1 else 0) ?t (newNode ip cidr peer))"
    using com len choose by simp
  then show ?thesis
    using inv' len lb by (auto simp: newNode_def simp del: trie_map.simps(2)) (auto simp: fun_eq_iff)
qed


lemma Insert_beside:
  assumes inv: "trie_inv len pre (Node c l r bs q byt sh)"
    and len: "length ip = len" "cidr \<le> 8 * len" "length pre \<le> cidr"
      "take (length pre) (bits_of ip) = pre"
    and com: "commonBits bs ip = Some common" "common < cidr" "common < c"
      "common_prefix common (bits_of bs) (bits_of ip)"
  shows "\<exists>t'. Insert (Node c l r bs q byt sh) ip cidr peer = Some t' \<and> trie_inv len pre t' \<and>
    trie_map t' = (trie_map (Node c l r bs q byt sh))(take cidr (bits_of ip) := peer)"
proof -
  let ?t = "Node c l r bs q byt sh" and ?b = "bits_of ip ! common" and ?k = "take cidr (bits_of ip)"
  let ?new = "newNode ip cidr peer" and ?p = "take common (bits_of ip)"
  from inv len com have c: "common < 8 * length ip" "common < 8 * length bs" "length bs = len" by auto
  note choose = choose_bit_spec [OF c(1)]
  from com c len have eq: "take common (bits_of bs) = ?p" and diff: "bits_of bs ! common = (\<not> ?b)"
    by (auto simp: common_prefix_def)
  have ip_ch: "take (Suc common) (bits_of ip) = ?p @ [?b]" using take_Suc_bit [OF c(1)] .
  have bs_ch: "take (Suc common) (bits_of bs) = ?p @ [\<not> ?b]"
    using take_Suc_bit [OF c(2)] eq diff by simp
  from inv com bs_ch have inv_t: "trie_inv len (?p @ [\<not> ?b]) ?t"
    using trie_inv_restrict [OF inv, of "Suc common"] by simp
  have inv_new: "trie_inv len (?p @ [?b]) ?new"
    using len com c ip_ch by (intro newNode_inv) auto
  have k: "take (Suc common) ?k = ?p @ [?b]" "?k \<noteq> ?p"
    using ip_ch com c len by (auto simp: min_absorb1 dest: arg_cong [of _ _ length])
  have out: "trie_map ?t ?k = None"
    using trie_map_outside [OF inv_t, of ?k] k c by simp
  have short: "trie_map ?t ?p = None"
    using trie_map_short [OF inv_t, of ?p] c by simp
  have pre: "length pre \<le> common"
  proof (rule ccontr)
    assume "\<not> length pre \<le> common"
    then have *: "Suc common \<le> length pre" by simp
    from inv len have "take (length pre) (bits_of bs) = take (length pre) (bits_of ip)" by simp
    then have "take (Suc common) (bits_of bs) = take (Suc common) (bits_of ip)"
      using * by (rule take_eq_take_le)
    with ip_ch bs_ch show False by simp
  qed
  define t' where "t' = Node common (if ?b then ?t else ?new) (if ?b then ?new else ?t)
      ip None (common div 8) (7 - common mod 8)"
  have "Insert ?t ip cidr peer = Some t'"
    using com choose by (simp add: t'_def newNode_def)
  moreover have "trie_inv len pre t'"
    using inv_t inv_new len pre c by (cases ?b) (simp_all add: t'_def del: trie_inv.simps(2), simp_all)
  moreover have "trie_map (Node common (if ?b then t else ?new) (if ?b then ?new else t) ip None
      (common div 8) (7 - common mod 8)) = (trie_map t)(?k := peer)"
    if "trie_map t ?k = None" "trie_map t ?p = None" for t
    using that k(2) by (auto simp: newNode_map map_add_def fun_eq_iff split: option.splits)
  then have "trie_map t' = (trie_map ?t)(?k := peer)"
    unfolding t'_def using out short by blast
  ultimately show ?thesis by blast
qed

lemma Insert_refines:
  assumes "trie_inv len pre t" "length ip = len" "cidr \<le> 8 * len" "length pre \<le> cidr"
    "take (length pre) (bits_of ip) = pre"
  shows "\<exists>t'. Insert t ip cidr peer = Some t' \<and> trie_inv len pre t' \<and>
    trie_map t' = (trie_map t)(take cidr (bits_of ip) := peer)"
  using assms
proof (induction t arbitrary: pre)
  case Nil_Trie
  then show ?case by (simp add: newNode_inv) (simp add: newNode_map fun_eq_iff)
next
  case (Node c l r bs q byt sh)
  let ?X = "bits_of bs" and ?Y = "bits_of ip"
  from Node.prems have lb: "length bs = len" "c \<le> 8 * len" "length ip = len" by simp_all
  then have XY: "length ?X = length ?Y" "length ?X = 8 * len" by simp_all
  obtain common where com: "commonBits bs ip = Some common" and cp: "common_prefix common ?X ?Y"
    using commonBits_ok [of bs ip] lb by metis
  have le_iff: "m \<le> common \<longleftrightarrow> take m ?X = take m ?Y" if "m \<le> 8 * len" for m
    using common_prefix_le_iff [OF cp XY(1)] that XY(2) by simp
  show ?case
  proof (cases "c \<le> cidr \<and> c \<le> common")
    case True
    then have eq: "take c ?X = take c ?Y" using le_iff lb by simp
    show ?thesis
    proof (cases "c = cidr")
      case True
      with Node.prems com eq \<open>c \<le> cidr \<and> c \<le> common\<close> show ?thesis by (simp add: fun_eq_iff)
    next
      case False
      with True have "c < cidr" by simp
      show ?thesis
        by (rule Insert_below [OF Node.prems(1) eq Node.prems(2) \<open>c < cidr\<close> Node.prems(3) _ _ com])
          (use True in \<open>simp_all only: Node.IH(1) [OF _ Node.prems(2,3)] Node.IH(2) [OF _ Node.prems(2,3)]\<close>)
    qed
  next
    case False
    show ?thesis
    proof (cases "cidr \<le> common")
      case True
      with False have "cidr < c" by simp
      moreover from True le_iff Node.prems(3) have "take cidr ?X = take cidr ?Y" by simp
      ultimately show ?thesis
        using Node.prems com True by (intro Insert_above) auto
    next
      case False
      with \<open>\<not> (c \<le> cidr \<and> c \<le> common)\<close> have "common < cidr" "common < c" by auto
      with Node.prems com cp show ?thesis by (intro Insert_beside) auto
    qed
  qed
qed


section \<open>Lookup is longest-prefix match\<close>

text \<open>
  The specification of a lookup: the peer of the longest prefix of the address that the map
  holds.
\<close>

definition lpm :: "(bool list \<Rightarrow> 'p option) \<Rightarrow> bool list \<Rightarrow> 'p option" where
  "lpm m xs =
    fold (\<lambda>k found. case m (take k xs) of None \<Rightarrow> found | Some p \<Rightarrow> Some p) [0..<Suc (length xs)] None"

lemma fold_found_none:
  "(\<And>k. k \<in> set ks \<Longrightarrow> f k = None) \<Longrightarrow>
    fold (\<lambda>k found. case f k of None \<Rightarrow> found | Some p \<Rightarrow> Some p) ks acc = acc"
  by (induction ks arbitrary: acc) auto

lemma lpm_Some_iff:
  "lpm m xs = Some p \<longleftrightarrow>
    (\<exists>k \<le> length xs. m (take k xs) = Some p \<and> (\<forall>j. k < j \<and> j \<le> length xs \<longrightarrow> m (take j xs) = None))"
proof
  let ?F = "\<lambda>ks. fold (\<lambda>k found. case m (take k xs) of None \<Rightarrow> found | Some p \<Rightarrow> Some p) ks None"
  have "?F [0..<n] = Some p \<Longrightarrow>
      \<exists>k < n. m (take k xs) = Some p \<and> (\<forall>j. k < j \<and> j < n \<longrightarrow> m (take j xs) = None)" for n
  proof (induction n)
    case 0
    then show ?case by simp
  next
    case (Suc n)
    then show ?case by (cases "m (take n xs)") (auto simp: less_Suc_eq)
  qed
  then show "lpm m xs = Some p \<Longrightarrow> \<exists>k \<le> length xs. m (take k xs) = Some p \<and>
      (\<forall>j. k < j \<and> j \<le> length xs \<longrightarrow> m (take j xs) = None)"
    unfolding lpm_def by (metis less_Suc_eq_le)
next
  assume "\<exists>k \<le> length xs. m (take k xs) = Some p \<and> (\<forall>j. k < j \<and> j \<le> length xs \<longrightarrow> m (take j xs) = None)"
  then obtain k where k: "k \<le> length xs" "m (take k xs) = Some p"
    "\<And>j. k < j \<Longrightarrow> j \<le> length xs \<Longrightarrow> m (take j xs) = None" by blast
  have "[0..<Suc (length xs)] = [0..<k] @ [k] @ [Suc k..<Suc (length xs)]"
    using upt_add_eq_append [of 0 k "Suc (length xs) - k"] k(1) upt_conv_Cons [of k "Suc (length xs)"]
    by (simp del: upt_Suc)
  moreover have "fold (\<lambda>k found. case m (take k xs) of None \<Rightarrow> found | Some p \<Rightarrow> Some p)
      [Suc k..<Suc (length xs)] (Some p) = Some p"
    by (rule fold_found_none, rule k(3)) (simp_all del: upt_Suc)
  ultimately show "lpm m xs = Some p"
    unfolding lpm_def using k(2) by (simp del: upt_Suc)
qed

lemma lpm_None_iff: "lpm m xs = None \<longleftrightarrow> (\<forall>k \<le> length xs. m (take k xs) = None)"
proof
  assume none: "lpm m xs = None"
  show "\<forall>k \<le> length xs. m (take k xs) = None"
  proof (rule ccontr)
    let ?K = "{k. k \<le> length xs \<and> m (take k xs) \<noteq> None}"
    assume "\<not> (\<forall>k \<le> length xs. m (take k xs) = None)"
    then have K: "finite ?K" "?K \<noteq> {}" by auto
    then have "Max ?K \<in> ?K" by (rule Max_in)
    moreover from K(1) have "\<And>j. j \<in> ?K \<Longrightarrow> j \<le> Max ?K" by (rule Max_ge)
    ultimately
    obtain p where "m (take (Max ?K) xs) = Some p" "Max ?K \<le> length xs"
      "\<forall>j. Max ?K < j \<and> j \<le> length xs \<longrightarrow> m (take j xs) = None" by fastforce
    then have "lpm m xs = Some p" unfolding lpm_Some_iff by blast
    with none show False by simp
  qed
next
  assume "\<forall>k \<le> length xs. m (take k xs) = None"
  then show "lpm m xs = None"
    by (cases "lpm m xs") (auto simp: lpm_Some_iff)
qed

lemma lpm_empty [simp]: "lpm (\<lambda>_. None) xs = None"
  by (simp add: lpm_None_iff)

lemma lpm_cong: "(\<And>k. k \<le> length xs \<Longrightarrow> m (take k xs) = m' (take k xs)) \<Longrightarrow> lpm m xs = lpm m' xs"
proof (cases "lpm m' xs")
  case None
  assume "\<And>k. k \<le> length xs \<Longrightarrow> m (take k xs) = m' (take k xs)"
  with None have "lpm m xs = None" by (simp add: lpm_None_iff)
  with None show ?thesis by simp
next
  case (Some p)
  assume "\<And>k. k \<le> length xs \<Longrightarrow> m (take k xs) = m' (take k xs)"
  with Some have "lpm m xs = Some p" unfolding lpm_Some_iff by fastforce
  with Some show ?thesis by simp
qed

lemma lpm_upd:
  assumes "c \<le> length xs" "\<And>j. j \<le> c \<Longrightarrow> m (take j xs) = None"
  shows "lpm (m(take c xs := q)) xs = (case lpm m xs of None \<Rightarrow> q | Some p \<Rightarrow> Some p)"
proof -
  have upd: "(m(take c xs := q)) (take k xs) = (if k = c then q else m (take k xs))"
    if "k \<le> length xs" for k
    using that assms(1) by (auto dest: arg_cong [of _ _ length])
  show ?thesis
  proof (cases "lpm m xs")
    case None
    then have none: "\<And>k. k \<le> length xs \<Longrightarrow> m (take k xs) = None" by (simp add: lpm_None_iff)
    show ?thesis
    proof (cases q)
      case q: None
      with none upd have "lpm (m(take c xs := q)) xs = None" by (auto simp: lpm_None_iff)
      with None q show ?thesis by simp
    next
      case (Some p)
      with none upd assms(1) have "lpm (m(take c xs := q)) xs = Some p"
        unfolding lpm_Some_iff by (intro exI [of _ c]) auto
      with None Some show ?thesis by simp
    qed
  next
    case (Some p)
    then obtain k where k: "k \<le> length xs" "m (take k xs) = Some p"
      "\<And>j. k < j \<Longrightarrow> j \<le> length xs \<Longrightarrow> m (take j xs) = None"
      unfolding lpm_Some_iff by blast
    with assms(2) have "c < k" by (metis leI option.distinct(1))
    with k upd have "lpm (m(take c xs := q)) xs = Some p"
      unfolding lpm_Some_iff by (intro exI [of _ k]) auto
    with Some show ?thesis by simp
  qed
qed

lemma trie_inv_children:
  assumes inv: "trie_inv len pre (Node c l r bs q byt sh)" and len: "length xs = 8 * len"
    and eq: "take c (bits_of bs) = take c xs"
  defines "child \<equiv> (if c < 8 * len \<and> xs ! c then r else l)"
  shows "\<And>k. k \<le> length xs \<Longrightarrow> (trie_map l ++ trie_map r) (take k xs) = trie_map child (take k xs)"
    and "\<And>j. j \<le> c \<Longrightarrow> trie_map child (take j xs) = None"
proof -
  let ?p = "take c xs"
  from inv eq have l: "trie_inv len (?p @ [False]) l" and r: "trie_inv len (?p @ [True]) r"
    and c: "c \<le> 8 * len" and lp: "length ?p = c" using len by simp_all
  show none: "trie_map child (take j xs) = None" if "j \<le> c" for j
    unfolding child_def using that len c lp
    by (auto intro: trie_map_short [OF l] trie_map_short [OF r])
  show "(trie_map l ++ trie_map r) (take k xs) = trie_map child (take k xs)" if "k \<le> length xs" for k
  proof (cases "k \<le> c")
    case True
    then have "trie_map l (take k xs) = None" "trie_map r (take k xs) = None"
      using lp that by (auto intro: trie_map_short [OF l] trie_map_short [OF r])
    then show ?thesis by (simp add: child_def map_add_def)
  next
    case False
    with that len have k: "take (Suc c) (take k xs) = ?p @ [xs ! c]" "c < 8 * len"
      by (simp_all add: min_absorb1 take_Suc_conv_app_nth)
    show ?thesis
    proof (cases "xs ! c")
      case True
      then have "trie_map l (take k xs) = None"
        using trie_map_outside [OF l, of "take k xs"] k lp by simp
      with True k show ?thesis by (simp add: child_def map_add_def split: option.splits)
    next
      case False
      then have "trie_map r (take k xs) = None"
        using trie_map_outside [OF r, of "take k xs"] k lp by simp
      with False show ?thesis by (simp add: child_def map_add_def)
    qed
  qed
qed

text \<open>A node whose prefix the address does not have matches nothing; one it has adds its own value.\<close>

lemma lpm_beside:
  assumes inv: "trie_inv len pre (Node c l r bs q byt sh)" and beside: "take c (bits_of bs) \<noteq> take c (bits_of ip)"
  shows "lpm (trie_map (Node c l r bs q byt sh)) (bits_of ip) = None"
proof -
  let ?X = "bits_of bs" and ?Y = "bits_of ip" and ?t = "Node c l r bs q byt sh"
  have len: "length (take c ?X) = c" using inv by simp
  have "trie_inv len (take c ?X) ?t" by (rule trie_inv_restrict [OF inv le_refl])
  then have "trie_map ?t (take k ?Y) = None" for k
  proof (rule trie_map_outside)
    show "take (length (take c ?X)) (take k ?Y) \<noteq> take c ?X"
      using beside len by (metis length_take min.cobounded2 min_def take_all_iff take_take)
  qed
  then show ?thesis by (simp only: lpm_None_iff) simp
qed

lemma lpm_below:
  assumes inv: "trie_inv len pre (Node c l r bs q byt sh)" and len: "length (bits_of ip) = 8 * len"
    and eq: "take c (bits_of bs) = take c (bits_of ip)"
  defines "child \<equiv> (if c < 8 * len \<and> bits_of ip ! c then r else l)"
  shows "lpm (trie_map (Node c l r bs q byt sh)) (bits_of ip) =
    (case lpm (trie_map child) (bits_of ip) of None \<Rightarrow> q | Some p \<Rightarrow> Some p)"
proof -
  let ?Y = "bits_of ip" and ?t = "Node c l r bs q byt sh"
  note ch = trie_inv_children [OF inv len eq, folded child_def]
  have "lpm (trie_map ?t) ?Y = lpm ((trie_map child)(take c ?Y := q)) ?Y"
    using eq ch(1) by (intro lpm_cong) simp
  also have "\<dots> = (case lpm (trie_map child) ?Y of None \<Rightarrow> q | Some p \<Rightarrow> Some p)"
    using ch(2) inv len by (intro lpm_upd) auto
  finally show ?thesis .
qed

lemma LookupLoop_lpm:
  "trie_inv len pre t \<Longrightarrow> length ip = len \<Longrightarrow>
    LookupLoop t ip found =
      Some (case lpm (trie_map t) (bits_of ip) of None \<Rightarrow> found | Some p \<Rightarrow> Some p)"
proof (induction t arbitrary: pre found)
  case Nil_Trie
  show ?case by simp
next
  case (Node c l r bs q byt sh)
  let ?X = "bits_of bs" and ?Y = "bits_of ip" and ?t = "Node c l r bs q byt sh"
  from Node.prems have lb: "length bs = len" "c \<le> 8 * len" "length ip = len" by simp_all
  then have XY: "length ?X = length ?Y" "length ?Y = 8 * len" by simp_all
  obtain common where com: "commonBits bs ip = Some common" and cp: "common_prefix common ?X ?Y"
    using commonBits_ok [of bs ip] lb by metis
  have le_iff: "c \<le> common \<longleftrightarrow> take c ?X = take c ?Y"
    using common_prefix_le_iff [OF cp XY(1)] lb by simp
  show ?case
  proof (cases "c \<le> common")
    case False
    then have "lpm (trie_map ?t) ?Y = None" using lpm_beside [OF Node.prems(1)] le_iff by blast
    with False com show ?thesis by (simp del: trie_map.simps)
  next
    case True
    then have eq: "take c ?X = take c ?Y" using le_iff by simp
    define child where "child = (if c < 8 * len \<and> ?Y ! c then r else l)"
    note lpm = lpm_below [OF Node.prems(1) XY(2) eq, folded child_def]
    from Node.prems have geo: "byt = c div 8" "sh = 7 - c mod 8"
      and il: "trie_inv len (take c ?X @ [False]) l" and ir: "trie_inv len (take c ?X @ [True]) r"
      by simp_all
    show ?thesis
    proof (cases "byt = length ip")
      case True
      with geo lb have c: "c = 8 * len" by auto
      then have "child = Nil_Trie" using trie_inv_leaf [OF il] lb by (simp add: child_def)
      then have "lpm (trie_map child) ?Y = None" by simp
      with lpm have "lpm (trie_map ?t) ?Y = q" by simp
      with True com \<open>c \<le> common\<close> show ?thesis
        by (simp del: trie_map.simps split: option.split)
    next
      case False
      with geo lb have c: "c < 8 * length ip" by auto
      have "LookupLoop ?t ip found = LookupLoop child ip (if q \<noteq> None then q else found)"
        using com \<open>c \<le> common\<close> False choose_bit_spec [OF c] geo c lb by (simp add: child_def)
      also have "\<dots> = Some (case lpm (trie_map child) ?Y of None \<Rightarrow> (if q \<noteq> None then q else found) | Some p \<Rightarrow> Some p)"
        using Node.IH(1) [OF il lb(3)] Node.IH(2) [OF ir lb(3)]
        by (cases "c < 8 * len \<and> ?Y ! c") (simp_all only: child_def simp_thms if_True if_False)
      finally show ?thesis unfolding lpm by (auto split: option.split)
    qed
  qed
qed

lemma Lookup_lpm:
  assumes "trie_inv len [] t" "length ip = len"
  shows "Lookup t ip = Some (lpm (trie_map t) (bits_of ip))"
  unfolding Lookup_def LookupLoop_lpm [OF assms] by (simp split: option.split)

section \<open>Removal\<close>

lemma RemovePeer_inv: "trie_inv len pre t \<Longrightarrow> trie_inv len pre (RemovePeer t p)"
proof (induction t arbitrary: pre)
  case Nil_Trie
  then show ?case by simp
next
  case (Node c l r bs q byt sh)
  let ?X = "bits_of bs"
  from Node.prems have pre: "length pre \<le> c" "take (length pre) ?X = pre"
    and il: "trie_inv len (take c ?X @ [False]) l" and ir: "trie_inv len (take c ?X @ [True]) r"
    by simp_all
  then have "take c ?X = pre @ drop (length pre) (take c ?X)"
    using append_take_drop_id [of "length pre" "take c ?X"] by (simp add: min_absorb1)
  then have ext: "take c ?X @ [b] = pre @ (drop (length pre) (take c ?X) @ [b])" for b by simp
  note l = Node.IH(1) [OF il] and r = Node.IH(2) [OF ir]
  show ?case
  proof (cases "q = p")
    case True
    have "trie_inv len pre (RemovePeer l p)" "trie_inv len pre (RemovePeer r p)"
      using l r trie_inv_weaken unfolding ext by blast+
    with True show ?thesis by (simp add: Let_def)
  next
    case False
    with l r Node.prems show ?thesis by (simp add: Let_def)
  qed
qed

lemma trie_map_map_add:
  assumes "trie_inv len (k0 @ [False]) l" "trie_inv len (k0 @ [True]) r"
  shows "(trie_map l ++ trie_map r) k = Some x \<longleftrightarrow> trie_map l k = Some x \<or> trie_map r k = Some x"
proof -
  have "trie_map l k = None \<or> trie_map r k = None"
    using trie_map_dom [OF assms(1), of k] trie_map_dom [OF assms(2), of k]
    by (cases "trie_map l k"; cases "trie_map r k") auto
  then show ?thesis by (auto simp: map_add_Some_iff)
qed

lemma RemovePeer_submap:
  "trie_inv len pre t \<Longrightarrow> trie_map (RemovePeer t p) k = Some x \<Longrightarrow>
    trie_map t k = Some x \<and> Some x \<noteq> p"
proof (induction t arbitrary: pre)
  case Nil_Trie
  then show ?case by simp
next
  case (Node c l r bs q byt sh)
  let ?p = "take c (bits_of bs)"
  from Node.prems(1) have il: "trie_inv len (?p @ [False]) l" and ir: "trie_inv len (?p @ [True]) r"
    and lp: "length ?p = c" by simp_all
  note l = Node.IH(1) [OF il] and r = Node.IH(2) [OF ir]
  note both = trie_map_map_add [OF il ir]
  have kl: "k \<noteq> ?p" if "trie_map l k = Some y" for y using trie_map_dom [OF il that] lp by auto
  have kr: "k \<noteq> ?p" if "trie_map r k = Some y" for y using trie_map_dom [OF ir that] lp by auto
  show ?case
  proof (cases "q = p")
    case True
    with Node.prems(2) l r have "(trie_map l k = Some x \<or> trie_map r k = Some x) \<and> Some x \<noteq> p"
      by (auto simp: Let_def split: if_splits)
    then show ?thesis using both kl kr by auto
  next
    case False
    with Node.prems(2) l r
    have "k = ?p \<and> q = Some x \<and> Some x \<noteq> p \<or>
        k \<noteq> ?p \<and> (trie_map l k = Some x \<or> trie_map r k = Some x) \<and> Some x \<noteq> p"
      by (auto simp: Let_def map_add_Some_iff split: if_splits)
    then show ?thesis using both by auto
  qed
qed

text \<open>
  \<open>narrow p t\<close>: no node of the peer \<open>p\<close> has two children. On such tries removal
  drops exactly the entries of \<open>p\<close>.
\<close>

fun narrow :: "'p option \<Rightarrow> 'p Trie \<Rightarrow> bool" where
  "narrow p Nil_Trie = True"
| "narrow p (Node c l r bs q byt sh) =
    ((q = p \<longrightarrow> l = Nil_Trie \<or> r = Nil_Trie) \<and> narrow p l \<and> narrow p r)"

lemma RemovePeer_keeps:
  "trie_inv len pre t \<Longrightarrow> narrow p t \<Longrightarrow> trie_map t k = Some x \<Longrightarrow> Some x \<noteq> p \<Longrightarrow>
    trie_map (RemovePeer t p) k = Some x"
proof (induction t arbitrary: pre)
  case Nil_Trie
  then show ?case by simp
next
  case (Node c l r bs q byt sh)
  let ?p = "take c (bits_of bs)"
  from Node.prems(1) have il: "trie_inv len (?p @ [False]) l" and ir: "trie_inv len (?p @ [True]) r"
    by simp_all
  from Node.prems(2) have "narrow p l" "narrow p r" by simp_all
  with Node.IH(1) [OF il] Node.IH(2) [OF ir] Node.prems(4)
  have l: "trie_map l k = Some x \<Longrightarrow> trie_map (RemovePeer l p) k = Some x"
    and r: "trie_map r k = Some x \<Longrightarrow> trie_map (RemovePeer r p) k = Some x" by simp_all
  note both = trie_map_map_add [OF RemovePeer_inv [OF il] RemovePeer_inv [OF ir]]
    trie_map_map_add [OF il ir]
  show ?case
  proof (cases "q = p")
    case True
    with Node.prems(3,4) both(2) have "trie_map l k = Some x \<or> trie_map r k = Some x"
      by (auto split: if_splits)
    with l r Node.prems(2) True show ?thesis by (auto simp: Let_def)
  next
    case False
    with Node.prems(3) l r both show ?thesis by (auto simp: Let_def)
  qed
qed

section \<open>Listing the prefixes of a peer\<close>

lemma bits_mask_byte:
  assumes "n < 8"
  shows "byte_bits (NOT (drop_bit n 255)) = replicate n True @ replicate (8 - n) False"
proof -
  have ones: "(255 :: byte) = - 1" by simp
  show ?thesis
    by (rule nth_equalityI)
      (use assms in \<open>auto simp: byte_bits_nth ones bit_not_iff bit_drop_bit_eq bit_minus_1_iff bit_mask_iff
        nth_append\<close>)
qed

lemma bits_mask_bytes:
  "ones \<le> 8 * k \<Longrightarrow> bits_of (mask_bytes k ones) = replicate ones True @ replicate (8 * k - ones) False"
proof (induction k arbitrary: ones)
  case 0
  then show ?case by simp
next
  case (Suc k)
  show ?case
  proof (cases "ones \<ge> 8")
    case True
    then obtain m where m: "ones = 8 + m" using le_Suc_ex by blast
    have "byte_bits 255 = replicate 8 True" by (simp add: byte_bits_def numeral_eq_Suc)
    with Suc.IH [of m] Suc.prems m show ?thesis by (simp add: bits_of_Cons replicate_add)
  next
    case False
    with Suc.IH [of 0] bits_mask_byte [of ones] show ?thesis
      by (simp add: bits_of_Cons flip: replicate_add)
  qed
qed

lemma bits_CIDRMask:
  "len = 4 \<or> len = 16 \<Longrightarrow> ones \<le> 8 * len \<Longrightarrow>
    bits_of (CIDRMask ones (len * 8)) = replicate ones True @ replicate (8 * len - ones) False"
  by (auto simp: CIDRMask_def bits_mask_bytes)

text \<open>The prefix an entry of the listing stands for, read off its address and mask.\<close>

definition net_prefix :: "nat \<Rightarrow> IPNet \<Rightarrow> bool list" where
  "net_prefix len n =
    take (length (takeWhile id (bits_of (net_Mask n)))) (bits_of (drop (length (net_IP n) - len) (net_IP n)))"

lemma takeWhile_replicate_True:
  "takeWhile id (replicate n True @ replicate m False) = replicate n True"
  by (induction n) (auto simp: takeWhile_replicate)

lemma AllowedIPs_lists:
  assumes "len = 4 \<or> len = 16"
  shows "trie_inv len pre t \<Longrightarrow>
    \<exists>ns. AllowedIPs t (Some p) results = Some (results @ ns) \<and>
      net_prefix len ` set ns = {k. trie_map t k = Some p}"
proof (induction t arbitrary: pre results)
  case Nil_Trie
  then show ?case by simp
next
  case (Node c l r bs q byt sh)
  let ?p = "take c (bits_of bs)"
  from Node.prems have il: "trie_inv len (?p @ [False]) l" and ir: "trie_inv len (?p @ [True]) r"
    and lb: "length bs = len" "c \<le> 8 * len" and lp: "length ?p = c" by simp_all
  note both = trie_map_map_add [OF il ir]
  have p_l: "trie_map l ?p = None" and p_r: "trie_map r ?p = None"
    using lp by (auto intro: trie_map_short [OF il] trie_map_short [OF ir])
  define n where "n = \<lparr>net_IP = (if len = 4 then net_IPv4 bs else bs), net_Mask = CIDRMask c (length bs * 8)\<rparr>"
  have "length (net_IP n) - len = (if len = 4 then 12 else 0)" using assms lb by (auto simp: n_def net_IPv4_def)
  then have "drop (length (net_IP n) - len) (net_IP n) = bs" using assms lb
    by (auto simp: n_def net_IPv4_def numeral_eq_Suc)
  then have n: "net_prefix len n = ?p"
    using assms lb bits_CIDRMask [of len c]
    by (simp add: net_prefix_def n_def takeWhile_replicate_True)
  define here where "here = (if q = Some p then [n] else [])"
  obtain nl where nl: "AllowedIPs l (Some p) (results @ here) = Some ((results @ here) @ nl)"
    "net_prefix len ` set nl = {k. trie_map l k = Some p}" using Node.IH(1) [OF il] by blast
  obtain nr where nr: "AllowedIPs r (Some p) (((results @ here) @ nl)) = Some (((results @ here) @ nl) @ nr)"
    "net_prefix len ` set nr = {k. trie_map r k = Some p}" using Node.IH(2) [OF ir] by blast
  have "AllowedIPs (Node c l r bs q byt sh) (Some p) results = Some (results @ here @ nl @ nr)"
    using nl(1) nr(1) assms lb by (auto simp: here_def n_def)
  moreover have "net_prefix len ` set (here @ nl @ nr) =
      {k. trie_map (Node c l r bs q byt sh) k = Some p}"
    using nl(2) nr(2) n p_l p_r both by (auto simp: here_def image_Un)
  ultimately show ?case by blast
qed

lemma Count_zero: "Count t = 0"
  by (induction t) auto

section \<open>The interface of a prefix table\<close>

text \<open>
  What \<^verbatim>\<open>routing.go\<close> relies on: a table of one address width whose operations
  refine a prefix map. The lemmas below hold of every such table.
\<close>

locale prefix_table =
  fixes width :: nat
    and emp :: "'t"
    and ins :: "'t \<Rightarrow> bytes \<Rightarrow> nat \<Rightarrow> 'p option \<Rightarrow> 't option"
    and look :: "'t \<Rightarrow> bytes \<Rightarrow> 'p option option"
    and rem :: "'t \<Rightarrow> 'p option \<Rightarrow> 't"
    and amap :: "'t \<Rightarrow> bool list \<Rightarrow> 'p option"
    and ok :: "'t \<Rightarrow> bool"
  assumes ok_emp: "ok emp"
    and amap_emp: "amap emp = Map.empty"
    and ins_refines: "ok t \<Longrightarrow> length ip = width \<Longrightarrow> c \<le> 8 * width \<Longrightarrow>
      \<exists>t'. ins t ip c p = Some t' \<and> ok t' \<and> amap t' = (amap t)(take c (bits_of ip) := p)"
    and look_lpm: "ok t \<Longrightarrow> length ip = width \<Longrightarrow> look t ip = Some (lpm (amap t) (bits_of ip))"
    and ok_rem: "ok t \<Longrightarrow> ok (rem t p)"
    and rem_sub: "ok t \<Longrightarrow> amap (rem t p) k = Some x \<Longrightarrow> amap t k = Some x \<and> Some x \<noteq> p"
begin

lemma look_total: "ok t \<Longrightarrow> length ip = width \<Longrightarrow> \<exists>r. look t ip = Some r"
  by (simp add: look_lpm)

lemma ins_total: "ok t \<Longrightarrow> length ip = width \<Longrightarrow> c \<le> 8 * width \<Longrightarrow> ins t ip c p \<noteq> None"
  using ins_refines [of t ip c p] by auto

lemma ins_result:
  assumes "ok t" "length ip = width" "c \<le> 8 * width" "ins t ip c p = Some t'"
  shows "ok t'" "amap t' = (amap t)(take c (bits_of ip) := p)"
  using ins_refines [OF assms(1-3), of p] assms(4) by auto

lemma covered_is_routed:
  assumes "ok t" "length ip = width" "length addr = width" "c \<le> 8 * width"
    and "ins t ip c (Some p) = Some t'" "take c (bits_of addr) = take c (bits_of ip)"
  shows "\<exists>x. look t' addr = Some (Some x)"
proof -
  note t' = ins_result [OF assms(1,2,4,5)]
  have "amap t' (take c (bits_of addr)) = Some p" using t'(2) assms(6) by simp
  then have "lpm (amap t') (bits_of addr) \<noteq> None"
    using assms(3,4) by (auto simp: lpm_None_iff)
  then show ?thesis using look_lpm [OF t'(1) assms(3)] by auto
qed

lemma most_specific_wins:
  assumes "ok t" "length ip = width" "length addr = width" "c \<le> 8 * width"
    and "ins t ip c (Some p) = Some t'" "take c (bits_of addr) = take c (bits_of ip)"
    and "\<And>j. c < j \<Longrightarrow> j \<le> 8 * width \<Longrightarrow> amap t (take j (bits_of addr)) = None"
  shows "look t' addr = Some (Some p)"
proof -
  note t' = ins_result [OF assms(1,2,4,5)]
  have "amap t' (take j (bits_of addr)) = None" if "c < j" "j \<le> 8 * width" for j
    using t'(2) assms(3,4) assms(7) [OF that] that
    by (auto dest: arg_cong [of _ _ length])
  moreover have "amap t' (take c (bits_of addr)) = Some p" using t'(2) assms(6) by simp
  ultimately have "lpm (amap t') (bits_of addr) = Some p"
    unfolding lpm_Some_iff using assms(3,4) by (intro exI [of _ c]) auto
  then show ?thesis using look_lpm [OF t'(1) assms(3)] by simp
qed

lemma removed_not_found:
  assumes "ok t" "length ip = width"
  shows "look (rem t (Some p)) ip \<noteq> Some (Some p)"
proof
  assume "look (rem t (Some p)) ip = Some (Some p)"
  then have "lpm (amap (rem t (Some p))) (bits_of ip) = Some p"
    using look_lpm [OF ok_rem [OF assms(1)] assms(2), of "Some p"] by simp
  then obtain k where "amap (rem t (Some p)) k = Some p" unfolding lpm_Some_iff by blast
  then show False using rem_sub [OF assms(1)] by blast
qed

lemma removal_finds_only_old:
  assumes "ok t" "length ip = width" "look (rem t p) ip = Some (Some x)"
  shows "\<exists>k \<le> 8 * width. amap t (take k (bits_of ip)) = Some x"
proof -
  have "lpm (amap (rem t p)) (bits_of ip) = Some x"
    using look_lpm [OF ok_rem [OF assms(1)] assms(2), of p] assms(3) by simp
  then show ?thesis
    using rem_sub [OF assms(1)] assms(2) unfolding lpm_Some_iff by auto
qed

end

lemma trie_refines_map:
  "trie_inv len [] t \<Longrightarrow> length ip = len \<Longrightarrow> c \<le> 8 * len \<Longrightarrow>
    \<exists>t'. Insert t ip c p = Some t' \<and> trie_inv len [] t' \<and>
      trie_map t' = (trie_map t)(take c (bits_of ip) := p)"
  using Insert_refines [of len "[]" t ip c p] by simp

interpretation trie4: prefix_table 4 Nil_Trie Insert Lookup RemovePeer trie_map "trie_inv 4 []"
  by unfold_locales
    (simp, simp, rule trie_refines_map, assumption+, rule Lookup_lpm, assumption+,
      rule RemovePeer_inv, assumption, rule RemovePeer_submap, assumption+)

interpretation trie16: prefix_table 16 Nil_Trie Insert Lookup RemovePeer trie_map "trie_inv 16 []"
  by unfold_locales
    (simp, simp, rule trie_refines_map, assumption+, rule Lookup_lpm, assumption+,
      rule RemovePeer_inv, assumption, rule RemovePeer_submap, assumption+)

end
