(* ===== verification/Routing.thy ===== *)
theory Routing
  imports Trie
begin

text \<open>
  The routing table of \<^verbatim>\<open>controller/routing.go\<close>: one trie per address family,
  every operation under the table's mutex (so each is one atomic step here). The theorems are
  about the prefix map of each family, through the interface \<open>prefix_table\<close>.
\<close>

section \<open>Operations\<close>

record 'p RoutingTable =
  rt_IPv4 :: "'p Trie"
  rt_IPv6 :: "'p Trie"

definition rt_AllowedIPs :: "'p RoutingTable \<Rightarrow> 'p option \<Rightarrow> IPNet list option" where
  "rt_AllowedIPs table peer = do {
    allowed \<leftarrow> AllowedIPs (rt_IPv4 table) peer [];
    AllowedIPs (rt_IPv6 table) peer allowed
  }"

definition rt_Reset :: "'p RoutingTable \<Rightarrow> 'p RoutingTable" where
  "rt_Reset table = table\<lparr>rt_IPv4 := Nil_Trie, rt_IPv6 := Nil_Trie\<rparr>"

definition rt_RemovePeer :: "'p RoutingTable \<Rightarrow> 'p option \<Rightarrow> 'p RoutingTable" where
  "rt_RemovePeer table peer =
    table\<lparr>rt_IPv4 := RemovePeer (rt_IPv4 table) peer,
          rt_IPv6 := RemovePeer (rt_IPv6 table) peer\<rparr>"

definition rt_Insert ::
  "'p RoutingTable \<Rightarrow> bytes \<Rightarrow> nat \<Rightarrow> 'p option \<Rightarrow> 'p RoutingTable option" where
  "rt_Insert table ip cidr peer =
    (if length ip = 16 then do {
       t \<leftarrow> Insert (rt_IPv6 table) ip cidr peer; Some (table\<lparr>rt_IPv6 := t\<rparr>) }
     else if length ip = 4 then do {
       t \<leftarrow> Insert (rt_IPv4 table) ip cidr peer; Some (table\<lparr>rt_IPv4 := t\<rparr>) }
     else None)"

definition rt_LookupIPv4 :: "'p RoutingTable \<Rightarrow> bytes \<Rightarrow> 'p option option" where
  "rt_LookupIPv4 table address = Lookup (rt_IPv4 table) address"

definition rt_LookupIPv6 :: "'p RoutingTable \<Rightarrow> bytes \<Rightarrow> 'p option option" where
  "rt_LookupIPv6 table address = Lookup (rt_IPv6 table) address"

section \<open>Invariant and abstraction\<close>

definition rt_ok :: "'p RoutingTable \<Rightarrow> bool" where
  "rt_ok table \<longleftrightarrow> trie_inv 4 [] (rt_IPv4 table) \<and> trie_inv 16 [] (rt_IPv6 table)"

text \<open>The abstract table: the routes of the family of \<open>w\<close>-byte addresses.\<close>

definition rt_routes :: "'p RoutingTable \<Rightarrow> nat \<Rightarrow> bool list \<Rightarrow> 'p option" where
  "rt_routes table w = (if w = 4 then trie_map (rt_IPv4 table)
    else if w = 16 then trie_map (rt_IPv6 table) else Map.empty)"

definition rt_Lookup :: "'p RoutingTable \<Rightarrow> bytes \<Rightarrow> 'p option option" where
  "rt_Lookup table address =
    (if length address = 4 then rt_LookupIPv4 table address else rt_LookupIPv6 table address)"

lemma rt_ok_Reset: "rt_ok (rt_Reset table)"
  by (simp add: rt_ok_def rt_Reset_def)

lemma rt_ok_RemovePeer: "rt_ok table \<Longrightarrow> rt_ok (rt_RemovePeer table p)"
  by (simp add: rt_ok_def rt_RemovePeer_def RemovePeer_inv)

lemma rt_Insert_refines:
  assumes "rt_ok table" "length ip = 4 \<or> length ip = 16" "cidr \<le> 8 * length ip"
  shows "\<exists>table'. rt_Insert table ip cidr peer = Some table' \<and> rt_ok table' \<and>
    rt_routes table' = (rt_routes table)(length ip :=
      (rt_routes table (length ip))(take cidr (bits_of ip) := peer))"
  using assms(2)
proof
  assume len: "length ip = 4"
  with assms obtain t where "Insert (rt_IPv4 table) ip cidr peer = Some t" "trie_inv 4 [] t"
    "trie_map t = (trie_map (rt_IPv4 table))(take cidr (bits_of ip) := peer)"
    using trie4.ins_refines [of "rt_IPv4 table" ip cidr peer] by (auto simp: rt_ok_def)
  with len assms(1) show ?thesis
    by (auto simp: rt_Insert_def rt_ok_def rt_routes_def fun_eq_iff)
next
  assume len: "length ip = 16"
  with assms obtain t where "Insert (rt_IPv6 table) ip cidr peer = Some t" "trie_inv 16 [] t"
    "trie_map t = (trie_map (rt_IPv6 table))(take cidr (bits_of ip) := peer)"
    using trie16.ins_refines [of "rt_IPv6 table" ip cidr peer] by (auto simp: rt_ok_def)
  with len assms(1) show ?thesis
    by (auto simp: rt_Insert_def rt_ok_def rt_routes_def fun_eq_iff)
qed

lemma rt_Lookup_lpm:
  assumes "rt_ok table" "length ip = 4 \<or> length ip = 16"
  shows "rt_Lookup table ip = Some (lpm (rt_routes table (length ip)) (bits_of ip))"
  using assms trie4.look_lpm [of "rt_IPv4 table" ip] trie16.look_lpm [of "rt_IPv6 table" ip]
  by (auto simp: rt_Lookup_def rt_LookupIPv4_def rt_LookupIPv6_def rt_ok_def rt_routes_def)

lemma rt_RemovePeer_routes:
  "rt_ok table \<Longrightarrow> rt_routes (rt_RemovePeer table p) w k = Some x \<Longrightarrow>
    rt_routes table w k = Some x \<and> Some x \<noteq> p"
  by (auto simp: rt_ok_def rt_routes_def rt_RemovePeer_def dest: RemovePeer_submap split: if_splits)

section \<open>Building a table from a list of routes\<close>

text \<open>The insertions a configuration makes, in order; \<open>None\<close> when one of them panics.\<close>

type_synonym 'p route = "bytes \<times> nat \<times> 'p"

fun rt_install :: "'p RoutingTable \<Rightarrow> 'p route list \<Rightarrow> 'p RoutingTable option" where
  "rt_install table [] = Some table"
| "rt_install table ((ip, cidr, p) # rs) = do {
    table \<leftarrow> rt_Insert table ip cidr (Some p); rt_install table rs }"

definition route_ok :: "'p route \<Rightarrow> bool" where
  "route_ok r = (case r of (ip, cidr, p) \<Rightarrow>
    (length ip = 4 \<or> length ip = 16) \<and> cidr \<le> 8 * length ip)"

text \<open>
  The specification: among the routes of the address's family whose prefix matches, the longest;
  of two with the same prefix, the one installed last.
\<close>

definition matches :: "bytes \<Rightarrow> 'p route \<Rightarrow> bool" where
  "matches a r = (case r of (ip, cidr, p) \<Rightarrow>
    length ip = length a \<and> take cidr (bits_of ip) = take cidr (bits_of a))"

definition better :: "bytes \<Rightarrow> 'p route option \<Rightarrow> 'p route \<Rightarrow> 'p route option" where
  "better a best r =
    (if matches a r \<and> (case best of None \<Rightarrow> True | Some s \<Rightarrow> fst (snd s) \<le> fst (snd r))
     then Some r else best)"

definition best_route :: "bytes \<Rightarrow> 'p route list \<Rightarrow> 'p route option" where
  "best_route a rs = foldl (better a) None rs"

text \<open>The best route so far is the longest matching prefix of the table so far.\<close>

definition tracks :: "bytes \<Rightarrow> 'p RoutingTable \<Rightarrow> 'p route option \<Rightarrow> bool" where
  "tracks a table best =
    (let m = (\<lambda>k. rt_routes table (length a) (take k (bits_of a))) in
     case best of
       None \<Rightarrow> (\<forall>k \<le> 8 * length a. m k = None)
     | Some (ip, c, p) \<Rightarrow> c \<le> 8 * length a \<and> m c = Some p \<and>
         (\<forall>j. c < j \<and> j \<le> 8 * length a \<longrightarrow> m j = None))"

lemma tracks_lpm:
  "tracks a table best \<Longrightarrow>
    lpm (rt_routes table (length a)) (bits_of a) = map_option (snd \<circ> snd) best"
  by (cases best) (auto simp: tracks_def Let_def lpm_None_iff lpm_Some_iff split: prod.splits)

lemma take_bits_eq_iff:
  assumes "length ip = length a" "c \<le> 8 * length a" "k \<le> 8 * length a"
  shows "take k (bits_of a) = take c (bits_of ip) \<longleftrightarrow> k = c \<and> take c (bits_of a) = take c (bits_of ip)"
proof -
  have "k = c" if "take k (bits_of a) = take c (bits_of ip)"
    using arg_cong [OF that, of length] assms by simp
  then show ?thesis by blast
qed

lemma tracks_Insert:
  assumes "rt_ok table" "tracks a table best" "route_ok (ip, c, p)"
    and ins: "rt_Insert table ip c (Some p) = Some table'"
  shows "tracks a table' (better a best (ip, c, p))"
proof -
  let ?m = "\<lambda>k. rt_routes table (length a) (take k (bits_of a))"
  have routes: "rt_routes table' = (rt_routes table)(length ip :=
      (rt_routes table (length ip))(take c (bits_of ip) := Some p))"
    using rt_Insert_refines [OF assms(1), of ip c "Some p"] ins assms(3) by (auto simp: route_ok_def)
  show ?thesis
  proof (cases "matches a (ip, c, p)")
    case True
    then have m: "length ip = length a" "take c (bits_of ip) = take c (bits_of a)"
      and c: "c \<le> 8 * length a" using assms(3) by (auto simp: matches_def route_ok_def)
    then have upd: "rt_routes table' (length a) (take k (bits_of a)) = (if k = c then Some p else ?m k)"
      if "k \<le> 8 * length a" for k
      using routes take_bits_eq_iff [OF m(1) c that] by simp
    show ?thesis
      using assms(2) True upd c
      by (auto simp: tracks_def better_def Let_def split: option.splits)
  next
    case False
    then have "rt_routes table' (length a) (take k (bits_of a)) = ?m k" if "k \<le> 8 * length a" for k
      using routes take_bits_eq_iff [of ip a c k] that assms(3)
      by (auto simp: matches_def route_ok_def)
    with assms(2) False show ?thesis
      by (auto simp: tracks_def better_def Let_def split: option.splits)
  qed
qed

lemma rt_install_tracks:
  "rt_ok table \<Longrightarrow> \<forall>r \<in> set rs. route_ok r \<Longrightarrow> tracks a table best \<Longrightarrow>
    \<exists>table'. rt_install table rs = Some table' \<and> rt_ok table' \<and>
      tracks a table' (foldl (better a) best rs)"
proof (induction rs arbitrary: table best)
  case Nil
  then show ?case by simp
next
  case (Cons r rs)
  obtain ip c p where r: "r = (ip, c, p)" by (cases r)
  with Cons.prems obtain t where t: "rt_Insert table ip c (Some p) = Some t" "rt_ok t"
    using rt_Insert_refines [of table ip c "Some p"] by (auto simp: route_ok_def)
  have "tracks a t (better a best r)"
    using tracks_Insert [OF Cons.prems(1,3) _ t(1)] Cons.prems(2) r by simp
  with Cons.IH [OF t(2) _ this] Cons.prems(2) r t(1) show ?case by simp
qed

definition empty_table :: "'p RoutingTable" where
  "empty_table = \<lparr>rt_IPv4 = Nil_Trie, rt_IPv6 = Nil_Trie\<rparr>"

lemma empty_table_ok: "rt_ok empty_table"
  by (simp add: rt_ok_def empty_table_def)

lemma tracks_empty: "tracks a empty_table None"
  by (simp add: tracks_def rt_routes_def empty_table_def)

section \<open>Properties\<close>

text \<open>
  C15: installing any list of well-formed routes never panics, and a lookup in the resulting
  table returns the peer of the longest installed prefix that covers the address (of equal
  prefixes the last one installed), and nil when no prefix covers it.
\<close>

theorem routing_longest_prefix:
  assumes "\<forall>r \<in> set rs. route_ok r" "length a = 4 \<or> length a = 16"
  shows "\<exists>table. rt_install empty_table rs = Some table \<and>
    rt_Lookup table a = Some (map_option (snd \<circ> snd) (best_route a rs))"
proof -
  obtain table where t: "rt_install empty_table rs = Some table" "rt_ok table"
    "tracks a table (best_route a rs)"
    using rt_install_tracks [OF empty_table_ok assms(1) tracks_empty]
    by (auto simp: best_route_def)
  with rt_Lookup_lpm [OF t(2) assms(2)] tracks_lpm [OF t(3)] show ?thesis by simp
qed

theorem routing_longest_prefix_witness:
  "\<exists>table. rt_install empty_table
      [([0, 0, 0, 0], 0, 1 :: nat), ([10, 0, 0, 0], 8, 2), ([10, 1, 0, 0], 16, 3)] = Some table \<and>
    rt_Lookup table [10, 2, 0, 1] = Some (Some 2)"
proof -
  have bits: "take 8 (bits_of [10, 0, 0, 0]) = take 8 (bits_of [10, 2, 0, 1])"
    "take 16 (bits_of [10, 1, 0, 0]) \<noteq> take 16 (bits_of [10, 2, 0, 1])"
    by (simp_all add: bits_of_def byte_bits_def)
  then have "best_route [10, 2, 0, 1]
      [([0, 0, 0, 0], 0, 1 :: nat), ([10, 0, 0, 0], 8, 2), ([10, 1, 0, 0], 16, 3)] =
      Some ([10, 0, 0, 0], 8, 2)"
    by (simp add: best_route_def better_def matches_def)
  then show ?thesis
    using routing_longest_prefix [of "[([0, 0, 0, 0], 0, 1 :: nat), ([10, 0, 0, 0], 8, 2),
      ([10, 1, 0, 0], 16, 3)]" "[10, 2, 0, 1]"]
    by (simp add: route_ok_def)
qed

text \<open>
  After \<^verbatim>\<open>RemovePeer\<close> no lookup returns the removed peer, whatever the
  table; and the table stays well formed.
\<close>

theorem routing_removed_peer_unreachable:
  assumes "rt_ok table" "length a = 4 \<or> length a = 16"
  shows "rt_ok (rt_RemovePeer table (Some p)) \<and>
    rt_Lookup (rt_RemovePeer table (Some p)) a \<noteq> Some (Some p)"
  using assms trie4.removed_not_found [of "rt_IPv4 table" a p]
    trie16.removed_not_found [of "rt_IPv6 table" a p] rt_ok_RemovePeer [OF assms(1), of "Some p"]
  by (auto simp: rt_Lookup_def rt_LookupIPv4_def rt_LookupIPv6_def rt_RemovePeer_def rt_ok_def)

theorem routing_removed_peer_unreachable_witness:
  "rt_Lookup (rt_RemovePeer (empty_table\<lparr>rt_IPv4 := newNode [10, 0, 0, 0] 8 (Some (7 :: nat))\<rparr>)
    (Some 7)) [10, 0, 0, 1] \<noteq> Some (Some 7)"
  using routing_removed_peer_unreachable
    [of "empty_table\<lparr>rt_IPv4 := newNode [10, 0, 0, 0] 8 (Some (7 :: nat))\<rparr>" "[10, 0, 0, 1]" 7]
  by (simp add: rt_ok_def empty_table_def newNode_def)

text \<open>
  C32: \<^verbatim>\<open>RemovePeer\<close> on a table none of whose nodes for the peer has two
  children removes exactly the routes of that peer: every other route stays.
\<close>

theorem routing_remove_exact:
  assumes "rt_ok table" "narrow (Some p) (rt_IPv4 table)" "narrow (Some p) (rt_IPv6 table)"
  shows "rt_routes (rt_RemovePeer table (Some p)) w k =
    (if rt_routes table w k = Some p then None else rt_routes table w k)"
proof (cases "rt_routes (rt_RemovePeer table (Some p)) w k")
  case (Some x)
  then show ?thesis using rt_RemovePeer_routes [OF assms(1) Some] by auto
next
  case None
  have "rt_routes table w k = Some x \<Longrightarrow> x = p" for x
    using None assms RemovePeer_keeps [of 4 "[]" "rt_IPv4 table" "Some p" k x]
      RemovePeer_keeps [of 16 "[]" "rt_IPv6 table" "Some p" k x]
    by (auto simp: rt_routes_def rt_ok_def rt_RemovePeer_def split: if_splits)
  with None show ?thesis by (cases "rt_routes table w k") auto
qed

theorem routing_remove_exact_witness:
  "rt_routes (rt_RemovePeer (empty_table\<lparr>rt_IPv4 := newNode [10, 0, 0, 0] 0 (Some (7 :: nat))\<rparr>)
    (Some 7)) 4 [] = None"
  using routing_remove_exact
    [of "empty_table\<lparr>rt_IPv4 := newNode [10, 0, 0, 0] 0 (Some (7 :: nat))\<rparr>" 7 4 "[]"]
  by (simp add: rt_ok_def empty_table_def newNode_def rt_routes_def)

text \<open>
  \<^verbatim>\<open>RemovePeer\<close> is not exact in general. With a default route of peer 1 and
  the two half-space routes of peers 2 and 3, removing peer 1 also drops the route of peer 3: the
  node of peer 1 has two children, and the code returns child 0 and forgets child 1.
\<close>

theorem routing_remove_loses_other_peer:
  "\<exists>table. rt_install empty_table
      [([0, 0, 0, 0], 0, 1 :: nat), ([0, 0, 0, 0], 1, 2), ([128, 0, 0, 0], 1, 3)] = Some table \<and>
    rt_Lookup table [128, 0, 0, 1] = Some (Some 3) \<and>
    rt_Lookup (rt_RemovePeer table (Some 1)) [128, 0, 0, 1] = Some None \<and>
    rt_Lookup (rt_RemovePeer table (Some 1)) [1, 0, 0, 1] = Some (Some 2)"
  by (simp add: rt_Insert_def empty_table_def newNode_def commonBits_def firstDiff_def choose_bit_def
      rt_Lookup_def rt_LookupIPv4_def Lookup_def rt_RemovePeer_def Let_def)

text \<open>
  The listing of a peer's allowed IPs never panics on a well-formed table and holds
  exactly the prefixes routed to that peer, IPv4 ones first.
\<close>

theorem routing_allowed_ips_exact:
  assumes "rt_ok table"
  shows "\<exists>n4 n6. rt_AllowedIPs table (Some p) = Some (n4 @ n6) \<and>
    net_prefix 4 ` set n4 = {k. rt_routes table 4 k = Some p} \<and>
    net_prefix 16 ` set n6 = {k. rt_routes table 16 k = Some p}"
proof -
  from assms have inv: "trie_inv 4 [] (rt_IPv4 table)" "trie_inv 16 [] (rt_IPv6 table)"
    by (simp_all add: rt_ok_def)
  obtain n4 where n4: "AllowedIPs (rt_IPv4 table) (Some p) [] = Some n4"
    "net_prefix 4 ` set n4 = {k. trie_map (rt_IPv4 table) k = Some p}"
    using AllowedIPs_lists [OF _ inv(1), of p "[]"] by auto
  obtain n6 where n6: "AllowedIPs (rt_IPv6 table) (Some p) n4 = Some (n4 @ n6)"
    "net_prefix 16 ` set n6 = {k. trie_map (rt_IPv6 table) k = Some p}"
    using AllowedIPs_lists [OF _ inv(2), of p n4] by auto
  show ?thesis
    using n4 n6 by (intro exI [of _ n4] exI [of _ n6]) (simp add: rt_AllowedIPs_def rt_routes_def)
qed

theorem routing_allowed_ips_exact_witness:
  "\<exists>n4 n6. rt_AllowedIPs (empty_table\<lparr>rt_IPv4 := newNode [10, 0, 0, 0] 8 (Some (7 :: nat))\<rparr>)
    (Some 7) = Some (n4 @ n6) \<and> net_prefix 4 ` set n4 = {take 8 (bits_of [10, 0, 0, 0])}"
proof -
  let ?t = "empty_table\<lparr>rt_IPv4 := newNode [10, 0, 0, 0] 8 (Some (7 :: nat))\<rparr>"
  have "rt_ok ?t" by (simp add: rt_ok_def empty_table_def newNode_def)
  from routing_allowed_ips_exact [OF this, of 7] show ?thesis
    by (auto simp: rt_routes_def newNode_def cong: conj_cong split: if_splits)
qed

end
