(* ===== verification/Ratelimiter.thy ===== *)
theory Ratelimiter
  imports Constants
begin

text \<open>
  The token bucket per source address of \<^verbatim>\<open>controller/ratelimiter.go\<close>. A bucket
  holds nanoseconds; a packet costs a twentieth of a second.
\<close>

section \<open>State and operations\<close>

definition RatelimiterPacketsPerSecond :: int where "RatelimiterPacketsPerSecond = 20"
definition RatelimiterPacketsBurstable :: int where "RatelimiterPacketsBurstable = 5"
definition RatelimiterGarbageCollectTime :: duration where "RatelimiterGarbageCollectTime = second"
definition RatelimiterPacketCost :: int where
  "RatelimiterPacketCost = 1000000000 div RatelimiterPacketsPerSecond"
definition RatelimiterMaxTokens :: int where
  "RatelimiterMaxTokens = RatelimiterPacketCost * RatelimiterPacketsBurstable"

lemmas rate_consts = RatelimiterPacketsPerSecond_def RatelimiterPacketsBurstable_def
  RatelimiterGarbageCollectTime_def RatelimiterPacketCost_def RatelimiterMaxTokens_def second_def

record RatelimiterEntry =
  re_lastTime :: time
  re_tokens :: "64 word"

record Ratelimiter =
  rl_lastGarbageCollect :: time
  rl_tableIPv4 :: "bytes \<rightharpoonup> RatelimiterEntry"
  rl_tableIPv6 :: "bytes \<rightharpoonup> RatelimiterEntry"

definition rl_Init :: "time \<Rightarrow> Ratelimiter" where
  "rl_Init now = \<lparr>rl_lastGarbageCollect = now, rl_tableIPv4 = Map.empty, rl_tableIPv6 = Map.empty\<rparr>"

text \<open>
  \<^verbatim>\<open>GarbageCollectEntries\<close> reads the clock once per entry; \<open>now4\<close> and
  \<open>now6\<close> give the reading for each key.
\<close>

definition gc_table ::
  "(bytes \<Rightarrow> time) \<Rightarrow> (bytes \<rightharpoonup> RatelimiterEntry) \<Rightarrow> (bytes \<rightharpoonup> RatelimiterEntry)" where
  "gc_table now table = (\<lambda>key. case table key of
      None \<Rightarrow> None
    | Some entry \<Rightarrow>
        if timeSub (now key) (re_lastTime entry) > RatelimiterGarbageCollectTime then None else Some entry)"

definition GarbageCollectEntries ::
  "(bytes \<Rightarrow> time) \<Rightarrow> (bytes \<Rightarrow> time) \<Rightarrow> Ratelimiter \<Rightarrow> Ratelimiter" where
  "GarbageCollectEntries now4 now6 rate =
    rate\<lparr>rl_tableIPv4 := gc_table now4 (rl_tableIPv4 rate),
         rl_tableIPv6 := gc_table now6 (rl_tableIPv6 rate)\<rparr>"

text \<open>
  \<^verbatim>\<open>net.IP.To4\<close> and \<^verbatim>\<open>To16\<close>: an IPv4 address has 4 bytes, or 16 with the
  prefix ::ffff:0:0/96. \<^verbatim>\<open>copy\<close> of a nil slice leaves the zero key.
\<close>

definition v4InV6Prefix :: bytes where
  "v4InV6Prefix = [0, 0, 0, 0, 0, 0, 0, 0, 0, 0, 0xff, 0xff]"

definition To4 :: "bytes \<Rightarrow> bytes option" where
  "To4 ip =
    (if length ip = 4 then Some ip
     else if length ip = 16 \<and> take 12 ip = v4InV6Prefix then Some (drop 12 ip)
     else None)"

definition To16 :: "bytes \<Rightarrow> bytes option" where
  "To16 ip =
    (if length ip = 4 then Some (v4InV6Prefix @ ip) else if length ip = 16 then Some ip else None)"

definition key_of :: "nat \<Rightarrow> bytes option \<Rightarrow> bytes" where
  "key_of n dst = (case dst of None \<Rightarrow> replicate n 0 | Some bs \<Rightarrow> bs)"

definition rate_lookup :: "Ratelimiter \<Rightarrow> bytes \<Rightarrow> RatelimiterEntry option" where
  "rate_lookup rate ip =
    (case To4 ip of
      Some IPv4 \<Rightarrow> rl_tableIPv4 rate IPv4
    | None \<Rightarrow> rl_tableIPv6 rate (key_of 16 (To16 ip)))"

definition rate_store :: "Ratelimiter \<Rightarrow> bytes \<Rightarrow> RatelimiterEntry \<Rightarrow> Ratelimiter" where
  "rate_store rate ip entry =
    (case To4 ip of
      Some IPv4 \<Rightarrow> rate\<lparr>rl_tableIPv4 := (rl_tableIPv4 rate)(IPv4 \<mapsto> entry)\<rparr>
    | None \<Rightarrow> rate\<lparr>rl_tableIPv6 := (rl_tableIPv6 rate)(key_of 16 (To16 ip) \<mapsto> entry)\<rparr>)"

text \<open>The tokens are an \<^verbatim>\<open>int64\<close>: the addition wraps and the comparisons are signed.\<close>

definition charge :: "RatelimiterEntry \<Rightarrow> time \<Rightarrow> RatelimiterEntry \<times> bool" where
  "charge entry now =
    (let entry = entry\<lparr>re_tokens := re_tokens entry + word_of_int (timeSub now (re_lastTime entry))\<rparr>;
         entry = entry\<lparr>re_lastTime := now\<rparr>;
         entry = (if sint (re_tokens entry) > RatelimiterMaxTokens
                  then entry\<lparr>re_tokens := word_of_int RatelimiterMaxTokens\<rparr> else entry)
     in if sint (re_tokens entry) > RatelimiterPacketCost
        then (entry\<lparr>re_tokens := re_tokens entry - word_of_int RatelimiterPacketCost\<rparr>, True)
        else (entry, False))"

definition fresh_entry :: "time \<Rightarrow> RatelimiterEntry" where
  "fresh_entry now = \<lparr>re_lastTime = now,
    re_tokens = word_of_int (RatelimiterMaxTokens - RatelimiterPacketCost)\<rparr>"

definition Allow :: "Ratelimiter \<Rightarrow> bytes \<Rightarrow> time \<Rightarrow> Ratelimiter \<times> bool" where
  "Allow rate ip now =
    (case rate_lookup rate ip of
      None \<Rightarrow> (rate_store rate ip (fresh_entry now), True)
    | Some entry \<Rightarrow>
        let (entry, ok) = charge entry now in (rate_store rate ip entry, ok))"

text \<open>\<^verbatim>\<open>RoutineGarbageCollector\<close>: a collection per tick until the stop signal.\<close>

datatype gc_event = Stop | Tick "bytes \<Rightarrow> time" "bytes \<Rightarrow> time"

fun RoutineGarbageCollector :: "Ratelimiter \<Rightarrow> gc_event list \<Rightarrow> Ratelimiter" where
  "RoutineGarbageCollector rate [] = rate"
| "RoutineGarbageCollector rate (Stop # _) = rate"
| "RoutineGarbageCollector rate (Tick now4 now6 # evs) =
    RoutineGarbageCollector (GarbageCollectEntries now4 now6 rate) evs"

section \<open>The two tables as one\<close>

definition rate_key :: "bytes \<Rightarrow> bytes + bytes" where
  "rate_key ip = (case To4 ip of Some IPv4 \<Rightarrow> Inl IPv4 | None \<Rightarrow> Inr (key_of 16 (To16 ip)))"

definition bucket :: "Ratelimiter \<Rightarrow> bytes + bytes \<Rightarrow> RatelimiterEntry option" where
  "bucket rate k = (case k of Inl b \<Rightarrow> rl_tableIPv4 rate b | Inr b \<Rightarrow> rl_tableIPv6 rate b)"

lemma rate_lookup_bucket: "rate_lookup rate ip = bucket rate (rate_key ip)"
  by (simp add: rate_lookup_def bucket_def rate_key_def split: option.splits)

lemma bucket_store: "bucket (rate_store rate ip e) k = (if k = rate_key ip then Some e else bucket rate k)"
  by (auto simp: rate_store_def bucket_def rate_key_def split: option.splits sum.splits)

lemma bucket_gc:
  "bucket (GarbageCollectEntries now4 now6 rate) k =
    (case bucket rate k of
      None \<Rightarrow> None
    | Some e \<Rightarrow>
        if timeSub (case k of Inl b \<Rightarrow> now4 b | Inr b \<Rightarrow> now6 b) (re_lastTime e) > RatelimiterGarbageCollectTime
        then None else Some e)"
  by (simp add: GarbageCollectEntries_def bucket_def gc_table_def split: sum.splits)

lemma bucket_Init: "bucket (rl_Init now) k = None"
  by (simp add: rl_Init_def bucket_def split: sum.splits)

section \<open>The bucket over the integers\<close>

text \<open>The specification of one bucket: tokens accrue with time up to the burst.\<close>

definition refill :: "int \<Rightarrow> duration \<Rightarrow> int" where
  "refill tokens elapsed = min RatelimiterMaxTokens (tokens + elapsed)"

definition entry_ok :: "RatelimiterEntry \<Rightarrow> bool" where
  "entry_ok e \<longleftrightarrow> 0 \<le> sint (re_tokens e) \<and> sint (re_tokens e) \<le> RatelimiterMaxTokens"

lemma sint_of_small: "- (2 ^ 63) \<le> x \<Longrightarrow> x < 2 ^ 63 \<Longrightarrow> sint (word_of_int x :: 64 word) = x"
  by (simp add: signed_of_int signed_take_bit_int_eq_self)

lemma sint_add_small:
  fixes w :: "64 word"
  assumes "- (2 ^ 63) \<le> sint w + x" "sint w + x < 2 ^ 63"
  shows "sint (w + word_of_int x) = sint w + x"
proof -
  have "w + word_of_int x = word_of_int (sint w + x)" by simp
  then show ?thesis using sint_of_small [OF assms] by simp
qed

lemma charge_refines:
  assumes "entry_ok e" "re_lastTime e \<le> now" "now - re_lastTime e < 2 ^ 62"
  defines "t \<equiv> refill (sint (re_tokens e)) (now - re_lastTime e)"
  shows "snd (charge e now) \<longleftrightarrow> t > RatelimiterPacketCost"
    and "sint (re_tokens (fst (charge e now))) = (if t > RatelimiterPacketCost then t - RatelimiterPacketCost else t)"
    and "re_lastTime (fst (charge e now)) = now"
proof -
  let ?d = "now - re_lastTime e" and ?w = "re_tokens e"
  have d: "timeSub now (re_lastTime e) = ?d" using assms(2,3) by (simp add: timeSub_exact)
  have w: "0 \<le> sint ?w" "sint ?w \<le> 250000000" using assms(1) by (simp_all add: entry_ok_def rate_consts)
  have add: "sint (?w + word_of_int ?d) = sint ?w + ?d"
    using w assms(2,3) by (intro sint_add_small) simp_all
  define m where "m = (if sint (?w + word_of_int ?d) > RatelimiterMaxTokens
    then word_of_int RatelimiterMaxTokens else ?w + word_of_int ?d)"
  have m: "sint m = t"
    unfolding m_def t_def refill_def if_distrib [of sint] add
    by (simp add: rate_consts sint_of_small del: of_int_diff)
  have run: "charge e now = (if sint m > RatelimiterPacketCost
      then (\<lparr>re_lastTime = now, re_tokens = m - word_of_int RatelimiterPacketCost\<rparr>, True)
      else (\<lparr>re_lastTime = now, re_tokens = m\<rparr>, False))"
    unfolding charge_def m_def d [symmetric] by (cases e) (simp add: Let_def)
  have t: "0 \<le> t" "t \<le> 250000000" using w assms(2) by (simp_all add: t_def refill_def rate_consts)
  have "sint (m + word_of_int (- RatelimiterPacketCost)) = t - RatelimiterPacketCost"
    using t m sint_add_small [of m "- RatelimiterPacketCost"] by (simp add: rate_consts)
  then have sub: "sint (m - word_of_int RatelimiterPacketCost) = t - RatelimiterPacketCost"
    by simp
  show "snd (charge e now) \<longleftrightarrow> t > RatelimiterPacketCost"
    "sint (re_tokens (fst (charge e now))) = (if t > RatelimiterPacketCost then t - RatelimiterPacketCost else t)"
    "re_lastTime (fst (charge e now)) = now"
    unfolding run m by (simp_all add: sub m)
qed

lemma charge_ok:
  assumes "entry_ok e" "re_lastTime e \<le> now" "now - re_lastTime e < 2 ^ 62"
  shows "entry_ok (fst (charge e now))"
  using assms(1,2) unfolding entry_ok_def charge_refines(2) [OF assms]
  by (auto simp: refill_def rate_consts min_def)

lemma fresh_ok: "entry_ok (fresh_entry now)" "sint (re_tokens (fresh_entry now)) = 200000000"
  "re_lastTime (fresh_entry now) = now"
  by (simp_all add: entry_ok_def fresh_entry_def rate_consts)
section \<open>The interface of a rate limiter\<close>

text \<open>
  \<open>pot s k t\<close> is what client \<open>k\<close> could spend at time \<open>t\<close>: it never exceeds the
  burst, grows no faster than time, and each admitted packet of \<open>k\<close> costs \<open>cost\<close>.
\<close>

locale limiter =
  fixes step :: "'s \<Rightarrow> 'e \<Rightarrow> 's \<times> bool"
    and at :: "'e \<Rightarrow> time"
    and who :: "'e \<Rightarrow> 'k option"
    and pot :: "'s \<Rightarrow> 'k \<Rightarrow> time \<Rightarrow> int"
    and inv :: "'s \<Rightarrow> time \<Rightarrow> bool"
    and valid :: "'e \<Rightarrow> bool"
    and cost burst :: int
    and horizon :: time
  assumes pot_burst: "pot s k t \<le> burst"
    and pot_nonneg: "inv s t \<Longrightarrow> 0 \<le> pot s k t"
    and pot_elapse: "t \<le> u \<Longrightarrow> pot s k u \<le> pot s k t + (u - t)"
    and step_inv: "inv s t \<Longrightarrow> t \<le> at e \<Longrightarrow> at e \<le> horizon \<Longrightarrow> valid e \<Longrightarrow> inv (fst (step s e)) (at e)"
    and step_pot: "inv s t \<Longrightarrow> t \<le> at e \<Longrightarrow> at e \<le> horizon \<Longrightarrow> valid e \<Longrightarrow>
      pot (fst (step s e)) k (at e) \<le> pot s k (at e) - (if who e = Some k \<and> snd (step s e) then cost else 0)"

primrec admitted ::
  "('s \<Rightarrow> 'e \<Rightarrow> 's \<times> bool) \<Rightarrow> ('e \<Rightarrow> 'k option) \<Rightarrow> 'k \<Rightarrow> 's \<Rightarrow> 'e list \<Rightarrow> nat" where
  "admitted step who k s [] = 0"
| "admitted step who k s (e # es) =
    (if who e = Some k \<and> snd (step s e) then 1 else 0) + admitted step who k (fst (step s e)) es"

context limiter
begin

lemma admitted_pot:
  "inv s t \<Longrightarrow> sorted (t # map at es) \<Longrightarrow> \<forall>e \<in> set es. at e \<le> T \<and> valid e \<Longrightarrow> t \<le> T \<Longrightarrow> T \<le> horizon \<Longrightarrow>
    cost * int (admitted step who k s es) \<le> pot s k t + (T - t)"
proof (induction es arbitrary: s t)
  case Nil
  with pot_nonneg [of s t k] show ?case by simp
next
  case (Cons e es)
  have at: "t \<le> at e" "at e \<le> T" "at e \<le> horizon" "valid e" using Cons.prems by auto
  have "cost * int (admitted step who k (fst (step s e)) es) \<le> pot (fst (step s e)) k (at e) + (T - at e)"
    using Cons.prems at by (intro Cons.IH step_inv) auto
  moreover have "pot s k (at e) \<le> pot s k t + (at e - t)" by (rule pot_elapse [OF at(1)])
  ultimately show ?case
    using step_pot [OF Cons.prems(1) at(1,3,4), of k] by (auto simp: algebra_simps)
qed

lemma rate_bound:
  "inv s t \<Longrightarrow> sorted (t # map at es) \<Longrightarrow> \<forall>e \<in> set es. at e \<le> T \<and> valid e \<Longrightarrow> t \<le> T \<Longrightarrow> T \<le> horizon \<Longrightarrow>
    cost * int (admitted step who k s es) \<le> burst + (T - t)"
  using admitted_pot [of s t es T k] pot_burst [of s k t] by auto

end

section \<open>The rate limiter keeps the interface\<close>

text \<open>
  What happens to the limiter: a packet from an address, or a collection whose clock readings
  are not later than the event.
\<close>

datatype rate_event = Packet bytes time | Collect "bytes \<Rightarrow> time" "bytes \<Rightarrow> time" time

fun rate_step :: "Ratelimiter \<Rightarrow> rate_event \<Rightarrow> Ratelimiter \<times> bool" where
  "rate_step rate (Packet ip now) = Allow rate ip now"
| "rate_step rate (Collect now4 now6 now) = (GarbageCollectEntries now4 now6 rate, False)"

fun rate_at :: "rate_event \<Rightarrow> time" where
  "rate_at (Packet ip now) = now"
| "rate_at (Collect now4 now6 now) = now"

fun rate_who :: "rate_event \<Rightarrow> (bytes + bytes) option" where
  "rate_who (Packet ip now) = Some (rate_key ip)"
| "rate_who (Collect now4 now6 now) = None"

fun rate_valid :: "rate_event \<Rightarrow> bool" where
  "rate_valid (Packet ip now) = True"
| "rate_valid (Collect now4 now6 now) = ((\<forall>b. now4 b \<le> now) \<and> (\<forall>b. now6 b \<le> now))"

definition rate_inv :: "time \<Rightarrow> Ratelimiter \<Rightarrow> time \<Rightarrow> bool" where
  "rate_inv horizon rate t \<longleftrightarrow> horizon - t < 2 ^ 62 \<and>
    (\<forall>k e. bucket rate k = Some e \<longrightarrow> entry_ok e \<and> re_lastTime e \<le> t \<and> horizon - re_lastTime e < 2 ^ 62)"

definition potential :: "Ratelimiter \<Rightarrow> bytes + bytes \<Rightarrow> time \<Rightarrow> int" where
  "potential rate k t =
    (case bucket rate k of
      None \<Rightarrow> RatelimiterMaxTokens
    | Some e \<Rightarrow> refill (sint (re_tokens e)) (t - re_lastTime e))"

lemma Allow_bucket:
  "bucket (fst (Allow rate ip now)) k =
    (if k = rate_key ip then Some (case bucket rate k of
      None \<Rightarrow> fresh_entry now | Some e \<Rightarrow> fst (charge e now)) else bucket rate k)"
  "snd (Allow rate ip now) =
    (case bucket rate (rate_key ip) of None \<Rightarrow> True | Some e \<Rightarrow> snd (charge e now))"
  by (auto simp: Allow_def rate_lookup_bucket bucket_store split_beta Let_def split: option.split)

lemma rate_step_inv:
  assumes inv: "rate_inv h rate t" and at: "t \<le> rate_at ev" "rate_at ev \<le> h"
  shows "rate_inv h (fst (rate_step rate ev)) (rate_at ev)"
proof (cases ev)
  case (Packet ip now)
  have "entry_ok e' \<and> re_lastTime e' \<le> now \<and> h - re_lastTime e' < 2 ^ 62"
    if "bucket (fst (Allow rate ip now)) k = Some e'" for k e'
  proof (cases "k = rate_key ip")
    case False
    with that inv at Packet show ?thesis by (force simp: Allow_bucket rate_inv_def)
  next
    case True
    show ?thesis
    proof (cases "bucket rate k")
      case None
      with True that inv at Packet have "e' = fresh_entry now" "t \<le> now" "h - t < 2 ^ 62"
        by (simp_all add: Allow_bucket rate_inv_def)
      then show ?thesis by (simp add: fresh_ok)
    next
      case (Some e)
      with inv have e: "entry_ok e" "re_lastTime e \<le> t" "h - re_lastTime e < 2 ^ 62"
        by (auto simp: rate_inv_def)
      with at Packet have "re_lastTime e \<le> now" "now - re_lastTime e < 2 ^ 62" by simp_all
      note ref = charge_ok [OF e(1) this] charge_refines(3) [OF e(1) this]
      with Some True that inv at Packet show ?thesis by (auto simp: Allow_bucket rate_inv_def)
    qed
  qed
  with inv at Packet show ?thesis by (simp add: rate_inv_def)
next
  case (Collect now4 now6 now)
  have "entry_ok e' \<and> re_lastTime e' \<le> now \<and> h - re_lastTime e' < 2 ^ 62"
    if "bucket (GarbageCollectEntries now4 now6 rate) k = Some e'" for k e'
  proof -
    from that have "bucket rate k = Some e'" by (auto simp: bucket_gc split: option.splits if_splits)
    with inv at Collect show ?thesis by (force simp: rate_inv_def)
  qed
  with inv at Collect show ?thesis by (simp add: rate_inv_def)
qed

lemma rate_step_pot:
  assumes inv: "rate_inv h rate t" and at: "t \<le> rate_at ev" "rate_at ev \<le> h" and valid: "rate_valid ev"
  shows "potential (fst (rate_step rate ev)) k (rate_at ev) \<le> potential rate k (rate_at ev) -
    (if rate_who ev = Some k \<and> snd (rate_step rate ev) then RatelimiterPacketCost else 0)"
proof (cases ev)
  case (Packet ip now)
  show ?thesis
  proof (cases "k = rate_key ip")
    case False
    with Packet show ?thesis by (simp add: potential_def Allow_bucket)
  next
    case True
    show ?thesis
    proof (cases "bucket rate k")
      case None
      with True Packet show ?thesis
        by (simp add: potential_def Allow_bucket fresh_ok refill_def rate_consts)
    next
      case (Some e)
      with inv have e: "entry_ok e" "re_lastTime e \<le> t" "h - re_lastTime e < 2 ^ 62"
        by (auto simp: rate_inv_def)
      with at Packet have "re_lastTime e \<le> now" "now - re_lastTime e < 2 ^ 62" by simp_all
      note ref = charge_refines [OF e(1) this]
      from Some True Packet show ?thesis
        by (simp add: potential_def Allow_bucket ref) (simp add: refill_def rate_consts)
    qed
  qed
next
  case (Collect now4 now6 now)
  show ?thesis
  proof (cases "bucket rate k")
    case None
    with Collect show ?thesis by (simp add: potential_def bucket_gc)
  next
    case (Some e)
    with inv have e: "entry_ok e" by (auto simp: rate_inv_def)
    define r where "r = (case k of Inl b \<Rightarrow> now4 b | Inr b \<Rightarrow> now6 b)"
    have r: "r \<le> now" using valid Collect by (simp add: r_def split: sum.splits)
    show ?thesis
    proof (cases "timeSub r (re_lastTime e) > RatelimiterGarbageCollectTime")
      case True
      then have "r - re_lastTime e > 1000000000"
        using timeSub_gt_iff [of RatelimiterGarbageCollectTime] by (simp add: rate_consts)
      with e r have "refill (sint (re_tokens e)) (now - re_lastTime e) = RatelimiterMaxTokens"
        by (simp add: refill_def entry_ok_def rate_consts)
      with True Some Collect show ?thesis by (simp add: potential_def bucket_gc r_def [symmetric])
    next
      case False
      with Some Collect show ?thesis by (simp add: potential_def bucket_gc r_def [symmetric])
    qed
  qed
qed

interpretation rl: limiter rate_step rate_at rate_who potential "rate_inv h" rate_valid
    RatelimiterPacketCost RatelimiterMaxTokens h for h
proof unfold_locales
  show "potential s k t \<le> RatelimiterMaxTokens" for s k t
    by (auto simp: potential_def refill_def split: option.splits)
  show "0 \<le> potential s k t" if "rate_inv h s t" for s k t
    using that by (auto simp: potential_def refill_def rate_inv_def entry_ok_def rate_consts
        split: option.splits)
  show "potential s k u \<le> potential s k t + (u - t)" if "t \<le> u" for s k t u
    using that by (auto simp: potential_def refill_def split: option.splits)
qed (blast intro: rate_step_inv rate_step_pot)+
section \<open>Properties\<close>

text \<open>
  C17: no address is admitted more often than the burst of five packets plus twenty a second:
  over any sequence of packets from any addresses, mixed with garbage collections in any place,
  the packets admitted from one address between \<open>t\<close> and \<open>T\<close> cost at most the five
  tokens of the burst and the time passed. The limiter may start with any valid entries; the
  hypothesis on the horizon keeps the token counter below the \<^verbatim>\<open>int64\<close> wrap-around.
\<close>

theorem ratelimiter_rate_bound:
  assumes "rate_inv T rate t" "sorted (t # map rate_at evs)" "t \<le> T"
    "\<forall>ev \<in> set evs. rate_at ev \<le> T \<and> rate_valid ev"
  shows "RatelimiterPacketCost * int (admitted rate_step rate_who (rate_key ip) rate evs) \<le>
    RatelimiterPacketCost * RatelimiterPacketsBurstable + (T - t)"
  using rl.rate_bound [OF assms(1,2,4,3) order_refl, of "rate_key ip"]
  by (simp add: RatelimiterMaxTokens_def)

definition rate_trace :: "rate_event list" where
  "rate_trace = [Packet [10, 0, 0, 1] 5, Packet [10, 0, 0, 1] 6, Collect (\<lambda>_. 7) (\<lambda>_. 7) 7, Packet [10, 0, 0, 2] 8]"

theorem ratelimiter_rate_bound_witness:
  "RatelimiterPacketCost * int (admitted rate_step rate_who (rate_key [10, 0, 0, 1]) (rl_Init 0) rate_trace) \<le>
    RatelimiterPacketCost * RatelimiterPacketsBurstable + (10 - 0)"
  by (rule ratelimiter_rate_bound [where T = 10 and t = 0])
     (simp_all add: rate_trace_def rate_inv_def bucket_Init)


definition drained :: Ratelimiter where
  "drained = \<lparr>rl_lastGarbageCollect = 0,
    rl_tableIPv4 = [[10, 0, 0, 1] \<mapsto> \<lparr>re_lastTime = 0, re_tokens = 0\<rparr>], rl_tableIPv6 = Map.empty\<rparr>"

end
