(* ===== verification/Noise_State.thy ===== *)
theory Noise_State
  imports Cookie Index_Table Replay Routing Ratelimiter
begin

text \<open>
  The state of the controller: the structures of \<^verbatim>\<open>controller/device.go\<close>,
  \<^verbatim>\<open>controller/peer.go\<close>, \<^verbatim>\<open>controller/keypair.go\<close> and the handshake of
  \<^verbatim>\<open>controller/noise_protocol.go\<close>. Peers, key pairs and queue elements are shared by
  reference in the source; here they are named by numbers and live in stores of the device. An
  AEAD object is its key. A nil channel is a channel without room: every non-blocking operation
  on either takes its default.
\<close>

type_synonym pid = nat
type_synonym kid = nat

section \<open>Handshakes and key pairs\<close>

datatype handshake_state = HandshakeZeroed | HandshakeInitiationCreated | HandshakeInitiationConsumed
  | HandshakeResponseCreated | HandshakeResponseConsumed

record Handshake =
  hs_state :: handshake_state
  hs_hash :: bytes
  hs_chainKey :: bytes
  hs_presharedKey :: bytes
  hs_localEphemeral :: bytes
  hs_localIndex :: u32
  hs_remoteIndex :: u32
  hs_remoteStatic :: bytes
  hs_remoteEphemeral :: bytes
  hs_precomputedStaticStatic :: bytes
  hs_lastTimestamp :: bytes
  hs_lastInitiationConsumption :: time

record KeyPair =
  kp_send :: bytes
  kp_receive :: bytes
  kp_replayFilter :: ReplayFilter
  kp_sendNonce :: u64
  kp_isInitiator :: bool
  kp_created :: time
  kp_localIndex :: u32
  kp_remoteIndex :: u32

record KeyPairs =
  ks_current :: "kid option"
  ks_previous :: "kid option"
  ks_next :: "kid option"

section \<open>Peers\<close>

record PeerSignals =
  sg_newKeyPair :: "unit chan"
  sg_handshakeBegin :: "unit chan"
  sg_handshakeCompleted :: "unit chan"
  sg_handshakeReset :: "unit chan"
  sg_flushNonceQueue :: "unit chan"
  sg_stopped :: bool

text \<open>A timer that was never made is None.\<close>

record PeerTimers =
  tm_keepalivePersistent :: "timer option"
  tm_keepalivePassive :: "timer option"
  tm_newHandshake :: "timer option"
  tm_zeroAllKeys :: "timer option"
  tm_handshakeDeadline :: "timer option"
  tm_pendingKeepalivePassive :: bool
  tm_pendingNewHandshake :: bool
  tm_pendingZeroAllKeys :: bool
  tm_needAnotherKeepalive :: bool
  tm_sendLastMinuteHandshake :: bool

record Peer =
  p_persistentKeepaliveInterval :: u32
  p_keyPairs :: KeyPairs
  p_handshake :: Handshake
  p_hasDevice :: bool
  p_endpoint :: "UDPAddr option"
  p_signal :: PeerSignals
  p_timer :: PeerTimers
  p_nonce :: "eid chan"
  p_outbound :: "eid chan"
  p_inbound :: "eid chan"
  p_mac :: CookieGenerator

definition zero_handshake :: Handshake where
  "zero_handshake = \<lparr>hs_state = HandshakeZeroed, hs_hash = replicate 32 0, hs_chainKey = replicate 32 0,
    hs_presharedKey = replicate 32 0, hs_localEphemeral = replicate 32 0, hs_localIndex = 0,
    hs_remoteIndex = 0, hs_remoteStatic = replicate 32 0, hs_remoteEphemeral = replicate 32 0,
    hs_precomputedStaticStatic = replicate 32 0, hs_lastTimestamp = replicate 12 0,
    hs_lastInitiationConsumption = zeroTime\<rparr>"

definition zero_signals :: PeerSignals where
  "zero_signals = \<lparr>sg_newKeyPair = make_chan 0, sg_handshakeBegin = make_chan 0,
    sg_handshakeCompleted = make_chan 0, sg_handshakeReset = make_chan 0,
    sg_flushNonceQueue = make_chan 0, sg_stopped = False\<rparr>"

definition zero_timers :: PeerTimers where
  "zero_timers = \<lparr>tm_keepalivePersistent = None, tm_keepalivePassive = None, tm_newHandshake = None,
    tm_zeroAllKeys = None, tm_handshakeDeadline = None, tm_pendingKeepalivePassive = False,
    tm_pendingNewHandshake = False, tm_pendingZeroAllKeys = False, tm_needAnotherKeepalive = False,
    tm_sendLastMinuteHandshake = False\<rparr>"

definition zero_peer :: Peer where
  "zero_peer = \<lparr>p_persistentKeepaliveInterval = 0,
    p_keyPairs = \<lparr>ks_current = None, ks_previous = None, ks_next = None\<rparr>,
    p_handshake = zero_handshake, p_hasDevice = False, p_endpoint = None,
    p_signal = zero_signals, p_timer = zero_timers, p_nonce = make_chan 0,
    p_outbound = make_chan 0, p_inbound = make_chan 0, p_mac = new_CookieGenerator\<rparr>"

section \<open>The device\<close>

text \<open>
  The fields from \<open>st_peer\<close> on are the stores: peers, key pairs, outbound and inbound elements,
  the first unused name of each kind of object and the pool of message buffers; the last two
  record what was written to the UDP socket and to the TUN device, in order.
\<close>

record Device =
  dv_mtu :: int
  dv_conn :: "UDPAddr option"
  dv_privateKey :: bytes
  dv_publicKey :: bytes
  dv_routingTable :: "pid RoutingTable"
  dv_indices :: "(pid, kid) index_table"
  dv_encryption :: "eid chan"
  dv_decryption :: "eid chan"
  dv_handshakeQueue :: "QueueHandshakeElement chan"
  dv_newUDPConn :: "unit chan"
  dv_stopped :: bool
  dv_underLoadUntil :: time
  dv_ratelimiter :: Ratelimiter
  dv_peers :: "pid option"
  dv_mac :: CookieChecker
  st_peer :: "pid \<Rightarrow> Peer"
  st_keyPair :: "kid \<Rightarrow> KeyPair"
  st_out :: "(pid, kid) outbound_store"
  st_in :: "kid inbound_store"
  st_nextPeer :: pid
  st_nextKeyPair :: kid
  st_nextElem :: eid
  st_pool :: "nat list"
  st_nextBuffer :: nat
  st_sent :: "(UDPAddr \<times> bytes) list"
  st_tun :: "bytes list"

text \<open>The zero value of the structure, with every store at its first unused name.\<close>

definition zero_device :: Device where
  "zero_device = \<lparr>dv_mtu = 0, dv_conn = None, dv_privateKey = replicate 32 0,
    dv_publicKey = replicate 32 0, dv_routingTable = \<lparr>rt_IPv4 = Nil_Trie, rt_IPv6 = Nil_Trie\<rparr>, dv_indices = Map.empty,
    dv_encryption = make_chan 0, dv_decryption = make_chan 0, dv_handshakeQueue = make_chan 0,
    dv_newUDPConn = make_chan 0, dv_stopped = False, dv_underLoadUntil = zeroTime,
    dv_ratelimiter = rl_Init zeroTime, dv_peers = None, dv_mac = new_CookieChecker,
    st_peer = (\<lambda>_. zero_peer),
    st_keyPair = (\<lambda>_. \<lparr>kp_send = [], kp_receive = [], kp_replayFilter = zero_filter, kp_sendNonce = 0,
      kp_isInitiator = False, kp_created = zeroTime, kp_localIndex = 0, kp_remoteIndex = 0\<rparr>),
    st_out = (\<lambda>_. \<lparr>qo_dropped = False, qo_locked = False, qo_buffer = 0, qo_offset = 0, qo_packet = [],
      qo_nonce = 0, qo_keyPair = None, qo_peer = None\<rparr>),
    st_in = (\<lambda>_. \<lparr>qi_dropped = False, qi_locked = False, qi_buffer = 0, qi_packet = [],
      qi_counter = 0, qi_keyPair = None\<rparr>),
    st_nextPeer = 0, st_nextKeyPair = 0, st_nextElem = 0, st_pool = [],
    st_nextBuffer = 0, st_sent = [], st_tun = []\<rparr>"

section \<open>Updates through a pointer\<close>

definition upd_peer :: "Device \<Rightarrow> pid \<Rightarrow> (Peer \<Rightarrow> Peer) \<Rightarrow> Device" where
  "upd_peer D p f = D\<lparr>st_peer := (st_peer D)(p := f (st_peer D p))\<rparr>"

definition upd_keyPair :: "Device \<Rightarrow> kid \<Rightarrow> (KeyPair \<Rightarrow> KeyPair) \<Rightarrow> Device" where
  "upd_keyPair D k f = D\<lparr>st_keyPair := (st_keyPair D)(k := f (st_keyPair D k))\<rparr>"

definition handshake_of :: "Device \<Rightarrow> pid \<Rightarrow> Handshake" where
  "handshake_of D p = p_handshake (st_peer D p)"

definition set_handshake :: "Device \<Rightarrow> pid \<Rightarrow> Handshake \<Rightarrow> Device" where
  "set_handshake D p hs = upd_peer D p (\<lambda>peer. peer\<lparr>p_handshake := hs\<rparr>)"

definition keyPairs_of :: "Device \<Rightarrow> pid \<Rightarrow> KeyPairs" where
  "keyPairs_of D p = p_keyPairs (st_peer D p)"

definition set_keyPairs :: "Device \<Rightarrow> pid \<Rightarrow> KeyPairs \<Rightarrow> Device" where
  "set_keyPairs D p ks = upd_peer D p (\<lambda>peer. peer\<lparr>p_keyPairs := ks\<rparr>)"

definition upd_signal :: "Device \<Rightarrow> pid \<Rightarrow> (PeerSignals \<Rightarrow> PeerSignals) \<Rightarrow> Device" where
  "upd_signal D p f = upd_peer D p (\<lambda>peer. peer\<lparr>p_signal := f (p_signal peer)\<rparr>)"

definition upd_timer :: "Device \<Rightarrow> pid \<Rightarrow> (PeerTimers \<Rightarrow> PeerTimers) \<Rightarrow> Device" where
  "upd_timer D p f = upd_peer D p (\<lambda>peer. peer\<lparr>p_timer := f (p_timer peer)\<rparr>)"

definition Current :: "Device \<Rightarrow> pid \<Rightarrow> kid option" where
  "Current D p = ks_current (keyPairs_of D p)"

text \<open>\<^verbatim>\<open>DeleteKeyPair\<close> dereferences its argument: nil panics.\<close>

definition DeleteKeyPair :: "Device \<Rightarrow> kid option \<Rightarrow> Device option" where
  "DeleteKeyPair D key =
    (case key of
      None \<Rightarrow> None
    | Some k \<Rightarrow> Some (D\<lparr>dv_indices := it_Delete (dv_indices D) (kp_localIndex (st_keyPair D k))\<rparr>))"

definition LookupPeer :: "Device \<Rightarrow> pid option" where
  "LookupPeer D = dv_peers D"

named_theorems state_simps \<open>reading the device after an update through a pointer\<close>

lemma handshake_of_set [simp, state_simps]:
  "handshake_of (set_handshake D p hs) q = (if q = p then hs else handshake_of D q)"
  "handshake_of (set_keyPairs D p ks) q = handshake_of D q"
  "handshake_of (upd_signal D p f) q = handshake_of D q"
  "handshake_of (upd_timer D p g) q = handshake_of D q"
  "handshake_of (upd_keyPair D k h) q = handshake_of D q"
  by (simp_all add: handshake_of_def set_handshake_def set_keyPairs_def upd_signal_def upd_timer_def
      upd_peer_def upd_keyPair_def)

lemma keyPairs_of_set [simp, state_simps]:
  "keyPairs_of (set_keyPairs D p ks) q = (if q = p then ks else keyPairs_of D q)"
  "keyPairs_of (set_handshake D p hs) q = keyPairs_of D q"
  "keyPairs_of (upd_signal D p f) q = keyPairs_of D q"
  "keyPairs_of (upd_timer D p g) q = keyPairs_of D q"
  "keyPairs_of (upd_keyPair D k h) q = keyPairs_of D q"
  by (simp_all add: keyPairs_of_def set_handshake_def set_keyPairs_def upd_signal_def upd_timer_def
      upd_peer_def upd_keyPair_def)

lemma indices_set [simp, state_simps]:
  "dv_indices (set_handshake D p hs) = dv_indices D"
  "dv_indices (set_keyPairs D p ks) = dv_indices D"
  "dv_indices (upd_signal D p f) = dv_indices D"
  "dv_indices (upd_timer D p g) = dv_indices D"
  "dv_indices (upd_keyPair D k h) = dv_indices D"
  by (simp_all add: set_handshake_def set_keyPairs_def upd_signal_def upd_timer_def
      upd_peer_def upd_keyPair_def)

lemma keyPair_store_set [simp, state_simps]:
  "st_keyPair (set_handshake D p hs) = st_keyPair D"
  "st_keyPair (set_keyPairs D p ks) = st_keyPair D"
  "st_keyPair (upd_signal D p f) = st_keyPair D"
  "st_keyPair (upd_timer D p g) = st_keyPair D"
  "st_keyPair (upd_keyPair D k h) = (st_keyPair D)(k := h (st_keyPair D k))"
  by (simp_all add: set_handshake_def set_keyPairs_def upd_signal_def upd_timer_def
      upd_peer_def upd_keyPair_def)

lemma device_fields_set [simp, state_simps]:
  "dv_privateKey (set_handshake D p hs) = dv_privateKey D"
  "dv_publicKey (set_handshake D p hs) = dv_publicKey D"
  "dv_peers (set_handshake D p hs) = dv_peers D"
  "st_nextKeyPair (set_handshake D p hs) = st_nextKeyPair D"
  "dv_privateKey (set_keyPairs D p ks) = dv_privateKey D"
  "dv_publicKey (set_keyPairs D p ks) = dv_publicKey D"
  "dv_peers (set_keyPairs D p ks) = dv_peers D"
  "st_nextKeyPair (set_keyPairs D p ks) = st_nextKeyPair D"
  "dv_privateKey (upd_signal D p f) = dv_privateKey D"
  "dv_publicKey (upd_signal D p f) = dv_publicKey D"
  "dv_peers (upd_signal D p f) = dv_peers D"
  "st_nextKeyPair (upd_signal D p f) = st_nextKeyPair D"
  by (simp_all add: set_handshake_def set_keyPairs_def upd_signal_def upd_peer_def)

lemma st_peer_set:
  "st_peer (upd_peer D p f) q = (if q = p then f (st_peer D p) else st_peer D q)"
  by (simp add: upd_peer_def)

lemma of_field_updates [simp, state_simps]:
  "handshake_of (D\<lparr>dv_indices := t\<rparr>) q = handshake_of D q"
  "keyPairs_of (D\<lparr>dv_indices := t\<rparr>) q = keyPairs_of D q"
  "handshake_of (D\<lparr>st_keyPair := s\<rparr>) q = handshake_of D q"
  "keyPairs_of (D\<lparr>st_keyPair := s\<rparr>) q = keyPairs_of D q"
  "handshake_of (D\<lparr>st_nextKeyPair := n\<rparr>) q = handshake_of D q"
  "keyPairs_of (D\<lparr>st_nextKeyPair := n\<rparr>) q = keyPairs_of D q"
  by (simp_all add: handshake_of_def keyPairs_of_def)

end
