(* ===== verification/Noise_Protocol.thy ===== *)
theory Noise_Protocol
  imports Noise_State
begin

text \<open>
  The Noise IKpsk2 handshake of \<^verbatim>\<open>controller/noise_protocol.go\<close>: the four message
  operations and the derivation of a key pair from a finished handshake.
\<close>

section \<open>Symmetric state\<close>

definition NoiseConstruction :: bytes where
  "NoiseConstruction = ascii ''Noise_IKpsk2_25519_ChaChaPoly_BLAKE2s''"
definition WGIdentifier :: bytes where
  "WGIdentifier = ascii ''BT LfYxehcmSfAQVzt3tiQSskuHbcS7o91''"

definition InitialChainKey :: "crypto \<Rightarrow> bytes" where
  "InitialChainKey C = blake2s C NoiseConstruction"
definition InitialHash :: "crypto \<Rightarrow> bytes" where
  "InitialHash C = mixHash C (InitialChainKey C) WGIdentifier"
definition ZeroNonce :: bytes where "ZeroNonce = replicate 12 0"

definition hs_Clear :: "Handshake \<Rightarrow> Handshake" where
  "hs_Clear h = h\<lparr>
    hs_localEphemeral := setZero (hs_localEphemeral h),
    hs_remoteEphemeral := setZero (hs_remoteEphemeral h),
    hs_chainKey := setZero (hs_chainKey h),
    hs_hash := setZero (hs_hash h),
    hs_localIndex := 0,
    hs_state := HandshakeZeroed\<rparr>"

definition hs_mixHash :: "crypto \<Rightarrow> Handshake \<Rightarrow> bytes \<Rightarrow> Handshake" where
  "hs_mixHash C h data = h\<lparr>hs_hash := mixHash C (hs_hash h) data\<rparr>"

definition hs_mixKey :: "crypto \<Rightarrow> Handshake \<Rightarrow> bytes \<Rightarrow> Handshake" where
  "hs_mixKey C h data = h\<lparr>hs_chainKey := mixKey C (hs_chainKey h) data\<rparr>"

text \<open>The package variables the extra fields of an initiation are filled from.\<close>

record globals =
  gl_Ts :: u32
  gl_Sign :: string
  gl_AllowIp :: "bytes option"
  gl_Netmask :: u32

datatype noise_error = Static_shared_secret_is_zero | Random_source_failed | Initiation_not_consumed

section \<open>The initiator's message\<close>

text \<open>
  \<open>rnd\<close> is the read of \<^verbatim>\<open>newPrivateKey\<close> and whether it failed, \<open>ds\<close> the draws of
  \<^verbatim>\<open>NewIndex\<close>, \<open>now\<close> the clock of \<^verbatim>\<open>Timestamp\<close>. The result is None when the
  draws do not end the loop of \<^verbatim>\<open>NewIndex\<close>; an error leaves what was changed before it.
\<close>

definition CreateMessageInitiation ::
  "crypto \<Rightarrow> globals \<Rightarrow> Device \<Rightarrow> pid \<Rightarrow> bytes \<times> bool \<Rightarrow> (pid, kid) draw list \<Rightarrow> time \<Rightarrow>
    (Device \<times> (noise_error + MessageInitiation)) option" where
  "CreateMessageInitiation C gl D peer rnd ds now =
    (let h = handshake_of D peer in
     if isZero (hs_precomputedStaticStatic h) then Some (D, Inl Static_shared_secret_is_zero)
     else
       let (sk, err) = newPrivateKey (fst rnd) (snd rnd);
           h = h\<lparr>hs_hash := InitialHash C, hs_chainKey := InitialChainKey C, hs_localEphemeral := sk\<rparr>
       in if err then Some (set_handshake D peer h, Inl Random_source_failed)
       else case NewIndex (it_Delete (dv_indices D) (hs_localIndex h)) peer ds of
         None \<Rightarrow> None
       | Some (table, index, err, _) \<Rightarrow>
           let D = D\<lparr>dv_indices := table\<rparr>;
               h = h\<lparr>hs_localIndex := index\<rparr>
           in if err then Some (set_handshake D peer h, Inl Random_source_failed)
           else
             let h = hs_mixHash C h (hs_remoteStatic h);
                 ephemeral = publicKey C (hs_localEphemeral h);
                 h = hs_mixKey C h ephemeral;
                 h = hs_mixHash C h ephemeral;
                 ss = sharedSecret C (hs_localEphemeral h) (hs_remoteStatic h);
                 (chainKey, key) = KDF2 C (hs_chainKey h) ss;
                 h = h\<lparr>hs_chainKey := chainKey\<rparr>;
                 static = aead_seal C key ZeroNonce (dv_publicKey D) (hs_hash h);
                 h = hs_mixHash C h static;
                 (chainKey, key) = KDF2 C (hs_chainKey h) (hs_precomputedStaticStatic h);
                 h = h\<lparr>hs_chainKey := chainKey\<rparr>;
                 timestamp = aead_seal C key ZeroNonce (Timestamp now) (hs_hash h);
                 h = hs_mixHash C h timestamp;
                 msg = \<lparr>mi_Type = MessageInitiationType, mi_Sender = hs_localIndex h,
                   mi_Ephemeral = ephemeral, mi_Static = static, mi_Timestamp = timestamp,
                   mi_Ts = newTimestampData (gl_Ts gl), mi_Sign = newSignData (gl_Sign gl),
                   mi_AllowIp = newAllowIpData (gl_AllowIp gl),
                   mi_Netmask = newNetmaskData (gl_Netmask gl),
                   mi_MAC1 = replicate 16 0, mi_MAC2 = replicate 16 0\<rparr>;
                 h = h\<lparr>hs_state := HandshakeInitiationCreated\<rparr>
             in Some (set_handshake D peer h, Inr msg))"

text \<open>
  The two clock readings are the check of the flood limit and the time recorded. The nil peer
  is None. The decrypted static key of the initiator is not used.
\<close>

definition ConsumeMessageInitiation ::
  "crypto \<Rightarrow> Device \<Rightarrow> MessageInitiation \<Rightarrow> time \<Rightarrow> time \<Rightarrow> Device \<times> pid option" where
  "ConsumeMessageInitiation C D msg now now2 =
    (if mi_Type msg \<noteq> MessageInitiationType then (D, None)
     else
       let hash = mixHash C (InitialHash C) (dv_publicKey D);
           hash = mixHash C hash (mi_Ephemeral msg);
           chainKey = mixKey C (InitialChainKey C) (mi_Ephemeral msg);
           ss = sharedSecret C (dv_privateKey D) (mi_Ephemeral msg);
           (chainKey, key) = KDF2 C chainKey ss
       in case aead_open C key ZeroNonce (mi_Static msg) hash of
            None \<Rightarrow> (D, None)
          | Some peerPK \<Rightarrow>
            let hash = mixHash C hash (mi_Static msg) in
            case LookupPeer D of
              None \<Rightarrow> (D, None)
            | Some peer \<Rightarrow>
              let h = handshake_of D peer in
              if isZero (hs_precomputedStaticStatic h) then (D, None)
              else
                let (chainKey, key) = KDF2 C chainKey (hs_precomputedStaticStatic h) in
                case aead_open C key ZeroNonce (mi_Timestamp msg) hash of
                  None \<Rightarrow> (D, None)
                | Some timestamp \<Rightarrow>
                  let hash = mixHash C hash (mi_Timestamp msg);
                      ok = tai_After timestamp (hs_lastTimestamp h);
                      ok = (ok \<and> timeSub now (hs_lastInitiationConsumption h) > HandshakeInitationRate)
                  in if \<not> ok then (D, None)
                     else (set_handshake D peer (h\<lparr>
                             hs_hash := hash,
                             hs_chainKey := chainKey,
                             hs_remoteIndex := mi_Sender msg,
                             hs_remoteEphemeral := mi_Ephemeral msg,
                             hs_lastTimestamp := timestamp,
                             hs_lastInitiationConsumption := now2,
                             hs_state := HandshakeInitiationConsumed\<rparr>), Some peer))"

section \<open>The responder's message\<close>

definition CreateMessageResponse ::
  "crypto \<Rightarrow> Device \<Rightarrow> pid \<Rightarrow> bytes \<times> bool \<Rightarrow> (pid, kid) draw list \<Rightarrow>
    (Device \<times> (noise_error + MessageResponse)) option" where
  "CreateMessageResponse C D peer rnd ds =
    (let h = handshake_of D peer in
     if hs_state h \<noteq> HandshakeInitiationConsumed then Some (D, Inl Initiation_not_consumed)
     else case NewIndex (it_Delete (dv_indices D) (hs_localIndex h)) peer ds of
       None \<Rightarrow> None
     | Some (table, index, err, _) \<Rightarrow>
         let D = D\<lparr>dv_indices := table\<rparr>;
             h = h\<lparr>hs_localIndex := index\<rparr>
         in if err then Some (set_handshake D peer h, Inl Random_source_failed)
         else
           let (sk, err) = newPrivateKey (fst rnd) (snd rnd);
               h = h\<lparr>hs_localEphemeral := sk\<rparr>
           in if err then Some (set_handshake D peer h, Inl Random_source_failed)
           else
             let ephemeral = publicKey C (hs_localEphemeral h);
                 h = hs_mixHash C h ephemeral;
                 h = hs_mixKey C h ephemeral;
                 h = hs_mixKey C h (sharedSecret C (hs_localEphemeral h) (hs_remoteEphemeral h));
                 h = hs_mixKey C h (sharedSecret C (hs_localEphemeral h) (hs_remoteStatic h));
                 (chainKey, tau, key) = KDF3 C (hs_chainKey h) (hs_presharedKey h);
                 h = h\<lparr>hs_chainKey := chainKey\<rparr>;
                 h = hs_mixHash C h tau;
                 empty = aead_seal C key ZeroNonce [] (hs_hash h);
                 h = hs_mixHash C h empty;
                 msg = \<lparr>mr_Type = MessageResponseType, mr_Sender = hs_localIndex h,
                   mr_Receiver = hs_remoteIndex h, mr_Ephemeral = ephemeral, mr_Empty = empty,
                   mr_MAC1 = replicate 16 0, mr_MAC2 = replicate 16 0\<rparr>;
                 h = h\<lparr>hs_state := HandshakeResponseCreated\<rparr>
             in Some (set_handshake D peer h, Inr msg))"

text \<open>The handshake an index names belongs to a peer; the peer returned is that of the entry.\<close>

definition ConsumeMessageResponse ::
  "crypto \<Rightarrow> Device \<Rightarrow> MessageResponse \<Rightarrow> Device \<times> pid option" where
  "ConsumeMessageResponse C D msg =
    (if mr_Type msg \<noteq> MessageResponseType then (D, None)
     else
       let lookup = it_Lookup (dv_indices D) (mr_Receiver msg)
       in case ie_handshake lookup of
            None \<Rightarrow> (D, None)
          | Some owner \<Rightarrow>
            let h = handshake_of D owner in
            if hs_state h \<noteq> HandshakeInitiationCreated then (D, None)
            else
              let hash = mixHash C (hs_hash h) (mr_Ephemeral msg);
                  chainKey = mixKey C (hs_chainKey h) (mr_Ephemeral msg);
                  ss = sharedSecret C (hs_localEphemeral h) (mr_Ephemeral msg);
                  chainKey = mixKey C chainKey ss;
                  ss = sharedSecret C (dv_privateKey D) (mr_Ephemeral msg);
                  chainKey = mixKey C chainKey ss;
                  (chainKey, tau, key) = KDF3 C chainKey (hs_presharedKey h);
                  hash = mixHash C hash tau
              in case aead_open C key ZeroNonce (mr_Empty msg) hash of
                   None \<Rightarrow> (D, None)
                 | Some _ \<Rightarrow>
                   let hash = mixHash C hash (mr_Empty msg)
                   in (set_handshake D owner (h\<lparr>
                         hs_hash := hash,
                         hs_chainKey := chainKey,
                         hs_remoteIndex := mr_Sender msg,
                         hs_state := HandshakeResponseConsumed\<rparr>), ie_peer lookup))"

section \<open>Key pairs\<close>

text \<open>Both ways of the transport keys: initiator flag, sending key, receiving key.\<close>

definition derive_keys :: "crypto \<Rightarrow> Handshake \<Rightarrow> (bool \<times> bytes \<times> bytes) option" where
  "derive_keys C h =
    (if hs_state h = HandshakeResponseConsumed then
       let (sendKey, recvKey) = KDF2 C (hs_chainKey h) [] in Some (True, sendKey, recvKey)
     else if hs_state h = HandshakeResponseCreated then
       let (recvKey, sendKey) = KDF2 C (hs_chainKey h) [] in Some (False, sendKey, recvKey)
     else None)"

definition rotate_initiator :: "Device \<Rightarrow> pid \<Rightarrow> kid \<Rightarrow> Device option" where
  "rotate_initiator D peer keyPair =
    (let kp = keyPairs_of D peer in
     case (if ks_previous kp \<noteq> None
           then map_option (\<lambda>D. (D, kp\<lparr>ks_previous := None\<rparr>)) (DeleteKeyPair D (ks_previous kp))
           else Some (D, kp)) of
       None \<Rightarrow> None
     | Some (D, kp) \<Rightarrow>
         if ks_next kp \<noteq> None
         then Some (set_keyPairs D peer (kp\<lparr>ks_previous := ks_next kp, ks_next := Some keyPair\<rparr>))
         else Some (upd_signal
           (set_keyPairs D peer (kp\<lparr>ks_previous := ks_current kp, ks_current := Some keyPair\<rparr>))
           peer (\<lambda>s. s\<lparr>sg_newKeyPair := signalSend (sg_newKeyPair s)\<rparr>)))"

definition rotate_responder :: "Device \<Rightarrow> pid \<Rightarrow> kid \<Rightarrow> Device" where
  "rotate_responder D peer keyPair =
    set_keyPairs D peer ((keyPairs_of D peer)\<lparr>ks_next := Some keyPair, ks_previous := None\<rparr>)"

text \<open>The result is the nil pointer when the handshake is not finished; None is a panic.\<close>

definition NewKeyPair :: "crypto \<Rightarrow> Device \<Rightarrow> pid \<Rightarrow> time \<Rightarrow> (Device \<times> kid option) option" where
  "NewKeyPair C D peer now =
    (let h = handshake_of D peer in
     case derive_keys C h of
       None \<Rightarrow> Some (D, None)
     | Some (isInitiator, sendKey, recvKey) \<Rightarrow>
         let h = h\<lparr>hs_chainKey := setZero (hs_chainKey h),
                   hs_localEphemeral := setZero (hs_localEphemeral h),
                   hs_state := HandshakeZeroed\<rparr>;
             k = st_nextKeyPair D;
             keyPair = \<lparr>kp_send = sendKey, kp_receive = recvKey, kp_replayFilter = rf_Init zero_filter,
               kp_sendNonce = 0, kp_isInitiator = isInitiator, kp_created = now,
               kp_localIndex = hs_localIndex h, kp_remoteIndex = hs_remoteIndex h\<rparr>;
             D = D\<lparr>st_keyPair := (st_keyPair D)(k := keyPair), st_nextKeyPair := Suc k\<rparr>;
             D = D\<lparr>dv_indices := it_Insert (dv_indices D) (hs_localIndex h)
                    \<lparr>ie_peer = Some peer, ie_handshake = None, ie_keyPair = Some k\<rparr>\<rparr>;
             D = set_handshake D peer (h\<lparr>hs_localIndex := 0\<rparr>)
         in if isInitiator
            then map_option (\<lambda>D. (D, Some k)) (rotate_initiator D peer k)
            else Some (rotate_responder D peer k, Some k))"

end
