(* ===== verification/Handshake_Agreement.thy ===== *)
theory Handshake_Agreement
  imports Noise_Protocol
begin

text \<open>
  What the handshake of \<^verbatim>\<open>controller/noise_protocol.go\<close> establishes: the transcript
  both sides compute, agreement on the transport keys, and the rejection of replayed, too
  frequent and misplaced messages.
\<close>

section \<open>The transcript\<close>

text \<open>
  The states of the Noise pattern as functions of what both sides know: \<open>rpub\<close> the
  responder's static key, \<open>epub\<close> an ephemeral key, \<open>es\<close>, \<open>ss\<close>, \<open>ee\<close>, \<open>se\<close> the shared secrets.
\<close>

definition static_keys :: "crypto \<Rightarrow> bytes \<Rightarrow> bytes \<Rightarrow> bytes \<times> bytes" where
  "static_keys C epub es = KDF2 C (mixKey C (InitialChainKey C) epub) es"

definition static_hash :: "crypto \<Rightarrow> bytes \<Rightarrow> bytes \<Rightarrow> bytes" where
  "static_hash C rpub epub = mixHash C (mixHash C (InitialHash C) rpub) epub"

definition time_keys :: "crypto \<Rightarrow> bytes \<Rightarrow> bytes \<Rightarrow> bytes \<Rightarrow> bytes \<times> bytes" where
  "time_keys C epub es ss = KDF2 C (fst (static_keys C epub es)) ss"

definition time_hash :: "crypto \<Rightarrow> bytes \<Rightarrow> bytes \<Rightarrow> bytes \<Rightarrow> bytes" where
  "time_hash C rpub epub static = mixHash C (static_hash C rpub epub) static"

definition response_keys ::
  "crypto \<Rightarrow> bytes \<Rightarrow> bytes \<Rightarrow> bytes \<Rightarrow> bytes \<Rightarrow> bytes \<Rightarrow> bytes \<times> bytes \<times> bytes" where
  "response_keys C chainKey epub ee se psk =
    KDF3 C (mixKey C (mixKey C (mixKey C chainKey epub) ee) se) psk"

definition response_hash :: "crypto \<Rightarrow> bytes \<Rightarrow> bytes \<Rightarrow> bytes \<Rightarrow> bytes" where
  "response_hash C hash epub tau = mixHash C (mixHash C hash epub) tau"

lemmas transcript_defs = static_keys_def static_hash_def time_keys_def time_hash_def
  response_keys_def response_hash_def

section \<open>The operations over the transcript\<close>

lemma CreateMessageInitiation_ok:
  assumes "CreateMessageInitiation C gl D p rnd ds now = Some (D', Inr m)"
  defines "h \<equiv> handshake_of D p" and "e \<equiv> clamp (fst rnd)"
  defines "epub \<equiv> publicKey C e" and "es \<equiv> sharedSecret C e (hs_remoteStatic h)"
  shows "\<exists>table i ds' hash.
    NewIndex (it_Delete (dv_indices D) (hs_localIndex h)) p ds = Some (table, i, False, ds') \<and>
    mi_Type m = MessageInitiationType \<and> mi_Sender m = i \<and> mi_Ephemeral m = epub \<and>
    mi_Static m = aead_seal C (snd (static_keys C epub es)) ZeroNonce (dv_publicKey D)
      (static_hash C (hs_remoteStatic h) epub) \<and>
    mi_Timestamp m = aead_seal C (snd (time_keys C epub es (hs_precomputedStaticStatic h))) ZeroNonce
      (Timestamp now) (time_hash C (hs_remoteStatic h) epub (mi_Static m)) \<and>
    hash = mixHash C (time_hash C (hs_remoteStatic h) epub (mi_Static m)) (mi_Timestamp m) \<and>
    D' = set_handshake (D\<lparr>dv_indices := table\<rparr>) p (h\<lparr>hs_localEphemeral := e, hs_localIndex := i,
      hs_chainKey := fst (time_keys C epub es (hs_precomputedStaticStatic h)),
      hs_hash := hash, hs_state := HandshakeInitiationCreated\<rparr>)"
  using assms(1) unfolding CreateMessageInitiation_def h_def e_def epub_def es_def
  by (auto simp: Let_def newPrivateKey_def hs_mixHash_def hs_mixKey_def split_beta transcript_defs
      split: if_splits option.splits)

lemma ConsumeMessageInitiation_iff:
  fixes C D and m :: MessageInitiation
  defines "es \<equiv> sharedSecret C (dv_privateKey D) (mi_Ephemeral m)"
  shows "ConsumeMessageInitiation C D m now now2 = (D', Some p) \<longleftrightarrow>
    mi_Type m = MessageInitiationType \<and> dv_peers D = Some p \<and>
    \<not> isZero (hs_precomputedStaticStatic (handshake_of D p)) \<and>
    aead_open C (snd (static_keys C (mi_Ephemeral m) es)) ZeroNonce (mi_Static m)
      (static_hash C (dv_publicKey D) (mi_Ephemeral m)) \<noteq> None \<and>
    (\<exists>ts. aead_open C (snd (time_keys C (mi_Ephemeral m) es (hs_precomputedStaticStatic (handshake_of D p))))
        ZeroNonce (mi_Timestamp m) (time_hash C (dv_publicKey D) (mi_Ephemeral m) (mi_Static m)) = Some ts \<and>
      tai_After ts (hs_lastTimestamp (handshake_of D p)) \<and>
      timeSub now (hs_lastInitiationConsumption (handshake_of D p)) > HandshakeInitationRate \<and>
      D' = set_handshake D p ((handshake_of D p)\<lparr>
        hs_hash := mixHash C (time_hash C (dv_publicKey D) (mi_Ephemeral m) (mi_Static m)) (mi_Timestamp m),
        hs_chainKey := fst (time_keys C (mi_Ephemeral m) es (hs_precomputedStaticStatic (handshake_of D p))),
        hs_remoteIndex := mi_Sender m, hs_remoteEphemeral := mi_Ephemeral m,
        hs_lastTimestamp := ts, hs_lastInitiationConsumption := now2,
        hs_state := HandshakeInitiationConsumed\<rparr>))"
  unfolding ConsumeMessageInitiation_def es_def
  by (auto simp: Let_def split_beta transcript_defs LookupPeer_def split: option.splits)

lemma ConsumeMessageInitiation_None:
  "ConsumeMessageInitiation C D m now now2 = (D', None) \<Longrightarrow> D' = D"
  unfolding ConsumeMessageInitiation_def
  by (auto simp: Let_def split_beta split: if_splits option.splits)

lemma CreateMessageResponse_ok:
  assumes "CreateMessageResponse C D p rnd ds = Some (D', Inr m)"
  defines "h \<equiv> handshake_of D p" and "e \<equiv> clamp (fst rnd)"
  defines "epub \<equiv> publicKey C e"
  defines "K \<equiv> response_keys C (hs_chainKey h) epub (sharedSecret C e (hs_remoteEphemeral h))
    (sharedSecret C e (hs_remoteStatic h)) (hs_presharedKey h)"
  defines "hash \<equiv> response_hash C (hs_hash h) epub (fst (snd K))"
  shows "\<exists>table i ds'. hs_state h = HandshakeInitiationConsumed \<and>
    NewIndex (it_Delete (dv_indices D) (hs_localIndex h)) p ds = Some (table, i, False, ds') \<and>
    mr_Type m = MessageResponseType \<and> mr_Sender m = i \<and> mr_Receiver m = hs_remoteIndex h \<and>
    mr_Ephemeral m = epub \<and> mr_Empty m = aead_seal C (snd (snd K)) ZeroNonce [] hash \<and>
    D' = set_handshake (D\<lparr>dv_indices := table\<rparr>) p (h\<lparr>hs_localIndex := i, hs_localEphemeral := e,
      hs_chainKey := fst K, hs_hash := mixHash C hash (mr_Empty m),
      hs_state := HandshakeResponseCreated\<rparr>)"
  using assms(1) unfolding CreateMessageResponse_def h_def e_def epub_def hash_def K_def
  by (auto simp: Let_def newPrivateKey_def hs_mixHash_def hs_mixKey_def split_beta transcript_defs
      split: if_splits option.splits)

lemma ConsumeMessageResponse_iff:
  fixes D m
  defines "entry \<equiv> it_Lookup (dv_indices D) (mr_Receiver m)"
  shows "ConsumeMessageResponse C D m = (D', Some p) \<longleftrightarrow>
    mr_Type m = MessageResponseType \<and> ie_peer entry = Some p \<and>
    (\<exists>owner h K. ie_handshake entry = Some owner \<and> h = handshake_of D owner \<and>
      hs_state h = HandshakeInitiationCreated \<and>
      K = response_keys C (hs_chainKey h) (mr_Ephemeral m)
        (sharedSecret C (hs_localEphemeral h) (mr_Ephemeral m))
        (sharedSecret C (dv_privateKey D) (mr_Ephemeral m)) (hs_presharedKey h) \<and>
      aead_open C (snd (snd K)) ZeroNonce (mr_Empty m)
        (response_hash C (hs_hash h) (mr_Ephemeral m) (fst (snd K))) \<noteq> None \<and>
      D' = set_handshake D owner (h\<lparr>
        hs_hash := mixHash C (response_hash C (hs_hash h) (mr_Ephemeral m) (fst (snd K))) (mr_Empty m),
        hs_chainKey := fst K, hs_remoteIndex := mr_Sender m, hs_state := HandshakeResponseConsumed\<rparr>))"
  unfolding ConsumeMessageResponse_def entry_def
  by (auto simp: Let_def split_beta transcript_defs split: option.splits)

section \<open>The new key pair\<close>

lemma rotate_initiator_returns:
  "\<exists>D'. rotate_initiator D p k = Some D' \<and> st_keyPair D' = st_keyPair D \<and>
    st_nextKeyPair D' = st_nextKeyPair D \<and> handshake_of D' = handshake_of D"
  by (auto simp: rotate_initiator_def DeleteKeyPair_def Let_def fun_eq_iff split: option.splits)

definition new_keyPair :: "Handshake \<Rightarrow> bool \<Rightarrow> bytes \<Rightarrow> bytes \<Rightarrow> time \<Rightarrow> KeyPair" where
  "new_keyPair h isInitiator sendKey recvKey now =
    \<lparr>kp_send = sendKey, kp_receive = recvKey, kp_replayFilter = rf_Init zero_filter,
      kp_sendNonce = 0, kp_isInitiator = isInitiator, kp_created = now,
      kp_localIndex = hs_localIndex h, kp_remoteIndex = hs_remoteIndex h\<rparr>"

definition after_keys :: "Handshake \<Rightarrow> Handshake" where
  "after_keys h = h\<lparr>hs_chainKey := setZero (hs_chainKey h),
    hs_localEphemeral := setZero (hs_localEphemeral h), hs_state := HandshakeZeroed, hs_localIndex := 0\<rparr>"

lemma NewKeyPair_ok:
  assumes "derive_keys C (handshake_of D p) = Some (ini, sk, rk)"
  shows "\<exists>D'. NewKeyPair C D p now = Some (D', Some (st_nextKeyPair D)) \<and>
    st_keyPair D' (st_nextKeyPair D) = new_keyPair (handshake_of D p) ini sk rk now \<and>
    handshake_of D' p = after_keys (handshake_of D p)"
proof (cases ini)
  case True
  let ?h = "handshake_of D p" and ?k = "st_nextKeyPair D"
  let ?D = "set_handshake (D\<lparr>st_keyPair := (st_keyPair D)(?k := new_keyPair ?h True sk rk now),
      st_nextKeyPair := Suc ?k, dv_indices := it_Insert (dv_indices D) (hs_localIndex ?h)
        \<lparr>ie_peer = Some p, ie_handshake = None, ie_keyPair = Some ?k\<rparr>\<rparr>) p (after_keys ?h)"
  have "NewKeyPair C D p now = map_option (\<lambda>D. (D, Some ?k)) (rotate_initiator ?D p ?k)"
    using assms True by (simp add: NewKeyPair_def Let_def new_keyPair_def after_keys_def)
  with rotate_initiator_returns [of ?D p ?k] True show ?thesis by auto
next
  case False
  with assms show ?thesis
    by (simp add: NewKeyPair_def Let_def rotate_responder_def new_keyPair_def after_keys_def)
qed

section \<open>Agreement\<close>

text \<open>
  Two devices that know each other: each holds the other's public key, the static secret both
  precompute is not zero and the preshared keys are the same.
\<close>

definition noise_pair :: "crypto \<Rightarrow> Device \<Rightarrow> pid \<Rightarrow> Device \<Rightarrow> pid \<Rightarrow> bool" where
  "noise_pair C DI pI DR pR \<longleftrightarrow>
    length (dv_privateKey DI) = 32 \<and> length (dv_privateKey DR) = 32 \<and>
    dv_publicKey DI = publicKey C (dv_privateKey DI) \<and>
    dv_publicKey DR = publicKey C (dv_privateKey DR) \<and>
    dv_peers DR = Some pR \<and>
    hs_remoteStatic (handshake_of DI pI) = dv_publicKey DR \<and>
    hs_remoteStatic (handshake_of DR pR) = dv_publicKey DI \<and>
    hs_precomputedStaticStatic (handshake_of DI pI) = sharedSecret C (dv_privateKey DI) (dv_publicKey DR) \<and>
    hs_precomputedStaticStatic (handshake_of DR pR) = sharedSecret C (dv_privateKey DR) (dv_publicKey DI) \<and>
    \<not> isZero (hs_precomputedStaticStatic (handshake_of DI pI)) \<and>
    hs_presharedKey (handshake_of DI pI) = hs_presharedKey (handshake_of DR pR)"

lemma initiation_accepted:
  assumes C: "crypto_ok C" and pair: "noise_pair C DI pI DR pR" and rnd: "length (fst rnd) = 32"
    and create: "CreateMessageInitiation C gl DI pI rnd ds now = Some (DI1, Inr m1)"
    and new: "tai_After (Timestamp now) (hs_lastTimestamp (handshake_of DR pR))"
    and rate: "timeSub t (hs_lastInitiationConsumption (handshake_of DR pR)) > HandshakeInitationRate"
  defines "hI \<equiv> handshake_of DI1 pI"
  shows "\<exists>DR1. ConsumeMessageInitiation C DR m1 t t' = (DR1, Some pR) \<and>
    dv_privateKey DR1 = dv_privateKey DR \<and>
    handshake_of DR1 pR = (handshake_of DR pR)\<lparr>hs_hash := hs_hash hI, hs_chainKey := hs_chainKey hI,
      hs_remoteIndex := mi_Sender m1, hs_remoteEphemeral := publicKey C (hs_localEphemeral hI),
      hs_lastTimestamp := Timestamp now, hs_lastInitiationConsumption := t',
      hs_state := HandshakeInitiationConsumed\<rparr>"
proof -
  let ?h = "handshake_of DI pI" and ?e = "clamp (fst rnd)"
  let ?epub = "publicKey C ?e"
  let ?es = "sharedSecret C ?e (hs_remoteStatic ?h)"
  let ?ss = "hs_precomputedStaticStatic ?h"
  obtain table i ds' hash where m:
    "mi_Type m1 = MessageInitiationType" "mi_Sender m1 = i" "mi_Ephemeral m1 = ?epub"
    "mi_Static m1 = aead_seal C (snd (static_keys C ?epub ?es)) ZeroNonce (dv_publicKey DI)
      (static_hash C (hs_remoteStatic ?h) ?epub)"
    "mi_Timestamp m1 = aead_seal C (snd (time_keys C ?epub ?es ?ss)) ZeroNonce
      (Timestamp now) (time_hash C (hs_remoteStatic ?h) ?epub (mi_Static m1))"
    "hash = mixHash C (time_hash C (hs_remoteStatic ?h) ?epub (mi_Static m1)) (mi_Timestamp m1)"
    "DI1 = set_handshake (DI\<lparr>dv_indices := table\<rparr>) pI (?h\<lparr>hs_localEphemeral := ?e,
      hs_localIndex := i, hs_chainKey := fst (time_keys C ?epub ?es ?ss), hs_hash := hash,
      hs_state := HandshakeInitiationCreated\<rparr>)"
    using CreateMessageInitiation_ok [OF create] by blast
  have dh: "dh_ok C" and aead: "aead_ok C" using C by (simp_all add: crypto_ok_def)
  have rpub: "hs_remoteStatic ?h = dv_publicKey DR" using pair by (simp add: noise_pair_def)
  have es: "sharedSecret C (dv_privateKey DR) ?epub = ?es"
    using pair rnd sharedSecret_commute [OF dh, of "dv_privateKey DR" ?e] by (simp add: noise_pair_def)
  have ss: "hs_precomputedStaticStatic (handshake_of DR pR) = ?ss"
    using pair sharedSecret_commute [OF dh, of "dv_privateKey DR" "dv_privateKey DI"]
    by (simp add: noise_pair_def)
  have nz: "\<not> isZero ?ss" using pair unfolding noise_pair_def by blast
  have peers: "dv_peers DR = Some pR" using pair by (simp add: noise_pair_def)
  have static: "aead_open C (snd (static_keys C ?epub ?es)) ZeroNonce (mi_Static m1)
      (static_hash C (dv_publicKey DR) ?epub) \<noteq> None"
    using aead by (simp add: m(4) rpub open_seal)
  have time: "aead_open C (snd (time_keys C ?epub ?es ?ss)) ZeroNonce (mi_Timestamp m1)
      (time_hash C (dv_publicKey DR) ?epub (mi_Static m1)) = Some (Timestamp now)"
    using aead by (simp add: m(5) rpub open_seal)
  let ?D = "set_handshake DR pR ((handshake_of DR pR)\<lparr>hs_hash := hash,
    hs_chainKey := fst (time_keys C ?epub ?es ?ss), hs_remoteIndex := mi_Sender m1,
    hs_remoteEphemeral := ?epub, hs_lastTimestamp := Timestamp now,
    hs_lastInitiationConsumption := t', hs_state := HandshakeInitiationConsumed\<rparr>)"
  have "ConsumeMessageInitiation C DR m1 t t' = (?D, Some pR)"
    unfolding ConsumeMessageInitiation_iff m(3) es ss
    using m(1) peers nz static time new rate m(6) rpub by simp
  then show ?thesis by (simp add: hI_def m(7))
qed

text \<open>The device that has made an initiation and waits for the response.\<close>

lemma initiation_pending:
  assumes "CreateMessageInitiation C gl DI pI rnd ds now = Some (DI1, Inr m1)"
  shows "hs_state (handshake_of DI1 pI) = HandshakeInitiationCreated" "hs_localIndex (handshake_of DI1 pI) = mi_Sender m1"
    "hs_localEphemeral (handshake_of DI1 pI) = clamp (fst rnd)" "dv_privateKey DI1 = dv_privateKey DI"
    "hs_presharedKey (handshake_of DI1 pI) = hs_presharedKey (handshake_of DI pI)"
    "it_Lookup (dv_indices DI1) (mi_Sender m1) = \<lparr>ie_peer = Some pI, ie_handshake = Some pI, ie_keyPair = None\<rparr>"
proof -
  obtain table i ds' hash ck where m1: "mi_Sender m1 = i" "NewIndex (it_Delete (dv_indices DI)
      (hs_localIndex (handshake_of DI pI))) pI ds = Some (table, i, False, ds')"
    "DI1 = set_handshake (DI\<lparr>dv_indices := table\<rparr>) pI ((handshake_of DI pI)\<lparr>
      hs_localEphemeral := clamp (fst rnd), hs_localIndex := i, hs_chainKey := ck,
      hs_hash := hash, hs_state := HandshakeInitiationCreated\<rparr>)"
    using CreateMessageInitiation_ok [OF assms] by auto
  then show "hs_state (handshake_of DI1 pI) = HandshakeInitiationCreated" "hs_localIndex (handshake_of DI1 pI) = mi_Sender m1"
    "hs_localEphemeral (handshake_of DI1 pI) = clamp (fst rnd)" "dv_privateKey DI1 = dv_privateKey DI"
    "hs_presharedKey (handshake_of DI1 pI) = hs_presharedKey (handshake_of DI pI)"
    "it_Lookup (dv_indices DI1) (mi_Sender m1) = \<lparr>ie_peer = Some pI, ie_handshake = Some pI, ie_keyPair = None\<rparr>"
    using NewIndex_fresh [OF m1(2)] by (auto simp: it_Lookup_def)
qed

text \<open>Two handshakes at their ends with the same chain key and crossed indices give crossed key pairs.\<close>

lemma derived_pairs_match:
  assumes "hs_state (handshake_of DR pR) = HandshakeResponseCreated" "hs_state (handshake_of DI pI) = HandshakeResponseConsumed"
    "hs_chainKey (handshake_of DI pI) = hs_chainKey (handshake_of DR pR)"
    "hs_remoteIndex (handshake_of DI pI) = hs_localIndex (handshake_of DR pR)"
    "hs_remoteIndex (handshake_of DR pR) = hs_localIndex (handshake_of DI pI)"
  shows "\<exists>DR' kR DI' kI. NewKeyPair C DR pR u = Some (DR', Some kR) \<and> NewKeyPair C DI pI v = Some (DI', Some kI) \<and>
    kp_send (st_keyPair DI' kI) = kp_receive (st_keyPair DR' kR) \<and>
    kp_receive (st_keyPair DI' kI) = kp_send (st_keyPair DR' kR) \<and>
    kp_remoteIndex (st_keyPair DI' kI) = kp_localIndex (st_keyPair DR' kR) \<and>
    kp_remoteIndex (st_keyPair DR' kR) = kp_localIndex (st_keyPair DI' kI) \<and>
    kp_isInitiator (st_keyPair DI' kI) \<and> \<not> kp_isInitiator (st_keyPair DR' kR)"
proof -
  let ?K = "KDF2 C (hs_chainKey (handshake_of DR pR)) []"
  have "derive_keys C (handshake_of DR pR) = Some (False, snd ?K, fst ?K)"
    by (simp add: derive_keys_def assms(1) split_beta)
  from NewKeyPair_ok [OF this, of u] obtain DR' where R:
    "NewKeyPair C DR pR u = Some (DR', Some (st_nextKeyPair DR))"
    "st_keyPair DR' (st_nextKeyPair DR) = new_keyPair (handshake_of DR pR) False (snd ?K) (fst ?K) u" by blast
  have "derive_keys C (handshake_of DI pI) = Some (True, fst ?K, snd ?K)"
    by (simp add: derive_keys_def assms(2,3) split_beta)
  from NewKeyPair_ok [OF this, of v] obtain DI' where I:
    "NewKeyPair C DI pI v = Some (DI', Some (st_nextKeyPair DI))"
    "st_keyPair DI' (st_nextKeyPair DI) = new_keyPair (handshake_of DI pI) True (fst ?K) (snd ?K) v" by blast
  show ?thesis
    using R(1) I(1) assms(4,5)
    by (intro exI [of _ DR'] exI [of _ "st_nextKeyPair DR"] exI [of _ DI'] exI [of _ "st_nextKeyPair DI"])
      (simp add: R(2) I(2) new_keyPair_def)
qed

lemma response_accepted:
  assumes C: "crypto_ok C"
    and state: "hs_state hI = HandshakeInitiationCreated" "hI = handshake_of DI pI"
    and same: "hs_hash hI = hs_hash (handshake_of DR pR)" "hs_chainKey hI = hs_chainKey (handshake_of DR pR)"
      "hs_presharedKey hI = hs_presharedKey (handshake_of DR pR)"
    and keys: "length (hs_localEphemeral hI) = 32" "length (dv_privateKey DI) = 32" "length (fst rnd) = 32"
      "hs_remoteEphemeral (handshake_of DR pR) = publicKey C (hs_localEphemeral hI)"
      "hs_remoteStatic (handshake_of DR pR) = publicKey C (dv_privateKey DI)"
    and entry: "it_Lookup (dv_indices DI) (hs_remoteIndex (handshake_of DR pR)) =
      \<lparr>ie_peer = Some pI, ie_handshake = Some pI, ie_keyPair = None\<rparr>"
    and create: "CreateMessageResponse C DR pR rnd ds = Some (DR2, Inr m2)"
  defines "hR \<equiv> handshake_of DR2 pR"
  shows "hs_state hR = HandshakeResponseCreated \<and>
    hs_remoteIndex hR = hs_remoteIndex (handshake_of DR pR) \<and>
    (\<exists>DI2. ConsumeMessageResponse C DI m2 = (DI2, Some pI) \<and>
      handshake_of DI2 pI = hI\<lparr>hs_hash := hs_hash hR, hs_chainKey := hs_chainKey hR,
        hs_remoteIndex := hs_localIndex hR, hs_state := HandshakeResponseConsumed\<rparr>)"
proof -
  let ?h = "handshake_of DR pR" and ?e = "clamp (fst rnd)"
  let ?epub = "publicKey C ?e"
  let ?K = "response_keys C (hs_chainKey ?h) ?epub (sharedSecret C ?e (hs_remoteEphemeral ?h))
    (sharedSecret C ?e (hs_remoteStatic ?h)) (hs_presharedKey ?h)"
  let ?hash = "response_hash C (hs_hash ?h) ?epub (fst (snd ?K))"
  obtain table i ds' where m:
    "mr_Type m2 = MessageResponseType" "mr_Sender m2 = i" "mr_Receiver m2 = hs_remoteIndex ?h"
    "mr_Ephemeral m2 = ?epub" "mr_Empty m2 = aead_seal C (snd (snd ?K)) ZeroNonce [] ?hash"
    "DR2 = set_handshake (DR\<lparr>dv_indices := table\<rparr>) pR (?h\<lparr>hs_localIndex := i, hs_localEphemeral := ?e,
      hs_chainKey := fst ?K, hs_hash := mixHash C ?hash (mr_Empty m2),
      hs_state := HandshakeResponseCreated\<rparr>)"
    using CreateMessageResponse_ok [OF create] by blast
  have dh: "dh_ok C" and aead: "aead_ok C" using C by (simp_all add: crypto_ok_def)
  have ee: "sharedSecret C (hs_localEphemeral hI) ?epub = sharedSecret C ?e (hs_remoteEphemeral ?h)"
    and se: "sharedSecret C (dv_privateKey DI) ?epub = sharedSecret C ?e (hs_remoteStatic ?h)"
    using keys by (simp_all add: sharedSecret_commute [OF dh])
  have opened: "aead_open C (snd (snd ?K)) ZeroNonce (mr_Empty m2) ?hash = Some []"
    using aead by (simp add: m(5) open_seal)
  let ?D = "set_handshake DI pI (hI\<lparr>hs_hash := mixHash C ?hash (mr_Empty m2), hs_chainKey := fst ?K,
    hs_remoteIndex := i, hs_state := HandshakeResponseConsumed\<rparr>)"
  have "ConsumeMessageResponse C DI m2 = (?D, Some pI)"
    unfolding ConsumeMessageResponse_iff m(2-4) entry
    using m(1) state same opened ee se by auto
  then show ?thesis by (simp add: hR_def m(6))
qed
lemma handshake_agrees:
  assumes C: "crypto_ok C" and pair: "noise_pair C DI pI DR pR"
    and rnd: "length (fst rnd) = 32" "length (fst rnd2) = 32"
    and create: "CreateMessageInitiation C gl DI pI rnd ds now = Some (DI1, Inr m1)"
    and new: "tai_After (Timestamp now) (hs_lastTimestamp (handshake_of DR pR))"
    and rate: "timeSub t (hs_lastInitiationConsumption (handshake_of DR pR)) > HandshakeInitationRate"
    and consume: "ConsumeMessageInitiation C DR m1 t t' = (DR1, found)"
    and reply: "CreateMessageResponse C DR1 pR rnd2 ds2 = Some (DR2, Inr m2)"
  shows "found = Some pR \<and> hs_state (handshake_of DR2 pR) = HandshakeResponseCreated \<and>
    (\<exists>DR3 kR DI2 DI3 kI. NewKeyPair C DR2 pR u = Some (DR3, Some kR) \<and>
      ConsumeMessageResponse C DI1 m2 = (DI2, Some pI) \<and>
      hs_state (handshake_of DI2 pI) = HandshakeResponseConsumed \<and>
      NewKeyPair C DI2 pI v = Some (DI3, Some kI) \<and>
      kp_send (st_keyPair DI3 kI) = kp_receive (st_keyPair DR3 kR) \<and>
      kp_receive (st_keyPair DI3 kI) = kp_send (st_keyPair DR3 kR) \<and>
      kp_remoteIndex (st_keyPair DI3 kI) = kp_localIndex (st_keyPair DR3 kR) \<and>
      kp_remoteIndex (st_keyPair DR3 kR) = kp_localIndex (st_keyPair DI3 kI) \<and>
      kp_isInitiator (st_keyPair DI3 kI) \<and> \<not> kp_isInitiator (st_keyPair DR3 kR))"
proof -
  let ?hI = "handshake_of DI1 pI"
  note hI = initiation_pending [OF create]
  obtain DR1' where acc: "ConsumeMessageInitiation C DR m1 t t' = (DR1', Some pR)"
    "handshake_of DR1' pR = (handshake_of DR pR)\<lparr>hs_hash := hs_hash ?hI, hs_chainKey := hs_chainKey ?hI,
      hs_remoteIndex := mi_Sender m1, hs_remoteEphemeral := publicKey C (hs_localEphemeral ?hI),
      hs_lastTimestamp := Timestamp now, hs_lastInitiationConsumption := t',
      hs_state := HandshakeInitiationConsumed\<rparr>"
    using initiation_accepted [OF C pair rnd(1) create new rate] by blast
  with consume have DR1: "DR1 = DR1'" "found = Some pR" by simp_all
  note hR1 = acc(2) [folded DR1(1)]
  have "hs_state (handshake_of DR2 pR) = HandshakeResponseCreated \<and>
      hs_remoteIndex (handshake_of DR2 pR) = hs_remoteIndex (handshake_of DR1 pR) \<and>
      (\<exists>DI2. ConsumeMessageResponse C DI1 m2 = (DI2, Some pI) \<and>
        handshake_of DI2 pI = ?hI\<lparr>hs_hash := hs_hash (handshake_of DR2 pR),
          hs_chainKey := hs_chainKey (handshake_of DR2 pR),
          hs_remoteIndex := hs_localIndex (handshake_of DR2 pR),
          hs_state := HandshakeResponseConsumed\<rparr>)"
  proof (rule response_accepted [OF C hI(1) refl _ _ _ _ _ rnd(2) _ _ _ reply])
    show "hs_remoteStatic (handshake_of DR1 pR) = publicKey C (dv_privateKey DI1)"
      using pair by (simp add: hR1 hI(4) noise_pair_def)
    show "hs_presharedKey ?hI = hs_presharedKey (handshake_of DR1 pR)"
      using pair by (simp add: hR1 hI(5) noise_pair_def)
    show "length (dv_privateKey DI1) = 32" using pair by (simp add: hI(4) noise_pair_def)
  qed (simp_all add: hR1 hI rnd)
  then obtain DI2 where hR: "hs_state (handshake_of DR2 pR) = HandshakeResponseCreated"
      "hs_remoteIndex (handshake_of DR2 pR) = mi_Sender m1"
    and I2: "ConsumeMessageResponse C DI1 m2 = (DI2, Some pI)"
      "handshake_of DI2 pI = ?hI\<lparr>hs_hash := hs_hash (handshake_of DR2 pR),
        hs_chainKey := hs_chainKey (handshake_of DR2 pR),
        hs_remoteIndex := hs_localIndex (handshake_of DR2 pR), hs_state := HandshakeResponseConsumed\<rparr>"
    by (auto simp: hR1)
  from derived_pairs_match [of DR2 pR DI2 pI C u v, OF hR(1)] obtain DR3 kR DI3 kI where
    "NewKeyPair C DR2 pR u = Some (DR3, Some kR)" "NewKeyPair C DI2 pI v = Some (DI3, Some kI)"
    "kp_send (st_keyPair DI3 kI) = kp_receive (st_keyPair DR3 kR)" "kp_receive (st_keyPair DI3 kI) = kp_send (st_keyPair DR3 kR)"
    "kp_remoteIndex (st_keyPair DI3 kI) = kp_localIndex (st_keyPair DR3 kR)"
    "kp_remoteIndex (st_keyPair DR3 kR) = kp_localIndex (st_keyPair DI3 kI)"
    "kp_isInitiator (st_keyPair DI3 kI)" "\<not> kp_isInitiator (st_keyPair DR3 kR)"
    by (auto simp: I2(2) hR(2) hI(2))
  moreover have "hs_state (handshake_of DI2 pI) = HandshakeResponseConsumed" by (simp add: I2(2))
  ultimately show ?thesis using DR1(2) hR(1) I2(1) by blast
qed

section \<open>Properties\<close>

text \<open>
  C2: a whole handshake between two devices that know each other ends in matching key pairs.
  Whatever the ephemeral randomness and the indices drawn, the responder accepts a fresh
  initiation, the initiator accepts the response, both derive a key pair, each side sends with
  the key the other receives with, and each addresses the index the other listens on.
\<close>

theorem handshake_agreement:
  assumes C: "crypto_ok C" and pair: "noise_pair C DI pI DR pR"
    and rnd: "length (fst rnd) = 32" "length (fst rnd2) = 32"
    and create: "CreateMessageInitiation C gl DI pI rnd ds now = Some (DI1, Inr m1)"
    and new: "tai_After (Timestamp now) (hs_lastTimestamp (handshake_of DR pR))"
    and rate: "timeSub t (hs_lastInitiationConsumption (handshake_of DR pR)) > HandshakeInitationRate"
    and consume: "ConsumeMessageInitiation C DR m1 t t' = (DR1, found)"
    and reply: "CreateMessageResponse C DR1 pR rnd2 ds2 = Some (DR2, Inr m2)"
  shows "found = Some pR \<and>
    (\<exists>DR3 kR DI2 DI3 kI. NewKeyPair C DR2 pR u = Some (DR3, Some kR) \<and>
      ConsumeMessageResponse C DI1 m2 = (DI2, Some pI) \<and>
      NewKeyPair C DI2 pI v = Some (DI3, Some kI) \<and>
      kp_send (st_keyPair DI3 kI) = kp_receive (st_keyPair DR3 kR) \<and>
      kp_receive (st_keyPair DI3 kI) = kp_send (st_keyPair DR3 kR) \<and>
      kp_remoteIndex (st_keyPair DI3 kI) = kp_localIndex (st_keyPair DR3 kR) \<and>
      kp_remoteIndex (st_keyPair DR3 kR) = kp_localIndex (st_keyPair DI3 kI) \<and>
      kp_isInitiator (st_keyPair DI3 kI) \<and> \<not> kp_isInitiator (st_keyPair DR3 kR))"
  using handshake_agrees [OF assms] by blast

section \<open>A concrete pair of devices\<close>

lemma CreateMessageInitiation_returns:
  assumes "\<not> isZero (hs_precomputedStaticStatic (handshake_of D p))"
    "NewIndex (it_Delete (dv_indices D) (hs_localIndex (handshake_of D p))) p ds = Some (table, i, False, ds')"
  obtains D' m where "CreateMessageInitiation C gl D p (bs, False) ds now = Some (D', Inr m)"
  using assms by (simp add: CreateMessageInitiation_def newPrivateKey_def split_beta Let_def)

lemma CreateMessageResponse_returns:
  assumes "hs_state (handshake_of D p) = HandshakeInitiationConsumed"
    "NewIndex (it_Delete (dv_indices D) (hs_localIndex (handshake_of D p))) p ds = Some (table, i, False, ds')"
  obtains D' m where "CreateMessageResponse C D p (bs, False) ds = Some (D', Inr m)"
  using assms by (simp add: CreateMessageResponse_def newPrivateKey_def split_beta Let_def)

text \<open>A device with the private key of 32 bytes \<open>a\<close> whose peer 0 has the one of bytes \<open>b\<close>.\<close>

definition toy_key :: "byte \<Rightarrow> bytes" where "toy_key a = replicate 32 a"

definition known_device :: "byte \<Rightarrow> byte \<Rightarrow> Device" where
  "known_device a b = zero_device\<lparr>dv_privateKey := toy_key a,
    dv_publicKey := publicKey toy_crypto (toy_key a), dv_peers := Some 0,
    st_peer := (\<lambda>_. zero_peer\<lparr>p_handshake := zero_handshake\<lparr>
      hs_remoteStatic := publicKey toy_crypto (toy_key b),
      hs_precomputedStaticStatic :=
        sharedSecret toy_crypto (toy_key a) (publicKey toy_crypto (toy_key b))\<rparr>\<rparr>)\<rparr>"

lemma toy_shared:
  "sharedSecret toy_crypto (toy_key a) (publicKey toy_crypto (toy_key b)) = replicate 32 (a * (b * 9))"
  by (auto simp: sharedSecret_def publicKey_def toy_crypto_def toy_key_def fit_exact intro!: nth_equalityI)

lemma known_fields [simp]:
  "dv_privateKey (known_device a b) = toy_key a"
  "dv_publicKey (known_device a b) = publicKey toy_crypto (toy_key a)"
  "dv_peers (known_device a b) = Some 0" "dv_indices (known_device a b) = Map.empty"
  "handshake_of (known_device a b) p = zero_handshake\<lparr>
      hs_remoteStatic := publicKey toy_crypto (toy_key b),
      hs_precomputedStaticStatic :=
        sharedSecret toy_crypto (toy_key a) (publicKey toy_crypto (toy_key b))\<rparr>"
  by (simp_all add: known_device_def handshake_of_def zero_device_def zero_peer_def)

lemma known_pair: "noise_pair toy_crypto (known_device 1 3) 0 (known_device 3 1) 0"
  by (simp add: noise_pair_def toy_shared isZero_iff) (simp add: toy_key_def)

lemma toy_draw:
  "NewIndex Map.empty p [quiet [7, 0, 0, 0]] =
    Some ([7 \<mapsto> \<lparr>ie_peer = Some p, ie_handshake = Some p, ie_keyPair = None\<rparr>], 7, False, [])"
proof -
  have "get_le32 [7, 0, 0, 0] = 7" by (simp add: get_le32_def)
  moreover have "(7::u32) \<noteq> 0" by simp
  ultimately show ?thesis
    unfolding quiet_def
    by (simp only: NewIndex_iteration Let_def draw.simps if_True if_False simp_thms id_apply option.simps)
qed

definition noon :: time where "noon = 1700000000 * second"

lemma noon_after_zero: "tai_After (Timestamp noon) (replicate 12 0)"
proof -
  have enc0: "le_enc n 0 = replicate n 0" for n by (induction n) simp_all
  have "replicate 12 (0::byte) = replicate (8 + 4) 0" by simp
  also have "\<dots> = be64 0 @ replicate 4 0" unfolding replicate_add by (simp add: be64_def enc0)
  finally have "replicate 12 (0::byte) = be64 0 @ replicate 4 0" .
  moreover have "TAI64NBase + word_of_int (noon div second) > 0"
    by (simp add: TAI64NBase_def noon_def second_def word_less_nat_alt)
  ultimately show ?thesis
    by (simp add: tai_After_def Timestamp_def Let_def bytes_gt_append be64_gt)
qed

lemma noon_after_epoch: "timeSub noon zeroTime > HandshakeInitationRate"
  by (simp add: timeSub_def noon_def zeroTime_def duration_consts)
text \<open>The initiation device 1 makes for device 3, accepted there.\<close>

lemma toy_initiation:
  obtains DI1 m1 DR1 where
    "CreateMessageInitiation toy_crypto \<lparr>gl_Ts = 0, gl_Sign = '''', gl_AllowIp = None, gl_Netmask = 0\<rparr>
      (known_device 1 3) 0 (replicate 32 5, False) [quiet [7, 0, 0, 0]] noon = Some (DI1, Inr m1)"
    "ConsumeMessageInitiation toy_crypto (known_device 3 1) m1 noon noon = (DR1, Some 0)"
    "hs_state (handshake_of DR1 0) = HandshakeInitiationConsumed" "hs_localIndex (handshake_of DR1 0) = 0"
    "dv_indices DR1 = Map.empty"
proof -
  have nz: "\<not> isZero (hs_precomputedStaticStatic (handshake_of (known_device 1 3) 0))"
    by (simp add: toy_shared isZero_iff)
  have idx: "NewIndex (it_Delete (dv_indices (known_device 1 3)) (hs_localIndex (handshake_of (known_device 1 3) 0)))
      0 [quiet [7, 0, 0, 0]] = Some ([7 \<mapsto> \<lparr>ie_peer = Some 0, ie_handshake = Some 0, ie_keyPair = None\<rparr>], 7, False, [])"
    using toy_draw [of 0] by (simp add: it_Delete_def zero_handshake_def)
  obtain DI1 m1 where create: "CreateMessageInitiation toy_crypto
      \<lparr>gl_Ts = 0, gl_Sign = '''', gl_AllowIp = None, gl_Netmask = 0\<rparr>
      (known_device 1 3) 0 (replicate 32 5, False) [quiet [7, 0, 0, 0]] noon = Some (DI1, Inr m1)"
    using CreateMessageInitiation_returns [OF nz idx] .
  have rnd: "length (fst (replicate 32 (5::byte), False)) = 32" by simp
  obtain DR1 where DR1: "ConsumeMessageInitiation toy_crypto (known_device 3 1) m1 noon noon = (DR1, Some 0)"
    using initiation_accepted [OF toy_crypto_ok known_pair rnd create, of noon noon]
      noon_after_zero noon_after_epoch by (auto simp: zero_handshake_def)
  moreover from DR1 have "hs_state (handshake_of DR1 0) = HandshakeInitiationConsumed"
      "hs_localIndex (handshake_of DR1 0) = 0" "dv_indices DR1 = Map.empty"
    unfolding ConsumeMessageInitiation_iff by (auto simp: zero_handshake_def)
  ultimately show ?thesis using that create by blast
qed

theorem handshake_agreement_witness:
  "\<exists>DR2 m2 DI1 DR3 kR DI2 DI3 kI. NewKeyPair toy_crypto DR2 0 noon = Some (DR3, Some kR) \<and>
      ConsumeMessageResponse toy_crypto DI1 m2 = (DI2, Some 0) \<and>
      NewKeyPair toy_crypto DI2 0 noon = Some (DI3, Some kI) \<and>
      kp_send (st_keyPair DI3 kI) = kp_receive (st_keyPair DR3 kR) \<and>
      kp_receive (st_keyPair DI3 kI) = kp_send (st_keyPair DR3 kR) \<and>
      kp_remoteIndex (st_keyPair DI3 kI) = kp_localIndex (st_keyPair DR3 kR) \<and>
      kp_remoteIndex (st_keyPair DR3 kR) = kp_localIndex (st_keyPair DI3 kI) \<and>
      kp_isInitiator (st_keyPair DI3 kI) \<and> \<not> kp_isInitiator (st_keyPair DR3 kR)"
proof (rule toy_initiation)
  fix DI1 m1 DR1
  assume create: "CreateMessageInitiation toy_crypto
      \<lparr>gl_Ts = 0, gl_Sign = '''', gl_AllowIp = None, gl_Netmask = 0\<rparr>
      (known_device 1 3) 0 (replicate 32 5, False) [quiet [7, 0, 0, 0]] noon = Some (DI1, Inr m1)"
    and consume: "ConsumeMessageInitiation toy_crypto (known_device 3 1) m1 noon noon = (DR1, Some 0)"
    and st: "hs_state (handshake_of DR1 0) = HandshakeInitiationConsumed"
      "hs_localIndex (handshake_of DR1 0) = 0" "dv_indices DR1 = Map.empty"
  have idx: "NewIndex (it_Delete (dv_indices DR1) (hs_localIndex (handshake_of DR1 0))) 0 [quiet [7, 0, 0, 0]] =
      Some ([7 \<mapsto> \<lparr>ie_peer = Some 0, ie_handshake = Some 0, ie_keyPair = None\<rparr>], 7, False, [])"
    using toy_draw [of 0] by (simp add: it_Delete_def st)
  obtain DR2 m2 where reply: "CreateMessageResponse toy_crypto DR1 0 (replicate 32 6, False)
      [quiet [7, 0, 0, 0]] = Some (DR2, Inr m2)"
    using CreateMessageResponse_returns [OF st(1) idx] .
  have "length (fst (replicate 32 (5::byte), False)) = 32" "length (fst (replicate 32 (6::byte), False)) = 32"
    "tai_After (Timestamp noon) (hs_lastTimestamp (handshake_of (known_device 3 1) 0))"
    "timeSub noon (hs_lastInitiationConsumption (handshake_of (known_device 3 1) 0)) > HandshakeInitationRate"
    using noon_after_zero noon_after_epoch by (simp_all add: zero_handshake_def)
  from handshake_agreement [OF toy_crypto_ok known_pair this(1,2) create this(3,4) consume reply,
      of noon noon]
  show ?thesis by blast
qed



text \<open>
  C27: a message that is not accepted changes nothing: an initiation or a response that is
  refused for any reason leaves the whole device as it was. For responses this rests on every
  index entry naming the peer its handshake belongs to, as \<^verbatim>\<open>NewIndex\<close> enters them.
\<close>

theorem refused_handshake_messages_change_nothing:
  assumes "\<forall>i p. ie_handshake (it_Lookup (dv_indices D) i) = Some p \<longrightarrow>
    ie_peer (it_Lookup (dv_indices D) i) = Some p"
  shows "(snd (ConsumeMessageInitiation C D m now now2) = None \<longrightarrow>
      fst (ConsumeMessageInitiation C D m now now2) = D) \<and>
    (snd (ConsumeMessageResponse C D r) = None \<longrightarrow> fst (ConsumeMessageResponse C D r) = D)"
proof
  show "snd (ConsumeMessageInitiation C D m now now2) = None \<longrightarrow>
      fst (ConsumeMessageInitiation C D m now now2) = D"
    using ConsumeMessageInitiation_None [of C D m now now2] by (metis prod.collapse)
  show "snd (ConsumeMessageResponse C D r) = None \<longrightarrow> fst (ConsumeMessageResponse C D r) = D"
    using assms unfolding ConsumeMessageResponse_def by (auto simp: Let_def split_beta split: option.splits)
qed

theorem refused_handshake_messages_change_nothing_witness:
  "fst (ConsumeMessageInitiation toy_crypto (known_device 3 1) (blank_initiation\<lparr>mi_Type := 9\<rparr>) 0 0) =
      known_device 3 1 \<and>
    fst (ConsumeMessageResponse toy_crypto (known_device 3 1) blank_response) = known_device 3 1"
proof -
  have "\<forall>i p. ie_handshake (it_Lookup (dv_indices (known_device 3 1)) i) = Some p \<longrightarrow>
      ie_peer (it_Lookup (dv_indices (known_device 3 1)) i) = Some p"
    by (simp add: it_Lookup_def zero_entry_def)
  from refused_handshake_messages_change_nothing [OF this,
      of toy_crypto "blank_initiation\<lparr>mi_Type := 9\<rparr>" 0 0 blank_response]
  show ?thesis
    by (simp add: ConsumeMessageInitiation_def ConsumeMessageResponse_def MessageInitiationType_def
        it_Lookup_def zero_entry_def)
qed

text \<open>
  C25: a finished handshake gives exactly one key pair and its secrets are erased: after
  \<^verbatim>\<open>NewKeyPair\<close> the chain key and the ephemeral private key are zero, the handshake is back
  in its first state and holds no index, and a second call returns no key pair.
\<close>

theorem key_derivation_erases_handshake:
  assumes "NewKeyPair C D p now = Some (D', Some k)"
  shows "isZero (hs_chainKey (handshake_of D' p)) \<and> isZero (hs_localEphemeral (handshake_of D' p)) \<and>
    hs_state (handshake_of D' p) = HandshakeZeroed \<and> hs_localIndex (handshake_of D' p) = 0 \<and>
    kp_sendNonce (st_keyPair D' k) = 0 \<and> NewKeyPair C D' p now2 = Some (D', None)"
proof -
  from assms obtain ini sk rk where "derive_keys C (handshake_of D p) = Some (ini, sk, rk)"
    by (cases "derive_keys C (handshake_of D p)") (auto simp: NewKeyPair_def Let_def)
  from NewKeyPair_ok [OF this, of now] assms have
    "handshake_of D' p = after_keys (handshake_of D p)" "kp_sendNonce (st_keyPair D' k) = 0"
    by (auto simp: new_keyPair_def)
  then show ?thesis
    by (simp add: after_keys_def isZero_setZero NewKeyPair_def derive_keys_def)
qed

definition finished_device :: Device where
  "finished_device = zero_device\<lparr>st_peer := (\<lambda>_. zero_peer\<lparr>p_handshake :=
    zero_handshake\<lparr>hs_state := HandshakeResponseCreated, hs_chainKey := replicate 32 1,
      hs_localEphemeral := replicate 32 2, hs_localIndex := 7\<rparr>\<rparr>)\<rparr>"

theorem key_derivation_erases_handshake_witness:
  "\<exists>D' k. NewKeyPair toy_crypto finished_device 0 noon = Some (D', Some k) \<and>
    isZero (hs_chainKey (handshake_of D' 0)) \<and> NewKeyPair toy_crypto D' 0 noon = Some (D', None)"
proof -
  have "\<exists>r. derive_keys toy_crypto (handshake_of finished_device 0) = Some r"
    by (simp add: derive_keys_def finished_device_def handshake_of_def split_beta) blast
  then obtain ini sk rk where "derive_keys toy_crypto (handshake_of finished_device 0) = Some (ini, sk, rk)"
    by auto
  from NewKeyPair_ok [OF this, of noon] obtain D' where
    run: "NewKeyPair toy_crypto finished_device 0 noon = Some (D', Some (st_nextKeyPair finished_device))"
    by blast
  from key_derivation_erases_handshake [OF run, of noon] run show ?thesis by blast
qed

end
