(* ===== verification/Device_Ops.thy ===== *)
theory Device_Ops
  imports Handshake_Agreement
begin

text \<open>
  Construction and shutdown of \<^verbatim>\<open>controller/device.go\<close> and
  \<^verbatim>\<open>controller/peer.go\<close>, the message buffers, and the operations the configuration
  uses: sending a buffer and queueing a keepalive. A Go panic is None.
\<close>

section \<open>Buffers and elements\<close>

text \<open>\<^verbatim>\<open>sync.Pool\<close> gives back a buffer that was put, or makes a new one.\<close>

definition GetMessageBuffer :: "Device \<Rightarrow> Device \<times> nat" where
  "GetMessageBuffer D =
    (case st_pool D of
      b # rest \<Rightarrow> (D\<lparr>st_pool := rest\<rparr>, b)
    | [] \<Rightarrow> (D\<lparr>st_nextBuffer := Suc (st_nextBuffer D)\<rparr>, st_nextBuffer D))"

definition device_PutMessageBuffer :: "Device \<Rightarrow> nat \<Rightarrow> Device" where
  "device_PutMessageBuffer D b = D\<lparr>st_pool := PutMessageBuffer (st_pool D) b\<rparr>"

definition NewOutboundElement :: "Device \<Rightarrow> Device \<times> eid" where
  "NewOutboundElement D =
    (let (D, b) = GetMessageBuffer D; e = st_nextElem D
     in (D\<lparr>st_out := (st_out D)(e := \<lparr>qo_dropped = False, qo_locked = False, qo_buffer = b, qo_offset = 0,
           qo_packet = [], qo_nonce = 0, qo_keyPair = None, qo_peer = None\<rparr>),
           st_nextElem := Suc e\<rparr>, e))"

text \<open>
  \<^verbatim>\<open>SendBuffer\<close>: \<open>ok\<close> is whether the socket took the packet. The result is whether an
  error is returned.
\<close>

definition SendBuffer :: "Device \<Rightarrow> pid \<Rightarrow> bytes \<Rightarrow> bool \<Rightarrow> Device \<times> bool" where
  "SendBuffer D peer buffer ok =
    (case dv_conn D of
      None \<Rightarrow> (D, True)
    | Some raddr \<Rightarrow>
        if ok then (D\<lparr>st_sent := st_sent D @ [(raddr, buffer)]\<rparr>, False) else (D, True))"

text \<open>The receiver's \<^verbatim>\<open>device\<close> field is nil in a peer \<^verbatim>\<open>NewPeer\<close> did not make.\<close>

definition SendKeepAlive :: "Device \<Rightarrow> pid \<Rightarrow> (Device \<times> bool) option" where
  "SendKeepAlive D peer =
    (if \<not> p_hasDevice (st_peer D peer) then None
     else
       let (D, e) = NewOutboundElement D
       in if chan_len (p_nonce (st_peer D peer)) = 0 then
            (case chan_send (p_nonce (st_peer D peer)) e of
              Some q \<Rightarrow> Some (upd_peer D peer (\<lambda>p. p\<lparr>p_nonce := q\<rparr>), True)
            | None \<Rightarrow> Some (D, False))
          else Some (D, True))"

section \<open>Construction\<close>

definition new_signals :: PeerSignals where
  "new_signals = \<lparr>sg_newKeyPair = make_chan 1, sg_handshakeBegin = make_chan 1,
    sg_handshakeCompleted = make_chan 1, sg_handshakeReset = make_chan 1,
    sg_flushNonceQueue = make_chan 1, sg_stopped = False\<rparr>"

definition new_timers :: "time \<Rightarrow> PeerTimers" where
  "new_timers now = zero_timers\<lparr>
    tm_keepalivePersistent := Some (NewStoppedTimer now),
    tm_keepalivePassive := Some (NewStoppedTimer now),
    tm_newHandshake := Some (NewStoppedTimer now),
    tm_zeroAllKeys := Some (NewStoppedTimer now)\<rparr>"

definition NewPeer :: "crypto \<Rightarrow> Device \<Rightarrow> bytes \<Rightarrow> time \<Rightarrow> Device \<times> pid" where
  "NewPeer C D pk now =
    (let p = st_nextPeer D;
         peer = zero_peer;
         peer = peer\<lparr>p_mac := cg_Init C (p_mac peer) pk\<rparr>;
         peer = peer\<lparr>p_hasDevice := True\<rparr>;
         peer = peer\<lparr>p_timer := new_timers now\<rparr>;
         peer = peer\<lparr>p_handshake := (p_handshake peer)\<lparr>
           hs_remoteStatic := pk,
           hs_precomputedStaticStatic := sharedSecret C (dv_privateKey D) pk\<rparr>\<rparr>;
         peer = peer\<lparr>p_nonce := make_chan QueueOutboundSize,
           p_outbound := make_chan QueueOutboundSize, p_inbound := make_chan QueueInboundSize\<rparr>;
         peer = peer\<lparr>p_signal := new_signals\<rparr>
     in (D\<lparr>dv_peers := Some p, st_peer := (st_peer D)(p := peer), st_nextPeer := Suc p\<rparr>, p))"

text \<open>The device starts with a peer that \<^verbatim>\<open>NewPeer\<close> did not make.\<close>

definition NewDevice :: "time \<Rightarrow> Device" where
  "NewDevice now =
    (let D = zero_device;
         p = st_nextPeer D;
         D = D\<lparr>dv_peers := Some p, st_peer := (st_peer D)(p := zero_peer), st_nextPeer := Suc p\<rparr>;
         D = D\<lparr>dv_indices := it_Init\<rparr>;
         D = D\<lparr>dv_ratelimiter := rl_Init now\<rparr>;
         D = D\<lparr>dv_routingTable := rt_Reset (dv_routingTable D)\<rparr>;
         D = D\<lparr>dv_underLoadUntil := zeroTime\<rparr>;
         D = D\<lparr>dv_handshakeQueue := make_chan QueueHandshakeSize,
           dv_encryption := make_chan QueueOutboundSize, dv_decryption := make_chan QueueInboundSize\<rparr>
     in D\<lparr>dv_newUDPConn := make_chan 1\<rparr>)"

definition SetPublicKey :: "crypto \<Rightarrow> Device \<Rightarrow> bytes \<Rightarrow> Device option" where
  "SetPublicKey C D sk =
    (let D = D\<lparr>dv_publicKey := sk\<rparr>;
         D = D\<lparr>dv_mac := cc_Init C (dv_mac D) sk\<rparr>;
         rmKey = keyIsZero (dv_privateKey D)
     in case dv_peers D of
          None \<Rightarrow> None
        | Some p \<Rightarrow>
            let h = handshake_of D p
            in if rmKey then
                 Some (set_handshake D p (h\<lparr>hs_precomputedStaticStatic := replicate 32 0\<rparr>))
               else
                 let ss = sharedSecret C (dv_privateKey D) (hs_remoteStatic h);
                     D = set_handshake D p (h\<lparr>hs_precomputedStaticStatic := ss\<rparr>)
                 in if isZero ss
                    then Some (D\<lparr>dv_routingTable := rt_RemovePeer (dv_routingTable D) (dv_peers D),
                                 dv_peers := None\<rparr>)
                    else Some D)"

section \<open>Load\<close>

definition IsUnderLoad :: "Device \<Rightarrow> time \<Rightarrow> Device \<times> bool" where
  "IsUnderLoad D now =
    (if chan_len (dv_handshakeQueue D) \<ge> UnderLoadQueueSize
     then (D\<lparr>dv_underLoadUntil := now + second\<rparr>, True)
     else (D, dv_underLoadUntil D > now))"

section \<open>Shutdown\<close>

text \<open>Stopping a timer that was never made dereferences nil.\<close>

definition stop_timer :: "timer option \<Rightarrow> timer option option" where
  "stop_timer t = (case t of None \<Rightarrow> None | Some t \<Rightarrow> Some (Some (snd (timer_Stop t))))"

definition close_timers :: "PeerTimers \<Rightarrow> PeerTimers option" where
  "close_timers t = do {
    a \<leftarrow> stop_timer (tm_keepalivePersistent t);
    b \<leftarrow> stop_timer (tm_keepalivePassive t);
    c \<leftarrow> stop_timer (tm_zeroAllKeys t);
    d \<leftarrow> stop_timer (tm_newHandshake t);
    e \<leftarrow> stop_timer (tm_handshakeDeadline t);
    Some (t\<lparr>tm_keepalivePersistent := a, tm_keepalivePassive := b, tm_zeroAllKeys := c,
      tm_newHandshake := d, tm_handshakeDeadline := e\<rparr>)
  }"

definition peer_Close :: "Device \<Rightarrow> pid \<Rightarrow> Device option" where
  "peer_Close D p = do {
    t \<leftarrow> close_timers (p_timer (st_peer D p));
    let D = upd_timer D p (\<lambda>_. t);
    let D = upd_signal D p (\<lambda>s. s\<lparr>sg_stopped := True\<rparr>);
    let ks = keyPairs_of D p;
    D \<leftarrow> DeleteKeyPair D (ks_previous ks);
    D \<leftarrow> DeleteKeyPair D (ks_current ks);
    D \<leftarrow> DeleteKeyPair D (ks_next ks);
    let D = set_keyPairs D p \<lparr>ks_current = None, ks_previous = None, ks_next = None\<rparr>;
    let h = handshake_of D p;
    let D = D\<lparr>dv_indices := it_Delete (dv_indices D) (hs_localIndex h)\<rparr>;
    Some (set_handshake D p (hs_Clear h))
  }"

definition removePeerUnsafe :: "Device \<Rightarrow> Device option" where
  "removePeerUnsafe D =
    (let peer = dv_peers D;
         D = D\<lparr>dv_routingTable := rt_RemovePeer (dv_routingTable D) peer\<rparr>;
         D = D\<lparr>dv_peers := None\<rparr>
     in case peer of None \<Rightarrow> None | Some p \<Rightarrow> peer_Close D p)"

definition device_RemovePeer :: "Device \<Rightarrow> Device option" where
  "device_RemovePeer D = removePeerUnsafe D"

text \<open>
  After the peer is removed the stop signal is closed and the socket; closing a socket that was
  never opened dereferences nil.
\<close>

definition closeUDPConn :: "Device \<Rightarrow> Device option" where
  "closeUDPConn D =
    (case dv_conn D of None \<Rightarrow> None | Some _ \<Rightarrow> Some (D\<lparr>dv_newUDPConn := signalSend (dv_newUDPConn D)\<rparr>))"

definition device_Close :: "Device \<Rightarrow> Device option" where
  "device_Close D = do {
    D \<leftarrow> device_RemovePeer D;
    let D = D\<lparr>dv_stopped := True\<rparr>;
    closeUDPConn D
  }"

section \<open>Properties\<close>

lemma close_timers_deadline: "tm_handshakeDeadline t = None \<Longrightarrow> close_timers t = None"
  by (cases "tm_keepalivePersistent t"; cases "tm_keepalivePassive t"; cases "tm_zeroAllKeys t";
      cases "tm_newHandshake t") (simp_all add: close_timers_def stop_timer_def)

lemma close_panics:
  assumes "dv_peers D = Some p" "tm_handshakeDeadline (p_timer (st_peer D p)) = None"
  shows "device_Close D = None"
  using assms by (simp add: device_Close_def device_RemovePeer_def removePeerUnsafe_def peer_Close_def
      close_timers_deadline Let_def)

text \<open>
  Closing the device always panics before the stop signal is closed. No code makes the
  handshake deadline timer of a peer, \<^verbatim>\<open>Peer.Close\<close> stops it, and stopping a nil timer
  is a nil dereference: with a peer made by \<^verbatim>\<open>NewPeer\<close>, in any device and at any time,
  \<^verbatim>\<open>Device.Close\<close> does not return, and neither does it when no peer is left.
\<close>

theorem device_close_always_panics:
  "device_Close (fst (NewPeer C D pk now)) = None \<and>
    device_Close (D\<lparr>dv_peers := None\<rparr>) = None"
proof
  show "device_Close (fst (NewPeer C D pk now)) = None"
    by (rule close_panics [where p = "st_nextPeer D"])
      (simp_all add: NewPeer_def Let_def new_timers_def zero_timers_def)
  show "device_Close (D\<lparr>dv_peers := None\<rparr>) = None"
    by (simp add: device_Close_def device_RemovePeer_def removePeerUnsafe_def Let_def)
qed

text \<open>
  Load detection holds for a second: once the handshake queue was found a quarter full the
  device reports load at every later time before a full second has passed, however empty the
  queue has become, and with an empty queue it reports none from then on.
\<close>

theorem under_load_for_a_second:
  assumes "chan_len (dv_handshakeQueue D) \<ge> UnderLoadQueueSize"
    "D' = (fst (IsUnderLoad D t))\<lparr>dv_handshakeQueue := q\<rparr>"
  shows "snd (IsUnderLoad D t) \<and> (u < t + second \<longrightarrow> snd (IsUnderLoad D' u)) \<and>
    (t + second \<le> u \<longrightarrow> chan_len q < UnderLoadQueueSize \<longrightarrow> \<not> snd (IsUnderLoad D' u))"
  using assms by (auto simp: IsUnderLoad_def)

definition loaded_device :: Device where
  "loaded_device = zero_device\<lparr>dv_handshakeQueue :=
    \<lparr>chan_cap = 20, chan_buf = replicate 5 (handshake_packet 1)\<rparr>\<rparr>"

theorem under_load_for_a_second_witness:
  "snd (IsUnderLoad loaded_device noon) \<and>
    snd (IsUnderLoad ((fst (IsUnderLoad loaded_device noon))\<lparr>dv_handshakeQueue := make_chan 20\<rparr>) (noon + 7)) \<and>
    \<not> snd (IsUnderLoad ((fst (IsUnderLoad loaded_device noon))\<lparr>dv_handshakeQueue := make_chan 20\<rparr>)
      (noon + second))"
proof -
  let ?D' = "(fst (IsUnderLoad loaded_device noon))\<lparr>dv_handshakeQueue := make_chan 20\<rparr>"
  have full: "chan_len (dv_handshakeQueue loaded_device) \<ge> UnderLoadQueueSize"
    by (simp add: chan_len_def loaded_device_def size_consts)
  have room: "chan_len (make_chan 20 :: QueueHandshakeElement chan) < UnderLoadQueueSize"
    by (simp add: chan_len_def make_chan_def size_consts)
  show ?thesis
    using under_load_for_a_second [OF full, where D' = ?D' and t = noon and q = "make_chan 20" and u = "noon + 7"]
      under_load_for_a_second [OF full, where D' = ?D' and t = noon and q = "make_chan 20" and u = "noon + second"] room
    by (simp add: second_def)
qed
end
