(* ===== verification/Net_Text.thy ===== *)
theory Net_Text
  imports Channels Trie Keys
begin

text \<open>
  Addresses as text: what \<^verbatim>\<open>parseEndpoint\<close> of \<^verbatim>\<open>controller/conn.go\<close>, \<^verbatim>\<open>SetOperation\<close> and the
  fields of an initiation use of Go's \<^verbatim>\<open>net\<close> package (Go 1.13, the version of \<^verbatim>\<open>go.mod\<close>). An IP
  address is its list of 4 or 16 bytes, an error or nil is None. Names of services are looked up
  in a database of the system, which is the field \<open>lookup_service\<close> of the parameter \<open>netenv\<close>;
  \<open>dial\<close> is whether \<^verbatim>\<open>net.DialUDP\<close> succeeds.
\<close>

record netenv =
  lookup_service :: "string \<Rightarrow> int option"
  dial :: "UDPAddr \<Rightarrow> bool"

section \<open>Numbers\<close>

definition digit :: "char \<Rightarrow> nat option" where
  "digit c = (if CHR ''0'' \<le> c \<and> c \<le> CHR ''9'' then Some (of_char c - 48) else None)"

definition hex_value :: "char \<Rightarrow> nat option" where
  "hex_value c =
    (if CHR ''0'' \<le> c \<and> c \<le> CHR ''9'' then Some (of_char c - 48)
     else if CHR ''a'' \<le> c \<and> c \<le> CHR ''f'' then Some (of_char c - 87)
     else if CHR ''A'' \<le> c \<and> c \<le> CHR ''F'' then Some (of_char c - 55)
     else None)"

text \<open>
  \<^verbatim>\<open>dtoi\<close> and \<^verbatim>\<open>xtoi\<close> read the digits at the start of a text: the number and the rest, None when there is
  no digit or the number reaches the bound.
\<close>

definition big :: nat where "big = 16777215"

fun read_number :: "(char \<Rightarrow> nat option) \<Rightarrow> nat \<Rightarrow> nat \<Rightarrow> string \<Rightarrow> (nat \<times> string) option" where
  "read_number value base n [] = Some (n, [])"
| "read_number value base n (c # s) =
    (case value c of
      None \<Rightarrow> Some (n, c # s)
    | Some d \<Rightarrow> if n * base + d \<ge> big then None else read_number value base (n * base + d) s)"

definition dtoi :: "string \<Rightarrow> (nat \<times> string) option" where
  "dtoi s = (if s = [] \<or> digit (hd s) = None then None else read_number digit 10 0 s)"

definition xtoi :: "string \<Rightarrow> (nat \<times> string) option" where
  "xtoi s = (if s = [] \<or> hex_value (hd s) = None then None else read_number hex_value 16 0 s)"

section \<open>IP addresses\<close>

fun parse_octets :: "nat \<Rightarrow> bytes \<Rightarrow> string \<Rightarrow> bytes option" where
  "parse_octets 0 p s = (if s = [] then Some p else None)"
| "parse_octets (Suc k) p s =
    (if s = [] then None
     else if p \<noteq> [] \<and> hd s \<noteq> CHR ''.'' then None
     else case dtoi (if p \<noteq> [] then tl s else s) of
       None \<Rightarrow> None
     | Some (n, s) \<Rightarrow> if n > 255 then None else parse_octets k (p @ [word_of_nat n]) s)"

definition parseIPv4 :: "string \<Rightarrow> bytes option" where
  "parseIPv4 s = map_option net_IPv4 (parse_octets 4 [] s)"

text \<open>
  The loop of \<^verbatim>\<open>parseIPv6\<close> over the groups of 16 bits, at most eight: the bytes so far and where
  the ellipsis stood. It ends with the rest of the text, which has to be empty.
\<close>

fun parse_groups :: "nat \<Rightarrow> bytes \<Rightarrow> nat option \<Rightarrow> string \<Rightarrow> (string \<times> bytes \<times> nat option) option" where
  "parse_groups 0 ip ellipsis s = Some (s, ip, ellipsis)"
| "parse_groups (Suc k) ip ellipsis s =
    (case xtoi s of
      None \<Rightarrow> None
    | Some (n, rest) \<Rightarrow>
        if n > 65535 then None
        else if rest \<noteq> [] \<and> hd rest = CHR ''.'' then
          (if ellipsis = None \<and> length ip \<noteq> 12 then None
           else if length ip + 4 > 16 then None
           else map_option (\<lambda>ip4. ([], ip @ drop 12 ip4, ellipsis)) (parseIPv4 s))
        else
          let ip = ip @ [word_of_nat (n div 256), word_of_nat n]
          in if rest = [] then Some ([], ip, ellipsis)
             else if hd rest \<noteq> CHR '':'' \<or> tl rest = [] then None
             else
               let s = tl rest
               in if hd s = CHR '':'' then
                    (if ellipsis \<noteq> None then None
                     else if tl s = [] then Some ([], ip, Some (length ip))
                     else parse_groups k ip (Some (length ip)) (tl s))
                  else parse_groups k ip ellipsis s)"

definition expand :: "bytes \<Rightarrow> nat option \<Rightarrow> bytes option" where
  "expand ip ellipsis =
    (if length ip < 16 then
       map_option (\<lambda>e. take e ip @ replicate (16 - length ip) 0 @ drop e ip) ellipsis
     else if ellipsis \<noteq> None then None
     else Some ip)"

definition parseIPv6 :: "string \<Rightarrow> bytes option" where
  "parseIPv6 s =
    (let start = (if take 2 s = ''::'' then drop 2 s else s);
         ellipsis = (if take 2 s = ''::'' then Some 0 else None)
     in if ellipsis \<noteq> None \<and> start = [] then Some (replicate 16 0)
        else case parse_groups 8 [] ellipsis start of
          None \<Rightarrow> None
        | Some (rest, ip, ellipsis) \<Rightarrow> if rest \<noteq> [] then None else expand ip ellipsis)"

text \<open>The first dot or colon decides the family.\<close>

definition ParseIP :: "string \<Rightarrow> bytes option" where
  "ParseIP s =
    (case dropWhile (\<lambda>c. c \<noteq> CHR ''.'' \<and> c \<noteq> CHR '':'') s of
      [] \<Rightarrow> None
    | c # _ \<Rightarrow> if c = CHR ''.'' then parseIPv4 s else parseIPv6 s)"

text \<open>The network of \<^verbatim>\<open>net.ParseCIDR\<close>: the address cut to its prefix, and the length of the prefix.\<close>

definition ParseCIDR :: "string \<Rightarrow> (bytes \<times> nat) option" where
  "ParseCIDR s =
    (case dropWhile (\<lambda>c. c \<noteq> CHR ''/'') s of
      [] \<Rightarrow> None
    | _ # prefix \<Rightarrow>
        let addr = takeWhile (\<lambda>c. c \<noteq> CHR ''/'') s;
            ip = (case parseIPv4 addr of Some ip \<Rightarrow> Some (drop 12 ip) | None \<Rightarrow> parseIPv6 addr)
        in case ip of
             None \<Rightarrow> None
           | Some ip \<Rightarrow>
               (case dtoi prefix of
                 None \<Rightarrow> None
               | Some (n, rest) \<Rightarrow>
                   if rest \<noteq> [] \<or> n > 8 * length ip then None
                   else Some (map2 (AND) ip (CIDRMask n (8 * length ip)), n)))"

section \<open>Hosts and ports\<close>

text \<open>A text cut at the last place of a character.\<close>

definition split_last :: "char \<Rightarrow> string \<Rightarrow> (string \<times> string) option" where
  "split_last c s =
    (if c \<in> set s then
       Some (rev (tl (dropWhile (\<lambda>x. x \<noteq> c) (rev s))), rev (takeWhile (\<lambda>x. x \<noteq> c) (rev s)))
     else None)"

definition SplitHostPort :: "string \<Rightarrow> (string \<times> string) option" where
  "SplitHostPort hostport =
    (case split_last CHR '':'' hostport of
      None \<Rightarrow> None
    | Some (front, port) \<Rightarrow>
        if hd hostport = CHR ''['' then
          let inside = takeWhile (\<lambda>c. c \<noteq> CHR '']'') hostport
          in if CHR '']'' \<notin> set hostport \<or> Suc (length inside) \<noteq> length front then None
             else if CHR ''['' \<in> set (tl hostport) \<or> CHR '']'' \<in> set (drop (length front) hostport) then None
             else Some (tl inside, port)
        else if CHR '':'' \<in> set front then None
        else if CHR ''['' \<in> set hostport \<or> CHR '']'' \<in> set hostport then None
        else Some (front, port))"

text \<open>
  \<^verbatim>\<open>parsePort\<close> adds the digits up in 32 bits, with a bound of 2^30 before each, and gives None where
  the text is the name of a service.
\<close>

fun port_digits :: "u32 \<Rightarrow> string \<Rightarrow> u32 option" where
  "port_digits n [] = Some n"
| "port_digits n (c # s) =
    (case digit c of
      None \<Rightarrow> None
    | Some d \<Rightarrow>
        if n \<ge> 1073741824 then Some (- 1)
        else let n = n * 10; nn = n + word_of_nat d
             in if nn < n then Some (- 1) else port_digits nn s)"

definition parsePort :: "string \<Rightarrow> int option" where
  "parsePort service =
    (if service = [] then Some 0
     else
       let neg = (hd service = CHR ''-'');
           digits = (if hd service = CHR ''+'' \<or> hd service = CHR ''-'' then tl service else service)
       in map_option (\<lambda>n.
            if \<not> neg \<and> n \<ge> 1073741824 then 1073741823
            else if neg \<and> n > 1073741824 then - 1073741824
            else if neg then - uint n else uint n) (port_digits 0 digits))"

definition LookupPort :: "netenv \<Rightarrow> string \<Rightarrow> int option" where
  "LookupPort N service =
    (case (case parsePort service of None \<Rightarrow> lookup_service N service | Some port \<Rightarrow> Some port) of
      None \<Rightarrow> None
    | Some port \<Rightarrow> if 0 > port \<or> port > 65535 then None else Some port)"

text \<open>\<^verbatim>\<open>ResolveUDPAddr\<close> for a host that is the text of an IP address, the only hosts it is called with.\<close>

definition ResolveUDPAddr_literal :: "netenv \<Rightarrow> string \<Rightarrow> UDPAddr option" where
  "ResolveUDPAddr_literal N s =
    (case SplitHostPort s of
      None \<Rightarrow> None
    | Some (host, port) \<Rightarrow>
        (case LookupPort N port of
          None \<Rightarrow> None
        | Some portnum \<Rightarrow> map_option (\<lambda>ip. \<lparr>ua_IP = ip, ua_Port = word_of_int portnum\<rparr>) (ParseIP host)))"

definition parseEndpoint :: "netenv \<Rightarrow> string \<Rightarrow> UDPAddr option" where
  "parseEndpoint N s =
    (case SplitHostPort s of
      None \<Rightarrow> None
    | Some (host, _) \<Rightarrow> if ParseIP host = None then None else ResolveUDPAddr_literal N s)"

section \<open>Sizes\<close>

lemma length_net_IPv4 [simp]: "length (net_IPv4 b) = 12 + min 4 (length b)"
  by (simp add: net_IPv4_def)

lemma parse_octets_length: "parse_octets k p s = Some ip \<Longrightarrow> length ip = length p + k"
  by (induction k p s rule: parse_octets.induct) (auto split: if_splits option.splits)

lemma parseIPv4_length: "parseIPv4 s = Some ip \<Longrightarrow> length ip = 16"
  by (auto simp: parseIPv4_def dest!: parse_octets_length)

lemma parse_groups_length:
  "parse_groups k ip ellipsis s = Some (rest, ip', e) \<Longrightarrow> length ip + 2 * k \<le> 16 \<Longrightarrow> (case ellipsis of None \<Rightarrow> True | Some x \<Rightarrow> x \<le> length ip) \<Longrightarrow>
    length ip' \<le> 16 \<and> (case e of None \<Rightarrow> True | Some x \<Rightarrow> x \<le> length ip')"
proof (induction k ip ellipsis s rule: parse_groups.induct)
  case (2 k ip ellipsis s)
  show ?case
    using 2 by (auto simp: Let_def split: option.splits if_splits prod.splits dest: parseIPv4_length)
qed auto

lemma expand_length:
  "expand ip (Some e) = Some ip' \<Longrightarrow> length ip \<le> 16 \<Longrightarrow> e \<le> length ip \<Longrightarrow> length ip' = 16"
  "expand ip None = Some ip' \<Longrightarrow> length ip \<le> 16 \<Longrightarrow> length ip' = 16"
  by (auto simp: expand_def split: if_splits)

lemma parseIPv6_length: "parseIPv6 s = Some ip \<Longrightarrow> length ip = 16"
  by (auto simp: parseIPv6_def Let_def split: if_splits option.splits
      dest!: parse_groups_length dest: expand_length)

lemma ParseIP_length: "ParseIP s = Some ip \<Longrightarrow> length ip = 16"
  by (auto simp: ParseIP_def split: list.splits if_splits dest: parseIPv4_length parseIPv6_length)

lemma length_mask_bytes [simp]: "length (mask_bytes k n) = k"
  by (induction k n rule: mask_bytes.induct) auto

lemma ParseCIDR_length:
  assumes "ParseCIDR s = Some (ip, ones)"
  shows "(length ip = 4 \<or> length ip = 16) \<and> ones \<le> 8 * length ip"
  using assms
  by (auto simp: ParseCIDR_def Let_def CIDRMask_def split: list.splits option.splits if_splits
      dest!: parseIPv4_length parseIPv6_length)

section \<open>Texts of addresses\<close>

text \<open>Numbers in a base of at least two, most significant digit first, are read back.\<close>

fun in_base :: "nat \<Rightarrow> (nat \<Rightarrow> char) \<Rightarrow> nat \<Rightarrow> string" where
  "in_base base print n =
    (if base < 2 \<or> n < base then [print n] else in_base base print (n div base) @ [print (n mod base)])"

declare in_base.simps [simp del]

lemma in_base_eqs:
  "n < base \<Longrightarrow> in_base base print n = [print n]"
  "2 \<le> base \<Longrightarrow> base \<le> n \<Longrightarrow> in_base base print n = in_base base print (n div base) @ [print (n mod base)]"
  by (subst in_base.simps; simp add: not_less)+

locale numeral_text =
  fixes "value" :: "char \<Rightarrow> nat option" and base :: nat and print :: "nat \<Rightarrow> char"
  assumes base: "2 \<le> base"
    and value_print: "d < base \<Longrightarrow> value (print d) = Some d"
begin

lemma read_in_base: "n < big \<Longrightarrow> read_number value base 0 (in_base base print n @ s) = read_number value base n s"
proof (induction n arbitrary: s rule: less_induct)
  case (less n)
  show ?case
  proof (cases "n < base")
    case True
    then show ?thesis using less.prems value_print by (subst in_base.simps) (simp add: not_le)
  next
    case False
    have "n div base < n" using base False by (intro div_less_dividend) auto
    then have "read_number value base 0 (in_base base print (n div base) @ print (n mod base) # s) =
        read_number value base (n div base) (print (n mod base) # s)"
      using less.prems by (intro less.IH) auto
    also have "\<dots> = read_number value base n s"
      using value_print [of "n mod base"] base less.prems by (simp add: not_le)
    finally show ?thesis using False base by (subst in_base.simps) simp
  qed
qed

lemma in_base_values: "c \<in> set (in_base base print n) \<Longrightarrow> value c \<noteq> None"
proof (induction n rule: less_induct)
  case (less n)
  show ?case
  proof (cases "n < base")
    case True
    then show ?thesis using less.prems value_print by (subst (asm) in_base.simps) simp
  next
    case False
    moreover have "n div base < n" using base False by (intro div_less_dividend) auto
    ultimately show ?thesis
      using less.prems less.IH [of "n div base"] value_print [of "n mod base"] base by (subst (asm) in_base.simps) auto
  qed
qed

lemma in_base_nonempty: "in_base base print n \<noteq> []"
  by (subst in_base.simps) simp

lemma read_stops: "s = [] \<or> value (hd s) = None \<Longrightarrow> read_number value base n s = Some (n, s)"
  by (cases s) auto

lemma read_text:
  assumes "n < big" "s = [] \<or> value (hd s) = None"
  shows "read_number value base 0 (in_base base print n @ s) = Some (n, s)"
    "in_base base print n @ s \<noteq> []" "value (hd (in_base base print n @ s)) \<noteq> None"
  using assms in_base_nonempty in_base_values [of "hd (in_base base print n)" n]
  by (simp_all add: read_in_base read_stops)

end

definition dec_digit :: "nat \<Rightarrow> char" where
  "dec_digit d = ''0123456789'' ! d"

lemma digits_read: "list_all (\<lambda>d. digit (dec_digit d) = Some d) [0..<10]"
  "list_all (\<lambda>d. hex_value (hex_digit d) = Some d) [0..<16]"
  by code_simp+

interpretation decimal: numeral_text digit 10 dec_digit
  using digits_read(1) by unfold_locales (simp_all add: list_all_iff)

interpretation hexadecimal: numeral_text hex_value 16 hex_digit
  using digits_read(2) by unfold_locales (simp_all add: list_all_iff)

abbreviation dec :: "nat \<Rightarrow> string" where "dec \<equiv> in_base 10 dec_digit"
abbreviation hex :: "nat \<Rightarrow> string" where "hex \<equiv> in_base 16 hex_digit"

lemma dtoi_dec: "n < big \<Longrightarrow> s = [] \<or> digit (hd s) = None \<Longrightarrow> dtoi (dec n @ s) = Some (n, s)"
  using decimal.read_text [of n s] by (simp add: dtoi_def)

lemma xtoi_hex: "n < big \<Longrightarrow> s = [] \<or> hex_value (hd s) = None \<Longrightarrow> xtoi (hex n @ s) = Some (n, s)"
  using hexadecimal.read_text [of n s] by (simp add: xtoi_def)

text \<open>The dotted form of an IPv4 address and the form of an IPv6 address with all its groups.\<close>

definition dotted :: "bytes \<Rightarrow> string" where
  "dotted ip = tl (concat (map (\<lambda>b. CHR ''.'' # dec (unat b)) ip))"

fun groups_of :: "bytes \<Rightarrow> nat list" where
  "groups_of (a # b # ip) = (256 * unat a + unat b) # groups_of ip"
| "groups_of _ = []"

definition coloned :: "bytes \<Rightarrow> string" where
  "coloned ip = tl (concat (map (\<lambda>g. CHR '':'' # hex g) (groups_of ip)))"

lemma word_of_unat_u8: "word_of_nat (unat (b :: byte)) = b"
  by simp

lemma unat_byte: "unat (b :: byte) < 256"
  using unat_bound [of b] by simp

lemma parse_octets_dotted:
  "p \<noteq> [] \<Longrightarrow> parse_octets (length ip) p (concat (map (\<lambda>b. CHR ''.'' # dec (unat b)) ip)) = Some (p @ ip)"
proof (induction ip arbitrary: p)
  case (Cons b ip)
  have "dtoi (dec (unat b) @ concat (map (\<lambda>b. CHR ''.'' # dec (unat b)) ip)) =
      Some (unat b, concat (map (\<lambda>b. CHR ''.'' # dec (unat b)) ip))"
    using unat_byte [of b] by (intro dtoi_dec) (cases ip; simp add: big_def digit_def)+
  then show ?case using Cons.IH [of "p @ [b]"] Cons.prems unat_byte [of b] by (simp add: not_less)
qed simp

lemma parseIPv4_dotted:
  assumes "length ip = 4"
  shows "parseIPv4 (dotted ip) = Some (net_IPv4 ip)"
proof -
  obtain b rest where ip: "ip = b # rest" "length rest = 3" using assms by (cases ip) auto
  have "dtoi (dotted ip) = Some (unat b, concat (map (\<lambda>b. CHR ''.'' # dec (unat b)) rest))"
    using unat_byte [of b] ip(2) unfolding dotted_def ip(1)
    by (simp, intro dtoi_dec) (cases rest; simp add: big_def digit_def)+
  moreover have "dotted ip \<noteq> []" using ip decimal.in_base_nonempty by (simp add: dotted_def)
  ultimately show ?thesis
    using parse_octets_dotted [of "[b]" rest] ip unat_byte [of b]
    by (simp add: parseIPv4_def numeral_eq_Suc not_less)
qed

lemma parse_groups_coloned:
  "length ip \<le> 2 * k \<Longrightarrow> even (length ip) \<Longrightarrow> ip \<noteq> [] \<Longrightarrow>
    parse_groups k p None (coloned ip) = Some ([], p @ ip, None)"
proof (induction k arbitrary: p ip)
  case (Suc k)
  obtain a b rest where ip: "ip = a # b # rest"
    using Suc.prems(2,3) by (cases ip rule: groups_of.cases) auto
  let ?n = "256 * unat a + unat b"
  have n: "?n < 65536" using unat_byte [of a] unat_byte [of b] by simp
  have bytes: "word_of_nat (?n div 256) = a" "word_of_nat ?n = b"
  proof -
    show "word_of_nat (?n div 256) = a" using unat_byte [of b] by simp
    show "word_of_nat ?n = b"
      using unat_byte [of b] by (simp only: word_unat_eq_iff unat_of_nat) simp
  qed
  let ?tail = "concat (map (\<lambda>g. CHR '':'' # hex g) (groups_of rest))"
  have printed: "coloned ip = hex ?n @ ?tail" by (simp add: coloned_def ip)
  have stop: "?tail = [] \<or> hex_value (hd ?tail) = None" "?tail \<noteq> [] \<Longrightarrow> hd ?tail = CHR '':''"
    by (cases "groups_of rest"; simp add: hex_value_def)+
  then have read: "xtoi (coloned ip) = Some (?n, ?tail)"
    unfolding printed using n by (intro xtoi_hex) (auto simp: big_def)
  show ?case
  proof (cases "rest = []")
    case True
    then show ?thesis using read n bytes by (simp add: Let_def ip)
  next
    case False
    then obtain c d more where rest: "rest = c # d # more"
      using Suc.prems(2) by (cases rest rule: groups_of.cases) (auto simp: ip)
    have tail: "?tail = CHR '':'' # coloned rest" by (simp add: coloned_def rest)
    have head: "coloned rest \<noteq> []" "hd (coloned rest) \<noteq> CHR '':''"
      using hexadecimal.in_base_nonempty hexadecimal.in_base_values [of "hd (hex (256 * unat c + unat d))" "256 * unat c + unat d"]
      by (auto simp: coloned_def rest hex_value_def)
    have "parse_groups k (p @ [a, b]) None (coloned rest) = Some ([], (p @ [a, b]) @ rest, None)"
      using Suc.prems False by (intro Suc.IH) (auto simp: ip)
    then show ?thesis using read n bytes head by (simp add: Let_def tail ip)
  qed
qed simp

lemma in_set_tl: "c \<in> set (tl xs) \<Longrightarrow> c \<in> set xs"
  by (cases xs) auto

lemma printed_chars:
  "c \<in> set (dotted ip) \<Longrightarrow> c = CHR ''.'' \<or> digit c \<noteq> None"
  "c \<in> set (coloned ip) \<Longrightarrow> c = CHR '':'' \<or> hex_value c \<noteq> None"
  using decimal.in_base_values hexadecimal.in_base_values
  by (fastforce simp: dotted_def coloned_def dest!: in_set_tl split: if_splits)+

lemma first_mark:
  assumes "dropWhile P s = c # r"
  shows "\<not> P c" "c \<in> set s"
  using assms hd_dropWhile [of P s] set_dropWhileD [of c P s] by auto

lemma ParseIP_dotted:
  assumes "length ip = 4"
  shows "ParseIP (dotted ip) = Some (net_IPv4 ip)"
proof -
  let ?P = "\<lambda>c. c \<noteq> CHR ''.'' \<and> c \<noteq> CHR '':''"
  obtain a b rest where "ip = a # b # rest" using assms by (cases ip rule: groups_of.cases) auto
  then have "CHR ''.'' \<in> set (dotted ip)"
    using decimal.in_base_nonempty by (cases "dec (unat a)") (auto simp: dotted_def)
  then have "dropWhile ?P (dotted ip) \<noteq> []" by (auto simp: dropWhile_eq_Nil_conv)
  then obtain c r where c: "dropWhile ?P (dotted ip) = c # r" by (cases "dropWhile ?P (dotted ip)") auto
  have "c = CHR ''.''"
    using first_mark [OF c] printed_chars(1) [of c ip] by (auto simp: digit_def)
  with c parseIPv4_dotted [OF assms] show ?thesis by (simp add: ParseIP_def)
qed

lemma ParseIP_coloned:
  assumes "length ip = 16"
  shows "ParseIP (coloned ip) = Some ip"
proof -
  let ?P = "\<lambda>c. c \<noteq> CHR ''.'' \<and> c \<noteq> CHR '':''"
  obtain a b c d rest where ip: "ip = a # b # c # d # rest"
    using assms by (cases ip rule: groups_of.cases; cases "tl (tl ip)" rule: groups_of.cases) auto
  have "CHR '':'' \<in> set (coloned ip)"
    using hexadecimal.in_base_nonempty by (cases "hex (256 * unat a + unat b)") (auto simp: coloned_def ip)
  then have "dropWhile ?P (coloned ip) \<noteq> []" by (auto simp: dropWhile_eq_Nil_conv)
  then obtain x r where x: "dropWhile ?P (coloned ip) = x # r" by (cases "dropWhile ?P (coloned ip)") auto
  have colon: "x \<noteq> CHR ''.''"
    using first_mark [OF x] printed_chars(2) [of x ip] by (auto simp: hex_value_def)
  have "hd (coloned ip) \<noteq> CHR '':''"
    using hexadecimal.in_base_nonempty hexadecimal.in_base_values [of "hd (hex (256 * unat a + unat b))" "256 * unat a + unat b"]
    by (auto simp: coloned_def ip hex_value_def)
  then have "take 2 (coloned ip) \<noteq> ''::''" by (cases "coloned ip") auto
  moreover have "parse_groups 8 [] None (coloned ip) = Some ([], ip, None)"
    using parse_groups_coloned [of ip 8 "[]"] assms by (auto simp: ip)
  ultimately have "parseIPv6 (coloned ip) = Some ip" using assms by (simp add: parseIPv6_def expand_def)
  with x colon show ?thesis by (simp add: ParseIP_def)
qed

lemma split_last_at:
  assumes "c \<notin> set t"
  shows "split_last c (s @ c # t) = Some (s, t)"
proof -
  have "takeWhile (\<lambda>x. x \<noteq> c) (rev t @ c # rev s) = rev t" "dropWhile (\<lambda>x. x \<noteq> c) (rev t @ c # rev s) = c # rev s"
    using assms by (subst takeWhile_append2 dropWhile_append2; auto)+
  then show ?thesis by (simp add: split_last_def)
qed

lemma SplitHostPort_plain:
  assumes "set host \<inter> {CHR '':'', CHR ''['', CHR '']''} = {}" "set port \<inter> {CHR '':'', CHR ''['', CHR '']''} = {}"
  shows "SplitHostPort (host @ CHR '':'' # port) = Some (host, port)"
  using assms split_last_at [of "CHR '':''" port host] by (cases host) (auto simp: SplitHostPort_def)

lemma SplitHostPort_bracket:
  assumes "set host \<inter> {CHR ''['', CHR '']''} = {}" "set port \<inter> {CHR '':'', CHR ''['', CHR '']''} = {}"
  shows "SplitHostPort (CHR ''['' # host @ CHR '']'' # CHR '':'' # port) = Some (host, port)"
proof -
  have "split_last CHR '':'' ((CHR ''['' # host @ [CHR '']'']) @ CHR '':'' # port) = Some (CHR ''['' # host @ [CHR '']''], port)"
    using assms(2) by (intro split_last_at) auto
  then have cut: "split_last CHR '':'' (CHR ''['' # host @ CHR '']'' # CHR '':'' # port) = Some (CHR ''['' # host @ [CHR '']''], port)"
    by simp
  have "takeWhile (\<lambda>c. c \<noteq> CHR '']'') (host @ CHR '']'' # CHR '':'' # port) = host"
  proof -
    have "\<forall>x \<in> set host. x \<noteq> CHR '']''" using assms(1) by auto
    then show ?thesis by (simp add: takeWhile_append2)
  qed
  then show ?thesis
    using assms by (auto simp: SplitHostPort_def cut Let_def)
qed

lemma port_digits_dec:
  "n < 65536 \<Longrightarrow> port_digits 0 (dec n @ s) = port_digits (word_of_nat n) s"
proof (induction n arbitrary: s rule: less_induct)
  case (less n)
  have add: "port_digits (word_of_nat m) (dec_digit d # s) = port_digits (word_of_nat (10 * m + d)) s"
    if "m < 6554" "d < 10" for m d s
  proof -
    have "unat (word_of_nat m :: u32) = m" "unat (word_of_nat m * 10 :: u32) = 10 * m"
      "unat (word_of_nat m * 10 + word_of_nat d :: u32) = 10 * m + d"
      using that by (simp_all add: unat_of_nat unat_word_ariths)
    then have "\<not> (word_of_nat m :: u32) \<ge> 1073741824" "\<not> (word_of_nat m * 10 + word_of_nat d :: u32) < word_of_nat m * 10"
      using that by (simp_all add: word_le_nat_alt word_less_nat_alt)
    then show ?thesis using decimal.value_print [OF that(2)] by (simp add: Let_def mult.commute)
  qed
  show ?case
  proof (cases "n < 10")
    case True
    then show ?thesis using add [of 0 n] by (subst in_base.simps) simp
  next
    case False
    then have "port_digits 0 (dec (n div 10) @ dec_digit (n mod 10) # s) = port_digits (word_of_nat (n div 10)) (dec_digit (n mod 10) # s)"
      using less.prems by (intro less.IH) auto
    also have "\<dots> = port_digits (word_of_nat n) s"
      using less.prems add [of "n div 10" "n mod 10"] by simp
    finally show ?thesis using False by (subst in_base.simps) simp
  qed
qed

lemma LookupPort_dec:
  assumes "n < 65536"
  shows "LookupPort N (dec n) = Some (int n)"
proof -
  have "hd (dec n) \<noteq> CHR ''+''" "hd (dec n) \<noteq> CHR ''-''"
    using decimal.in_base_nonempty [of n] decimal.in_base_values [of "hd (dec n)" n] by (auto simp: digit_def)
  moreover have "unat (word_of_nat n :: u32) = n" using assms by (simp add: unat_of_nat)
  then have "\<not> (1073741824 :: u32) \<le> word_of_nat n" "uint (word_of_nat n :: u32) = int n"
    using assms by (simp_all add: word_le_nat_alt) (metis uint_nat)
  ultimately have "parsePort (dec n) = Some (int n)"
    using port_digits_dec [OF assms, of "[]"] decimal.in_base_nonempty [of n] by (simp add: parsePort_def Let_def)
  then show ?thesis using assms by (simp add: LookupPort_def)
qed

lemma dec_chars: "set (dec n) \<inter> {CHR '':'', CHR ''['', CHR '']''} = {}"
  using decimal.in_base_values [of "CHR '':''" n] decimal.in_base_values [of "CHR ''[''" n]
    decimal.in_base_values [of "CHR '']''" n] by (auto simp: digit_def)

lemma parseEndpoint_dotted:
  assumes "length ip = 4" "port < 65536"
  shows "parseEndpoint N (dotted ip @ CHR '':'' # dec port) = Some \<lparr>ua_IP = net_IPv4 ip, ua_Port = word_of_nat port\<rparr>"
proof -
  have "CHR '':'' \<notin> set (dotted ip)" "CHR ''['' \<notin> set (dotted ip)" "CHR '']'' \<notin> set (dotted ip)"
    using printed_chars(1) [of "CHR '':''" ip] printed_chars(1) [of "CHR ''[''" ip]
      printed_chars(1) [of "CHR '']''" ip] by (auto simp: digit_def)
  then have "set (dotted ip) \<inter> {CHR '':'', CHR ''['', CHR '']''} = {}" by simp
  from SplitHostPort_plain [OF this dec_chars] show ?thesis
    using ParseIP_dotted [OF assms(1)] LookupPort_dec [OF assms(2), of N]
    by (simp add: parseEndpoint_def ResolveUDPAddr_literal_def)
qed

lemma parseEndpoint_coloned:
  assumes "length ip = 16" "port < 65536"
  shows "parseEndpoint N (CHR ''['' # coloned ip @ CHR '']'' # CHR '':'' # dec port) = Some \<lparr>ua_IP = ip, ua_Port = word_of_nat port\<rparr>"
proof -
  have "CHR ''['' \<notin> set (coloned ip)" "CHR '']'' \<notin> set (coloned ip)"
    using printed_chars(2) [of "CHR ''[''" ip] printed_chars(2) [of "CHR '']''" ip] by (auto simp: hex_value_def)
  then have "set (coloned ip) \<inter> {CHR ''['', CHR '']''} = {}" by simp
  from SplitHostPort_bracket [OF this dec_chars] show ?thesis
    using ParseIP_coloned [OF assms(1)] LookupPort_dec [OF assms(2), of N]
    by (simp add: parseEndpoint_def ResolveUDPAddr_literal_def)
qed

lemma printed_example: "dotted [192, 0, 2, 1] = ''192.0.2.1''" "dec 6666 = ''6666''"
  by (simp_all add: dotted_def in_base_eqs dec_digit_def)

text \<open>The route to everything, as \<^verbatim>\<open>Init\<close> configures it.\<close>

lemma ParseCIDR_default: "ParseCIDR ''0.0.0.0/0'' = Some ([0, 0, 0, 0], 0)"
proof -
  have zero: "dec 0 = ''0''" by (simp add: in_base.simps dec_digit_def)
  have "parseIPv4 ''0.0.0.0'' = Some (net_IPv4 [0, 0, 0, 0])"
    using parseIPv4_dotted [of "[0, 0, 0, 0]"] by (simp add: dotted_def zero)
  moreover have "dtoi ''0'' = Some (0, [])" using dtoi_dec [of 0 "[]"] by (simp add: zero big_def)
  moreover have "CIDRMask 0 32 = [0, 0, 0, 0]" by code_simp
  ultimately show ?thesis by (simp add: ParseCIDR_def net_IPv4_def)
qed

section \<open>Properties\<close>

text \<open>
  C29: the text of an address is read back: an IPv4 address in dotted form and an IPv6 address in
  brackets, each with a port, are resolved to that address and that port, whatever names the
  system has for services.
\<close>

theorem endpoint_round_trip:
  assumes port: "port < 65536" and ip: "length ip4 = 4" "length ip6 = 16"
  shows "parseEndpoint N (dotted ip4 @ CHR '':'' # dec port) =
      Some \<lparr>ua_IP = net_IPv4 ip4, ua_Port = word_of_nat port\<rparr> \<and>
    parseEndpoint N (CHR ''['' # coloned ip6 @ CHR '']'' # CHR '':'' # dec port) =
      Some \<lparr>ua_IP = ip6, ua_Port = word_of_nat port\<rparr>"
  using parseEndpoint_dotted [OF ip(1) port] parseEndpoint_coloned [OF ip(2) port] by blast

theorem endpoint_round_trip_witness:
  "parseEndpoint \<lparr>lookup_service = (\<lambda>_. None), dial = (\<lambda>_. True)\<rparr> (dotted [192, 0, 2, 1] @ CHR '':'' # dec 6666) =
      Some \<lparr>ua_IP = net_IPv4 [192, 0, 2, 1], ua_Port = word_of_nat 6666\<rparr> \<and>
    parseEndpoint \<lparr>lookup_service = (\<lambda>_. None), dial = (\<lambda>_. True)\<rparr>
      (CHR ''['' # coloned ([32, 1, 13, 184] @ replicate 11 0 @ [1]) @ CHR '']'' # CHR '':'' # dec 6666) =
      Some \<lparr>ua_IP = [32, 1, 13, 184] @ replicate 11 0 @ [1], ua_Port = word_of_nat 6666\<rparr>"
  by (rule endpoint_round_trip) simp_all

text \<open>
  No endpoint is looked up by name: whatever text is accepted, its host is the text of an IP
  address, which comes out in 16 bytes, and its port lies below 65536.
\<close>

theorem endpoints_are_literal:
  assumes "parseEndpoint N s = Some addr"
  shows "\<exists>host port. SplitHostPort s = Some (host, port) \<and> ParseIP host = Some (ua_IP addr) \<and>
    length (ua_IP addr) = 16 \<and> unat (ua_Port addr) < 65536"
proof -
  obtain host port p where "SplitHostPort s = Some (host, port)" "ParseIP host = Some (ua_IP addr)"
    "LookupPort N port = Some p" "ua_Port addr = word_of_int p"
    using assms by (auto simp: parseEndpoint_def ResolveUDPAddr_literal_def split: option.splits if_splits)
  moreover from this(3) have "0 \<le> p" "p < 65536" by (auto simp: LookupPort_def split: option.splits if_splits)
  then have "unat (word_of_int p :: u64) < 65536"
    by (simp add: unat_eq_nat_uint uint_word_of_int nat_less_iff)
  ultimately show ?thesis using ParseIP_length by auto
qed

end
