(* ===== verification/Uapi.thy ===== *)
theory Uapi
  imports Device_Ops Net_Text
begin

text \<open>
  Configuration: \<^verbatim>\<open>SetOperation\<close> of \<^verbatim>\<open>controller/uapi.go\<close>, the UDP socket of
  \<^verbatim>\<open>controller/conn.go\<close>, \<^verbatim>\<open>changeNetwork\<close> of
  \<^verbatim>\<open>controller/init.go\<close> and the configuration \<^verbatim>\<open>Init\<close> of \<^verbatim>\<open>main.go\<close>
  makes. Whether a socket opens is decided by the operating system and is the field \<open>dial\<close> of
  the parameter \<open>netenv\<close>.
\<close>

section \<open>The strings\<close>

text \<open>\<^verbatim>\<open>strings.SplitN(v, "=", 2)\<close>: None when there is no separator.\<close>

fun split_equals :: "string \<Rightarrow> (string \<times> string) option" where
  "split_equals [] = None"
| "split_equals (c # s) =
    (if c = CHR ''='' then Some ([], s)
     else map_option (\<lambda>(k, v). (c # k, v)) (split_equals s))"

text \<open>\<^verbatim>\<open>strconv.ParseUint(value, 10, 16)\<close>: decimal digits, at least one, below 2^16.\<close>

fun parse_digits :: "nat \<Rightarrow> string \<Rightarrow> nat option" where
  "parse_digits n [] = Some n"
| "parse_digits n (c # s) =
    (case digit c of
      None \<Rightarrow> None
    | Some d \<Rightarrow> if n * 10 + d < 65536 then parse_digits (n * 10 + d) s else None)"

definition ParseUint16 :: "string \<Rightarrow> nat option" where
  "ParseUint16 s = (if s = [] then None else parse_digits 0 s)"

section \<open>The UDP socket\<close>

definition createUDPConn :: "netenv \<Rightarrow> Device \<Rightarrow> UDPAddr \<Rightarrow> Device \<times> bool" where
  "createUDPConn N D raddr =
    (let D = D\<lparr>dv_conn := None\<rparr>
     in if dial N raddr
        then (D\<lparr>dv_conn := Some raddr, dv_newUDPConn := signalSend (dv_newUDPConn D)\<rparr>, True)
        else (D, False))"

text \<open>
  The mark of a socket. \<open>ios\<close> is what \<^verbatim>\<open>IsiOS\<close> holds when packages are initialised, before any
  configuration was read. The error of setting the option is stored in the variable that the
  result of \<^verbatim>\<open>Control\<close> is assigned to afterwards; \<open>createUDPConn\<close> looks at none.
\<close>

definition fwmarkIoctl :: "bool \<Rightarrow> int" where
  "fwmarkIoctl ios = (if \<not> ios then 36 else 0)"

definition setMark :: "int \<Rightarrow> bool \<Rightarrow> bool \<Rightarrow> (int \<Rightarrow> u32 \<Rightarrow> bool) \<Rightarrow> u32 \<Rightarrow> bool" where
  "setMark ioctl has_conn control setsockopt value =
    (if ioctl = 0 then True
     else if \<not> has_conn then False
     else
       let failed = (if control then \<not> setsockopt ioctl value else False);
           failed = (\<not> control)
       in \<not> failed)"

lemma refused_mark_not_reported: "setMark (fwmarkIoctl False) True True (\<lambda>_ _. False) value"
  by (simp add: setMark_def)

section \<open>One configuration line\<close>

datatype uapi_error = Failed_to_unmarshal | Failed_own_private | Failed_own_public | Failed_their_public
  | Failed_endpoint | Failed_udp_conn | Failed_allowed_ip | Failed_keepalive_interval | Invalid_key

text \<open>
  A step of the loop over the lines: the device and the local \<^verbatim>\<open>peer\<close>, or the error it
  returns. None is a panic, here always the dereference of a nil peer or of its nil device.
\<close>

type_synonym uapi_result = "(Device \<times> (uapi_error + pid option)) option"

definition set_their_public :: "crypto \<Rightarrow> Device \<Rightarrow> string \<Rightarrow> time \<Rightarrow> uapi_result" where
  "set_their_public C D v now =
    (case FromBase64 v of
      None \<Rightarrow> Some (D, Inl Failed_their_public)
    | Some pubKey \<Rightarrow>
        (case dv_peers D of
          Some p \<Rightarrow> Some (D, Inr (Some p))
        | None \<Rightarrow> let (D, p) = NewPeer C D pubKey now in Some (D, Inr (Some p))))"

definition set_endpoint :: "netenv \<Rightarrow> Device \<Rightarrow> pid option \<Rightarrow> string \<Rightarrow> uapi_result" where
  "set_endpoint N D peer v =
    (case parseEndpoint N v of
      None \<Rightarrow> Some (D, Inl Failed_endpoint)
    | Some addr \<Rightarrow>
        let peer = (if peer = None then dv_peers D else peer)
        in case peer of
             None \<Rightarrow> None
           | Some p \<Rightarrow>
               let D = upd_peer D p (\<lambda>q. q\<lparr>p_endpoint := Some addr\<rparr>);
                   (D, ok) = createUDPConn N D addr
               in if \<not> ok then Some (D, Inl Failed_udp_conn)
                  else if \<not> p_hasDevice (st_peer D p) then None
                  else Some (D, Inr peer))"

definition set_allowed_ip :: "Device \<Rightarrow> pid option \<Rightarrow> string \<Rightarrow> uapi_result" where
  "set_allowed_ip D peer v =
    (case ParseCIDR v of
      None \<Rightarrow> Some (D, Inl Failed_allowed_ip)
    | Some (ip, ones) \<Rightarrow>
        (case rt_Insert (dv_routingTable D) ip ones peer of
          None \<Rightarrow> None
        | Some table \<Rightarrow> Some (D\<lparr>dv_routingTable := table\<rparr>, Inr peer)))"

definition set_keepalive :: "Device \<Rightarrow> pid option \<Rightarrow> string \<Rightarrow> uapi_result" where
  "set_keepalive D peer v =
    (case ParseUint16 v of
      None \<Rightarrow> Some (D, Inl Failed_keepalive_interval)
    | Some secs \<Rightarrow>
        (case peer of
          None \<Rightarrow> None
        | Some p \<Rightarrow>
            let old = p_persistentKeepaliveInterval (st_peer D p);
                D = upd_peer D p (\<lambda>q. q\<lparr>p_persistentKeepaliveInterval := word_of_nat secs\<rparr>)
            in if old = 0 \<and> secs \<noteq> 0
               then map_option (\<lambda>(D, _). (D, Inr peer)) (SendKeepAlive D p)
               else Some (D, Inr peer)))"

definition uapi_line ::
  "crypto \<Rightarrow> netenv \<Rightarrow> Device \<Rightarrow> pid option \<Rightarrow> string \<Rightarrow> time \<Rightarrow> uapi_result" where
  "uapi_line C N D peer line now =
    (case split_equals line of
      None \<Rightarrow> Some (D, Inl Failed_to_unmarshal)
    | Some (key, v) \<Rightarrow>
        if key = ''own_private'' then
          (case FromBase64 v of
            None \<Rightarrow> Some (D, Inl Failed_own_private)
          | Some sk \<Rightarrow> Some (D\<lparr>dv_privateKey := sk\<rparr>, Inr peer))
        else if key = ''own_public'' then
          (case FromBase64 v of
            None \<Rightarrow> Some (D, Inl Failed_own_public)
          | Some pk \<Rightarrow> map_option (\<lambda>D. (D, Inr peer)) (SetPublicKey C D pk))
        else if key = ''their_public'' then set_their_public C D v now
        else if key = ''endpoint'' then set_endpoint N D peer v
        else if key = ''allowed_ip'' then set_allowed_ip D peer v
        else if key = ''persistent_keepalive_interval'' then set_keepalive D peer v
        else Some (D, Inl Invalid_key))"

fun uapi_lines ::
  "crypto \<Rightarrow> netenv \<Rightarrow> Device \<Rightarrow> pid option \<Rightarrow> string list \<Rightarrow> time \<Rightarrow>
    (Device \<times> uapi_error option) option" where
  "uapi_lines C N D peer [] now = Some (D, None)"
| "uapi_lines C N D peer (v # vs) now =
    (case uapi_line C N D peer v now of
      None \<Rightarrow> None
    | Some (D, Inl e) \<Rightarrow> Some (D, Some e)
    | Some (D, Inr peer) \<Rightarrow> uapi_lines C N D peer vs now)"

definition SetOperation ::
  "crypto \<Rightarrow> netenv \<Rightarrow> Device \<Rightarrow> string list \<Rightarrow> time \<Rightarrow> (Device \<times> uapi_error option) option" where
  "SetOperation C N D values now = uapi_lines C N D None values now"

text \<open>The error is only logged.\<close>

definition changeNetwork ::
  "crypto \<Rightarrow> netenv \<Rightarrow> Device \<Rightarrow> string \<Rightarrow> time \<Rightarrow> Device option" where
  "changeNetwork C N D sourceAddr now =
    map_option fst (SetOperation C N D [''endpoint='' @ sourceAddr] now)"

section \<open>The configuration of the application\<close>

record config =
  cf_OwnPrivate :: string
  cf_OwnPublic :: string
  cf_TheirPublic :: string
  cf_Endpoint :: string

definition config_lines :: "config \<Rightarrow> string list" where
  "config_lines cf = [''own_private='' @ cf_OwnPrivate cf, ''own_public='' @ cf_OwnPublic cf,
    ''their_public='' @ cf_TheirPublic cf, ''endpoint='' @ cf_Endpoint cf,
    ''allowed_ip=0.0.0.0/0'', ''persistent_keepalive_interval=15'']"

definition Init_device ::
  "crypto \<Rightarrow> netenv \<Rightarrow> config \<Rightarrow> time \<Rightarrow> (Device \<times> uapi_error option) option" where
  "Init_device C N cf now = SetOperation C N (NewDevice now) (config_lines cf) now"

section \<open>What a configuration establishes\<close>

lemma split_config [simp]:
  "split_equals (''own_private='' @ v) = Some (''own_private'', v)"
  "split_equals (''own_public='' @ v) = Some (''own_public'', v)"
  "split_equals (''their_public='' @ v) = Some (''their_public'', v)"
  "split_equals (''endpoint='' @ v) = Some (''endpoint'', v)"
  "split_equals ''allowed_ip=0.0.0.0/0'' = Some (''allowed_ip'', ''0.0.0.0/0'')"
  "split_equals ''persistent_keepalive_interval=15'' = Some (''persistent_keepalive_interval'', ''15'')"
  by simp_all

declare ParseCIDR_default [simp]

lemma ParseUint16_15 [simp]: "ParseUint16 ''15'' = Some 15"
  by (simp add: ParseUint16_def digit_def)

text \<open>A configuration whose texts decode and whose endpoint can be dialled.\<close>

definition config_valid ::
  "netenv \<Rightarrow> config \<Rightarrow> bytes \<Rightarrow> bytes \<Rightarrow> bytes \<Rightarrow> UDPAddr \<Rightarrow> bool" where
  "config_valid N cf sk pk tk addr \<longleftrightarrow>
    FromBase64 (cf_OwnPrivate cf) = Some sk \<and> FromBase64 (cf_OwnPublic cf) = Some pk \<and>
    FromBase64 (cf_TheirPublic cf) = Some tk \<and> parseEndpoint N (cf_Endpoint cf) = Some addr \<and>
    dial N addr"

lemma FromBase64_length: "FromBase64 s = Some k \<Longrightarrow> length k = 32"
  by (auto simp: FromBase64_def loadExactBase64_def split: option.splits if_splits)

lemma new_device_fields [simp]:
  "dv_peers (NewDevice now) = Some 0" "handshake_of (NewDevice now) 0 = zero_handshake"
  "st_nextPeer (NewDevice now) = 1" "p_hasDevice (st_peer (NewDevice now) 0) = False"
  "dv_routingTable (NewDevice now) = \<lparr>rt_IPv4 = Nil_Trie, rt_IPv6 = Nil_Trie\<rparr>"
  "dv_newUDPConn (NewDevice now) = make_chan 1"
  by (simp_all add: NewDevice_def Let_def handshake_of_def zero_peer_def zero_device_def rt_Reset_def)

text \<open>The own keys of a fresh device: the placeholder peer is dropped unless the key is zero.\<close>

definition keyed :: "crypto \<Rightarrow> Device \<Rightarrow> bytes \<Rightarrow> bytes \<Rightarrow> Device" where
  "keyed C D sk pk = D\<lparr>dv_privateKey := sk, dv_publicKey := pk, dv_mac := cc_Init C (dv_mac D) pk,
    dv_peers := None\<rparr>"

lemma SetPublicKey_fresh:
  assumes "low_order_ok C" "length sk = 32" "\<not> keyIsZero sk"
  shows "\<exists>D'. SetPublicKey C ((NewDevice now)\<lparr>dv_privateKey := sk\<rparr>) pk = Some D' \<and>
    dv_privateKey D' = sk \<and> dv_publicKey D' = pk \<and> dv_peers D' = None \<and> st_nextPeer D' = 1 \<and>
    dv_routingTable D' = \<lparr>rt_IPv4 = Nil_Trie, rt_IPv6 = Nil_Trie\<rparr> \<and> st_out D' = st_out zero_device \<and>
    \<not> dv_stopped D' \<and> dv_decryption D' = make_chan QueueInboundSize \<and>
    dv_indices D' = it_Init \<and> dv_handshakeQueue D' = make_chan QueueHandshakeSize \<and> st_nextKeyPair D' = 0"
proof -
  have fields: "dv_peers ((NewDevice now)\<lparr>dv_privateKey := sk, dv_publicKey := pk, dv_mac := m\<rparr>) = Some 0"
    "handshake_of ((NewDevice now)\<lparr>dv_privateKey := sk, dv_publicKey := pk, dv_mac := m\<rparr>) 0 = zero_handshake" for m
    using new_device_fields(2) [of now] by (simp_all add: handshake_of_def)
  have "sharedSecret C sk (hs_remoteStatic zero_handshake) = replicate 32 0"
    using assms(1,2) by (simp add: sharedSecret_def low_order_ok_def zero_handshake_def)
  moreover have "isZero (replicate 32 0)" by (simp add: isZero_iff)
  ultimately show ?thesis
    using assms(3)
    by (simp add: SetPublicKey_def Let_def fields rt_RemovePeer_def set_handshake_def upd_peer_def)
      (simp add: NewDevice_def Let_def zero_device_def)
qed

lemma new_peer_fields:
  fixes C D pk now
  defines "D' \<equiv> fst (NewPeer C D pk now)" and "p \<equiv> st_nextPeer D"
  shows "snd (NewPeer C D pk now) = p" "dv_peers D' = Some p" "dv_privateKey D' = dv_privateKey D"
    "dv_publicKey D' = dv_publicKey D" "dv_routingTable D' = dv_routingTable D"
    "hs_remoteStatic (handshake_of D' p) = pk"
    "hs_precomputedStaticStatic (handshake_of D' p) = sharedSecret C (dv_privateKey D) pk"
    "hs_presharedKey (handshake_of D' p) = replicate 32 0"
    "p_hasDevice (st_peer D' p)" "p_nonce (st_peer D' p) = make_chan QueueOutboundSize"
    "p_persistentKeepaliveInterval (st_peer D' p) = 0" "p_timer (st_peer D' p) = new_timers now"
    "p_signal (st_peer D' p) = new_signals" "hs_state (handshake_of D' p) = HandshakeZeroed"
    "hs_lastTimestamp (handshake_of D' p) = replicate 12 0"
    "hs_lastInitiationConsumption (handshake_of D' p) = zeroTime" "dv_stopped D' = dv_stopped D"
    "dv_decryption D' = dv_decryption D" "p_inbound (st_peer D' p) = make_chan QueueInboundSize"
    "dv_indices D' = dv_indices D" "hs_localIndex (handshake_of D' p) = 0"
    "dv_handshakeQueue D' = dv_handshakeQueue D" "st_nextKeyPair D' = st_nextKeyPair D"
  by (simp_all add: D'_def p_def NewPeer_def Let_def handshake_of_def zero_peer_def zero_handshake_def)
lemma commonBitsLoop_some: "length a = length b \<Longrightarrow> \<exists>n. commonBits a b = Some n"
  by (rule commonBits_ok [of a b]) auto

lemma default_route:
  assumes "length a = 4"
  shows "rt_LookupIPv4 \<lparr>rt_IPv4 = newNode [0, 0, 0, 0] 0 (Some p), rt_IPv6 = t\<rparr> a = Some (Some p)"
proof -
  obtain n where "commonBits [0, 0, 0, 0] a = Some n"
    using commonBitsLoop_some [of "[0, 0, 0, 0]" a] assms by auto
  moreover obtain b bs where "a = b # bs" using assms by (cases a) auto
  ultimately show ?thesis
    using assms by (simp add: rt_LookupIPv4_def Lookup_def newNode_def choose_bit_def)
qed

lemma default_route_ok: "rt_ok \<lparr>rt_IPv4 = newNode [0, 0, 0, 0] 0 (Some p), rt_IPv6 = Nil_Trie\<rparr>"
  using rt_Insert_refines [OF empty_table_ok, of "[0, 0, 0, 0]" 0 "Some p"] by (auto simp: rt_Insert_def empty_table_def)

lemma SendKeepAlive_empty:
  assumes "p_hasDevice (st_peer D p)" "chan_buf (p_nonce (st_peer D p)) = []"
    "0 < chan_cap (p_nonce (st_peer D p))"
  shows "\<exists>D' e. SendKeepAlive D p = Some (D', True) \<and>
    st_peer D' = (st_peer D)(p := (st_peer D p)\<lparr>p_nonce := (p_nonce (st_peer D p))\<lparr>chan_buf := [e]\<rparr>\<rparr>) \<and>
    dv_peers D' = dv_peers D \<and> dv_privateKey D' = dv_privateKey D \<and> dv_publicKey D' = dv_publicKey D \<and>
    dv_conn D' = dv_conn D \<and> dv_routingTable D' = dv_routingTable D \<and> dv_stopped D' = dv_stopped D \<and>
    dv_decryption D' = dv_decryption D \<and> dv_indices D' = dv_indices D \<and> qo_packet (st_out D' e) = [] \<and>
    dv_handshakeQueue D' = dv_handshakeQueue D \<and> st_nextKeyPair D' = st_nextKeyPair D"
  using assms
  by (auto simp: SendKeepAlive_def NewOutboundElement_def GetMessageBuffer_def Let_def chan_len_def
      chan_send_def upd_peer_def split: list.split)

definition configured :: "crypto \<Rightarrow> Device \<Rightarrow> bytes \<Rightarrow> bytes \<Rightarrow> bytes \<Rightarrow> UDPAddr \<Rightarrow> bool" where
  "configured C D sk pk tk addr \<longleftrightarrow>
    dv_peers D = Some 1 \<and> dv_privateKey D = sk \<and> dv_publicKey D = pk \<and> dv_conn D = Some addr \<and>
    hs_remoteStatic (handshake_of D 1) = tk \<and>
    hs_precomputedStaticStatic (handshake_of D 1) = sharedSecret C sk tk \<and>
    hs_presharedKey (handshake_of D 1) = replicate 32 0 \<and>
    p_persistentKeepaliveInterval (st_peer D 1) = 15 \<and> p_endpoint (st_peer D 1) = Some addr \<and>
    chan_len (p_nonce (st_peer D 1)) = 1 \<and> p_signal (st_peer D 1) = new_signals \<and>
    (\<exists>t. p_timer (st_peer D 1) = new_timers t) \<and> \<not> dv_stopped D \<and>
    dv_decryption D = make_chan QueueInboundSize \<and> p_inbound (st_peer D 1) = make_chan QueueInboundSize \<and>
    hs_lastTimestamp (handshake_of D 1) = replicate 12 0 \<and>
    hs_lastInitiationConsumption (handshake_of D 1) = zeroTime \<and>
    dv_indices D = it_Init \<and> hs_localIndex (handshake_of D 1) = 0 \<and>
    p_hasDevice (st_peer D 1) \<and>
    dv_handshakeQueue D = make_chan QueueHandshakeSize \<and> st_nextKeyPair D = 0 \<and> rt_ok (dv_routingTable D) \<and>
    (\<forall>a. length a = 4 \<longrightarrow> rt_LookupIPv4 (dv_routingTable D) a = Some (Some 1))"

text \<open>The peer \<open>NewPeer\<close> makes here has the name 1, which is kept as a numeral.\<close>

declare One_nat_def [simp del]

lemma Init_device_ok:
  assumes N: "config_valid N cf sk pk tk addr" and C: "low_order_ok C" and sk: "\<not> keyIsZero sk"
  shows "\<exists>D. Init_device C N cf now = Some (D, None) \<and> configured C D sk pk tk addr"
proof -
  have texts: "FromBase64 (cf_OwnPrivate cf) = Some sk" "FromBase64 (cf_OwnPublic cf) = Some pk"
    "FromBase64 (cf_TheirPublic cf) = Some tk" "parseEndpoint N (cf_Endpoint cf) = Some addr"
    "dial N addr"
    using N by (simp_all add: config_valid_def)
  obtain D2 where D2: "SetPublicKey C ((NewDevice now)\<lparr>dv_privateKey := sk\<rparr>) pk = Some D2"
    "dv_privateKey D2 = sk" "dv_publicKey D2 = pk" "dv_peers D2 = None" "st_nextPeer D2 = 1"
    "\<not> dv_stopped D2" "dv_decryption D2 = make_chan QueueInboundSize" "dv_indices D2 = it_Init"
    "dv_routingTable D2 = \<lparr>rt_IPv4 = Nil_Trie, rt_IPv6 = Nil_Trie\<rparr>"
    "dv_handshakeQueue D2 = make_chan QueueHandshakeSize" "st_nextKeyPair D2 = 0"
    using SetPublicKey_fresh [OF C FromBase64_length [OF texts(1)] sk] by blast
  define D3 where "D3 = fst (NewPeer C D2 tk now)"
  note F = new_peer_fields [of C D2 tk now, folded D3_def, unfolded D2]
  have L3: "set_their_public C D2 (cf_TheirPublic cf) now = Some (D3, Inr (Some 1))"
    using F(1) by (simp add: set_their_public_def texts D2(4) split_beta D3_def)
  define D4 where "D4 = (upd_peer D3 1 (\<lambda>q. q\<lparr>p_endpoint := Some addr\<rparr>))\<lparr>dv_conn := Some addr,
    dv_newUDPConn := signalSend (dv_newUDPConn D3)\<rparr>"
  have L4: "set_endpoint N D3 (Some 1) (cf_Endpoint cf) = Some (D4, Inr (Some 1))"
    using F(9) by (simp add: set_endpoint_def texts createUDPConn_def Let_def D4_def upd_peer_def)
  define D5 where "D5 = D4\<lparr>dv_routingTable := \<lparr>rt_IPv4 = newNode [0, 0, 0, 0] 0 (Some 1), rt_IPv6 = Nil_Trie\<rparr>\<rparr>"
  have L5: "set_allowed_ip D4 (Some 1) ''0.0.0.0/0'' = Some (D5, Inr (Some 1))"
    by (simp add: set_allowed_ip_def texts rt_Insert_def D4_def D5_def upd_peer_def F(5))
  have p5: "st_peer D5 1 = (st_peer D3 1)\<lparr>p_endpoint := Some addr\<rparr>"
    by (simp add: D5_def D4_def upd_peer_def)
  define D5' where "D5' = upd_peer D5 1 (\<lambda>q. q\<lparr>p_persistentKeepaliveInterval := 15\<rparr>)"
  have p5': "st_peer D5' 1 = (st_peer D3 1)\<lparr>p_endpoint := Some addr, p_persistentKeepaliveInterval := 15\<rparr>"
    by (simp add: D5'_def upd_peer_def p5)
  obtain D6 e where D6: "SendKeepAlive D5' 1 = Some (D6, True)"
    "st_peer D6 = (st_peer D5')(1 := (st_peer D5' 1)\<lparr>p_nonce := (p_nonce (st_peer D5' 1))\<lparr>chan_buf := [e]\<rparr>\<rparr>)"
    "dv_peers D6 = dv_peers D5'" "dv_privateKey D6 = dv_privateKey D5'"
    "dv_publicKey D6 = dv_publicKey D5'" "dv_conn D6 = dv_conn D5'"
    "dv_routingTable D6 = dv_routingTable D5'" "dv_stopped D6 = dv_stopped D5'"
    "dv_decryption D6 = dv_decryption D5'" "dv_indices D6 = dv_indices D5'"
    "dv_handshakeQueue D6 = dv_handshakeQueue D5'" "st_nextKeyPair D6 = st_nextKeyPair D5'"
    using SendKeepAlive_empty [of D5' 1] F(9,10) by (auto simp: p5' make_chan_def size_consts)
  have L6: "set_keepalive D5 (Some 1) ''15'' = Some (D6, Inr (Some 1))"
    using D6(1) F(11) by (simp add: set_keepalive_def p5 D5'_def [symmetric] Let_def)
  have "Init_device C N cf now = Some (D6, None)"
    unfolding Init_device_def SetOperation_def config_lines_def
    by (simp add: uapi_line_def texts D2(1) L3 L4 L5 L6)
  moreover have "configured C D6 sk pk tk addr"
    using F(2-9,12,13,15-23) D2(6)
    by (simp add: configured_def D6 p5' handshake_of_def chan_len_def default_route)
      (auto simp: D5'_def D5_def D4_def upd_peer_def default_route default_route_ok)
  ultimately show ?thesis by blast
qed
section \<open>Properties\<close>

text \<open>
  C39: a valid configuration takes effect as a whole: after \<^verbatim>\<open>Init\<close> the device holds its
  keys, the socket is dialled to the endpoint, there is one peer with the given public key and
  the static secret shared with it, every IPv4 address is routed to that peer, the keepalive
  interval is 15 seconds, one keepalive packet is queued, and nothing has been stopped.
\<close>

theorem configuration_takes_effect:
  assumes "config_valid N cf sk pk tk addr" "low_order_ok C" "\<not> keyIsZero sk"
  shows "\<exists>D. Init_device C N cf now = Some (D, None) \<and> configured C D sk pk tk addr"
  by (rule Init_device_ok [OF assms])

text \<open>A configuration with the keys of 32 equal bytes and any address.\<close>

definition toy_addr :: UDPAddr where
  "toy_addr = \<lparr>ua_IP = net_IPv4 [192, 0, 2, 1], ua_Port = 6666\<rparr>"

definition toy_net :: netenv where
  "toy_net = \<lparr>lookup_service = (\<lambda>_. None), dial = (\<lambda>_. True)\<rparr>"

lemma toy_endpoint [simp]: "parseEndpoint toy_net ''192.0.2.1:6666'' = Some toy_addr"
  using parseEndpoint_dotted [of "[192, 0, 2, 1]" 6666 toy_net] by (simp add: toy_addr_def printed_example)

lemma toy_dial [simp]: "dial toy_net addr"
  by (simp add: toy_net_def)

definition toy_config :: "byte \<Rightarrow> byte \<Rightarrow> config" where
  "toy_config a b = \<lparr>cf_OwnPrivate = base64_EncodeToString (toy_key a),
    cf_OwnPublic = base64_EncodeToString (publicKey toy_crypto (toy_key a)),
    cf_TheirPublic = base64_EncodeToString (publicKey toy_crypto (toy_key b)),
    cf_Endpoint = ''192.0.2.1:6666''\<rparr>"

lemma toy_config_valid:
  "config_valid toy_net (toy_config a b) (toy_key a) (publicKey toy_crypto (toy_key a))
    (publicKey toy_crypto (toy_key b)) toy_addr"
proof -
  have "length (publicKey toy_crypto k) = 32" for k
    using toy_crypto_ok by (simp add: publicKey_def crypto_ok_def sizes_ok_def)
  then show ?thesis
    by (simp add: config_valid_def toy_config_def FromBase64_def loadExactBase64_def
        base64_round_trip toy_key_def)
qed

lemma toy_key_nonzero: "a \<noteq> 0 \<Longrightarrow> \<not> keyIsZero (toy_key a)"
  by (simp add: keyIsZero_def keyEquals_def toy_key_def)

theorem configuration_takes_effect_witness:
  "\<exists>D. Init_device toy_crypto toy_net (toy_config 1 3) noon = Some (D, None) \<and>
    configured toy_crypto D (toy_key 1) (publicKey toy_crypto (toy_key 1))
      (publicKey toy_crypto (toy_key 3)) toy_addr"
  by (rule configuration_takes_effect [OF toy_config_valid toy_low_order_ok]) (simp add: toy_key_nonzero)

text \<open>
  Two devices configured with each other's public keys are ready for a handshake: whatever
  the configuration times and endpoints, they hold each other's static key and the same static
  secret, as the handshake needs it.
\<close>

theorem configured_devices_are_pair:
  assumes "crypto_ok C" "low_order_ok C"
    "config_valid N cfA skA (publicKey C skA) (publicKey C skB) addrA"
    "config_valid N cfB skB (publicKey C skB) (publicKey C skA) addrB"
    "\<not> keyIsZero skA" "\<not> keyIsZero skB" "\<not> isZero (sharedSecret C skA (publicKey C skB))"
  shows "\<exists>DA DB. Init_device C N cfA t = Some (DA, None) \<and> Init_device C N cfB u = Some (DB, None) \<and>
    noise_pair C DA 1 DB 1"
proof -
  obtain DA where DA: "Init_device C N cfA t = Some (DA, None)"
    "configured C DA skA (publicKey C skA) (publicKey C skB) addrA"
    using Init_device_ok [OF assms(3,2,5)] by blast
  obtain DB where DB: "Init_device C N cfB u = Some (DB, None)"
    "configured C DB skB (publicKey C skB) (publicKey C skA) addrB"
    using Init_device_ok [OF assms(4,2,6)] by blast
  have "length skA = 32" "length skB = 32"
    using assms(3,4) FromBase64_length by (auto simp: config_valid_def)
  with DA(2) DB(2) assms(7) have "noise_pair C DA 1 DB 1"
    by (simp add: configured_def noise_pair_def)
  with DA(1) DB(1) show ?thesis by blast
qed

theorem configured_devices_are_pair_witness:
  "\<exists>DA DB. Init_device toy_crypto toy_net (toy_config 1 3) noon = Some (DA, None) \<and>
    Init_device toy_crypto toy_net (toy_config 3 1) noon = Some (DB, None) \<and>
    noise_pair toy_crypto DA 1 DB 1"
  by (rule configured_devices_are_pair [OF toy_crypto_ok toy_low_order_ok toy_config_valid toy_config_valid])
    (simp_all add: toy_key_nonzero toy_shared isZero_iff)

text \<open>
  With the all-zero private key the configuration ends in a nil dereference. The
  placeholder peer of \<^verbatim>\<open>NewDevice\<close> is only dropped when a nonzero key is set, so no peer is
  made for the other side's key and the endpoint line reads the nil device of the placeholder.
\<close>

theorem zero_private_key_panics:
  assumes "config_valid N cf sk pk tk addr" "keyIsZero sk"
  shows "Init_device C N cf now = None"
proof -
  have texts: "FromBase64 (cf_OwnPrivate cf) = Some sk" "FromBase64 (cf_OwnPublic cf) = Some pk"
    "FromBase64 (cf_TheirPublic cf) = Some tk" "parseEndpoint N (cf_Endpoint cf) = Some addr"
    "dial N addr"
    using assms(1) by (simp_all add: config_valid_def)
  obtain D2 where D2: "SetPublicKey C ((NewDevice now)\<lparr>dv_privateKey := sk\<rparr>) pk = Some D2"
    "dv_peers D2 = Some 0" "\<not> p_hasDevice (st_peer D2 0)"
    using assms(2) by (simp add: SetPublicKey_def Let_def set_handshake_def upd_peer_def)
  have L3: "set_their_public C D2 (cf_TheirPublic cf) now = Some (D2, Inr (Some 0))"
    by (simp add: set_their_public_def texts D2(2))
  have L4: "set_endpoint N D2 (Some 0) (cf_Endpoint cf) = None"
    using D2(3) by (simp add: set_endpoint_def texts createUDPConn_def Let_def upd_peer_def)
  show ?thesis
    unfolding Init_device_def SetOperation_def config_lines_def
    by (simp add: uapi_line_def texts D2(1) L3 L4)
qed

theorem zero_private_key_panics_witness:
  "Init_device toy_crypto toy_net (toy_config 0 3) noon = None"
  by (rule zero_private_key_panics [OF toy_config_valid])
    (simp add: keyIsZero_def keyEquals_def toy_key_def)

declare One_nat_def [simp]

end
