(* ===== verification/Timers.thy ===== *)
theory Timers
  imports Uapi
begin

text \<open>
  The timer events of \<^verbatim>\<open>controller/timers.go\<close>: when to ask for a new handshake, the
  keepalives, and the handler that clears key material. Operating on a timer that was never
  made is None.
\<close>

section \<open>Keeping keys fresh\<close>

definition begin_handshake :: "Device \<Rightarrow> pid \<Rightarrow> Device" where
  "begin_handshake D p = upd_signal D p (\<lambda>s. s\<lparr>sg_handshakeBegin := signalSend (sg_handshakeBegin s)\<rparr>)"

definition KeepKeyFreshSending :: "Device \<Rightarrow> pid \<Rightarrow> time \<Rightarrow> Device" where
  "KeepKeyFreshSending D peer now =
    (case Current D peer of
      None \<Rightarrow> D
    | Some k \<Rightarrow>
        let kp = st_keyPair D k;
            D = (if kp_sendNonce kp > RekeyAfterMessages then begin_handshake D peer else D)
        in if kp_isInitiator kp \<and> timeSub now (kp_created kp) > RekeyAfterTimeChange
           then begin_handshake D peer else D)"

definition KeepKeyFreshReceiving :: "Device \<Rightarrow> pid \<Rightarrow> time \<Rightarrow> Device" where
  "KeepKeyFreshReceiving D peer now =
    (if tm_sendLastMinuteHandshake (p_timer (st_peer D peer)) then D
     else case Current D peer of
       None \<Rightarrow> D
     | Some k \<Rightarrow>
         let kp = st_keyPair D k
         in if \<not> kp_isInitiator kp then D
            else if kp_sendNonce kp > RekeyAfterMessages \<or>
                    timeSub now (kp_created kp) > RekeyAfterTimeReceiving
            then upd_timer (begin_handshake D peer) peer (\<lambda>t. t\<lparr>tm_sendLastMinuteHandshake := True\<rparr>)
            else D)"

section \<open>Events\<close>

definition TimerDataSent :: "Device \<Rightarrow> pid \<Rightarrow> time \<Rightarrow> Device option" where
  "TimerDataSent D peer now =
    (let t = p_timer (st_peer D peer)
     in case tm_keepalivePassive t of
          None \<Rightarrow> None
        | Some kp \<Rightarrow>
            let t = t\<lparr>tm_keepalivePassive := Some (timerStop kp)\<rparr>
            in if \<not> tm_pendingNewHandshake t then
                 let t = t\<lparr>tm_pendingNewHandshake := True\<rparr>
                 in case tm_newHandshake t of
                      None \<Rightarrow> None
                    | Some nh \<Rightarrow> Some (upd_timer D peer
                        (\<lambda>_. t\<lparr>tm_newHandshake := Some (timer_Reset nh now NewHandshakeTime)\<rparr>))
               else Some (upd_timer D peer (\<lambda>_. t)))"

definition TimerDataReceived :: "Device \<Rightarrow> pid \<Rightarrow> time \<Rightarrow> Device option" where
  "TimerDataReceived D peer now =
    (let t = p_timer (st_peer D peer)
     in if tm_pendingKeepalivePassive t
        then Some (upd_timer D peer (\<lambda>t. t\<lparr>tm_needAnotherKeepalive := True\<rparr>))
        else
          let t = t\<lparr>tm_pendingKeepalivePassive := False\<rparr>
          in case tm_keepalivePassive t of
               None \<Rightarrow> None
             | Some kp \<Rightarrow> Some (upd_timer D peer
                 (\<lambda>_. t\<lparr>tm_keepalivePassive := Some (timer_Reset kp now KeepaliveTimeout)\<rparr>)))"

definition TimerAnyAuthenticatedPacketReceived :: "Device \<Rightarrow> pid \<Rightarrow> Device option" where
  "TimerAnyAuthenticatedPacketReceived D peer =
    (case tm_newHandshake (p_timer (st_peer D peer)) of
      None \<Rightarrow> None
    | Some nh \<Rightarrow> Some (upd_timer D peer (\<lambda>t. t\<lparr>tm_newHandshake := Some (timerStop nh)\<rparr>)))"

text \<open>
  The panic of this one is caught, but with the keepalive lock held: it counts as not returning
  here too. A \<^verbatim>\<open>uint32\<close> of seconds fits a duration.
\<close>

definition TimerAnyAuthenticatedPacketTraversal :: "Device \<Rightarrow> pid \<Rightarrow> time \<Rightarrow> Device option" where
  "TimerAnyAuthenticatedPacketTraversal D peer now =
    (let interval = p_persistentKeepaliveInterval (st_peer D peer)
     in if interval > 0 then
          let duration = int (unat interval) * second
          in case tm_keepalivePersistent (p_timer (st_peer D peer)) of
               None \<Rightarrow> None
             | Some kp \<Rightarrow> Some (upd_timer D peer
                 (\<lambda>t. t\<lparr>tm_keepalivePersistent := Some (timer_Reset kp now duration)\<rparr>))
        else Some D)"

definition TimerHandshakeComplete :: "Device \<Rightarrow> pid \<Rightarrow> Device" where
  "TimerHandshakeComplete D peer =
    upd_signal D peer (\<lambda>s. s\<lparr>sg_handshakeCompleted := signalSend (sg_handshakeCompleted s)\<rparr>)"

definition TimerEphemeralKeyCreated :: "Device \<Rightarrow> pid \<Rightarrow> time \<Rightarrow> Device option" where
  "TimerEphemeralKeyCreated D peer now =
    (case tm_zeroAllKeys (p_timer (st_peer D peer)) of
      None \<Rightarrow> None
    | Some z \<Rightarrow> Some (upd_timer D peer
        (\<lambda>t. t\<lparr>tm_zeroAllKeys := Some (timer_Reset z now (RejectAfterTime * 3))\<rparr>)))"

section \<open>The handler\<close>

text \<open>The bodies of the cases of \<^verbatim>\<open>RoutineTimerHandler\<close>, after the receive.\<close>

definition on_keepalivePersistent :: "Device \<Rightarrow> pid \<Rightarrow> Device option" where
  "on_keepalivePersistent D peer =
    (if p_persistentKeepaliveInterval (st_peer D peer) > 0
     then map_option fst (SendKeepAlive D peer) else Some D)"

definition on_keepalivePassive :: "Device \<Rightarrow> pid \<Rightarrow> time \<Rightarrow> Device option" where
  "on_keepalivePassive D peer now =
    (case SendKeepAlive D peer of
      None \<Rightarrow> None
    | Some (D, _) \<Rightarrow>
        let t = p_timer (st_peer D peer)
        in if tm_needAnotherKeepalive t then
             (case tm_keepalivePassive t of
               None \<Rightarrow> None
             | Some kp \<Rightarrow> Some (upd_timer D peer
                 (\<lambda>_. t\<lparr>tm_keepalivePassive := Some (timer_Reset kp now KeepaliveTimeout),
                        tm_needAnotherKeepalive := False\<rparr>)))
           else Some D)"

definition on_newHandshake :: "Device \<Rightarrow> pid \<Rightarrow> Device" where
  "on_newHandshake D peer = begin_handshake D peer"

text \<open>A key pair that is not nil is deleted from the table and forgotten.\<close>

definition drop_keyPair :: "Device \<Rightarrow> kid option \<Rightarrow> Device" where
  "drop_keyPair D key =
    (case key of
      None \<Rightarrow> D
    | Some k \<Rightarrow> D\<lparr>dv_indices := it_Delete (dv_indices D) (kp_localIndex (st_keyPair D k))\<rparr>)"

definition on_zeroAllKeys :: "Device \<Rightarrow> pid \<Rightarrow> Device" where
  "on_zeroAllKeys D peer =
    (let ks = keyPairs_of D peer;
         D = drop_keyPair D (ks_previous ks);
         D = drop_keyPair D (ks_current ks);
         D = drop_keyPair D (ks_next ks);
         D = set_keyPairs D peer \<lparr>ks_current = None, ks_previous = None, ks_next = None\<rparr>;
         h = handshake_of D peer;
         D = D\<lparr>dv_indices := it_Delete (dv_indices D) (hs_localIndex h)\<rparr>
     in set_handshake D peer (h\<lparr>hs_localIndex := 0,
          hs_localEphemeral := setZero (hs_localEphemeral h),
          hs_remoteEphemeral := setZero (hs_remoteEphemeral h),
          hs_chainKey := setZero (hs_chainKey h),
          hs_hash := setZero (hs_hash h)\<rparr>))"

datatype handler_event = Persistent_fired | Passive_fired | NewHandshake_fired | ZeroAllKeys_fired

text \<open>
  One turn of the loop: the value received is taken from the timer's channel, which must hold
  one, and the case is run. None when the case is not ready or panics.
\<close>

definition take_fired :: "timer option \<Rightarrow> timer option" where
  "take_fired t = (case t of
      None \<Rightarrow> None
    | Some t \<Rightarrow> (case chan_recv (t_C t) of None \<Rightarrow> None | Some (_, c) \<Rightarrow> Some (t\<lparr>t_C := c\<rparr>)))"

fun RoutineTimerHandler :: "Device \<Rightarrow> pid \<Rightarrow> time \<Rightarrow> handler_event \<Rightarrow> Device option" where
  "RoutineTimerHandler D peer now Persistent_fired =
    (case take_fired (tm_keepalivePersistent (p_timer (st_peer D peer))) of
      None \<Rightarrow> None
    | Some t \<Rightarrow> on_keepalivePersistent (upd_timer D peer (\<lambda>ts. ts\<lparr>tm_keepalivePersistent := Some t\<rparr>)) peer)"
| "RoutineTimerHandler D peer now Passive_fired =
    (case take_fired (tm_keepalivePassive (p_timer (st_peer D peer))) of
      None \<Rightarrow> None
    | Some t \<Rightarrow> on_keepalivePassive (upd_timer D peer (\<lambda>ts. ts\<lparr>tm_keepalivePassive := Some t\<rparr>)) peer now)"
| "RoutineTimerHandler D peer now NewHandshake_fired =
    (case take_fired (tm_newHandshake (p_timer (st_peer D peer))) of
      None \<Rightarrow> None
    | Some t \<Rightarrow> Some (on_newHandshake (upd_timer D peer (\<lambda>ts. ts\<lparr>tm_newHandshake := Some t\<rparr>)) peer))"
| "RoutineTimerHandler D peer now ZeroAllKeys_fired =
    (case take_fired (tm_zeroAllKeys (p_timer (st_peer D peer))) of
      None \<Rightarrow> None
    | Some t \<Rightarrow> Some (on_zeroAllKeys (upd_timer D peer (\<lambda>ts. ts\<lparr>tm_zeroAllKeys := Some t\<rparr>)) peer))"

section \<open>Runs of timer events\<close>

text \<open>What the sender and the receiver of a peer do to its timers, in any order.\<close>

datatype traffic = Sent time | Received time | Authenticated | Traversed time | Ephemeral time
  | Freshened_sending time | Freshened_receiving time

fun traffic_step :: "Device \<Rightarrow> pid \<Rightarrow> traffic \<Rightarrow> Device option" where
  "traffic_step D p (Sent now) = TimerDataSent D p now"
| "traffic_step D p (Received now) = TimerDataReceived D p now"
| "traffic_step D p Authenticated = TimerAnyAuthenticatedPacketReceived D p"
| "traffic_step D p (Traversed now) = TimerAnyAuthenticatedPacketTraversal D p now"
| "traffic_step D p (Ephemeral now) = TimerEphemeralKeyCreated D p now"
| "traffic_step D p (Freshened_sending now) = Some (KeepKeyFreshSending D p now)"
| "traffic_step D p (Freshened_receiving now) = Some (KeepKeyFreshReceiving D p now)"

fun traffic_run :: "Device \<Rightarrow> pid \<Rightarrow> traffic list \<Rightarrow> Device option" where
  "traffic_run D p [] = Some D"
| "traffic_run D p (e # es) =
    (case traffic_step D p e of None \<Rightarrow> None | Some D \<Rightarrow> traffic_run D p es)"

definition timers_of :: "Device \<Rightarrow> pid \<Rightarrow> PeerTimers" where
  "timers_of D p = p_timer (st_peer D p)"

definition timers_made :: "PeerTimers \<Rightarrow> bool" where
  "timers_made t \<longleftrightarrow> tm_keepalivePersistent t \<noteq> None \<and> tm_keepalivePassive t \<noteq> None \<and>
    tm_newHandshake t \<noteq> None \<and> tm_zeroAllKeys t \<noteq> None"

lemma timers_of_upd [simp]:
  "timers_of (upd_timer D p f) q = (if q = p then f (timers_of D p) else timers_of D q)"
  "timers_of (upd_signal D p g) q = timers_of D q"
  "timers_of (begin_handshake D p) q = timers_of D q"
  by (simp_all add: timers_of_def upd_timer_def upd_signal_def upd_peer_def begin_handshake_def)

lemma timers_KeepKeyFresh:
  "timers_of (KeepKeyFreshSending D p now) p = timers_of D p"
  "\<exists>b. timers_of (KeepKeyFreshReceiving D p now) p =
    (timers_of D p)\<lparr>tm_sendLastMinuteHandshake := b\<rparr>"
proof -
  show "timers_of (KeepKeyFreshSending D p now) p = timers_of D p"
    by (simp add: KeepKeyFreshSending_def Let_def split: option.split)
  show "\<exists>b. timers_of (KeepKeyFreshReceiving D p now) p =
      (timers_of D p)\<lparr>tm_sendLastMinuteHandshake := b\<rparr>"
  proof (cases "timers_of (KeepKeyFreshReceiving D p now) p = timers_of D p")
    case True
    then show ?thesis
      by (intro exI [of _ "tm_sendLastMinuteHandshake (timers_of D p)"]) simp
  next
    case False
    then have "timers_of (KeepKeyFreshReceiving D p now) p =
        (timers_of D p)\<lparr>tm_sendLastMinuteHandshake := True\<rparr>"
      by (auto simp: KeepKeyFreshReceiving_def Let_def split: option.splits if_splits)
    then show ?thesis by blast
  qed
qed

text \<open>The effect of one event on the timers alone.\<close>

lemma traffic_step_timers:
  assumes "timers_made (timers_of D p)"
  shows "\<exists>D'. traffic_step D p e = Some D' \<and> timers_made (timers_of D' p) \<and>
    (tm_pendingKeepalivePassive (timers_of D' p) = tm_pendingKeepalivePassive (timers_of D p)) \<and>
    (tm_needAnotherKeepalive (timers_of D' p) \<longrightarrow>
      tm_needAnotherKeepalive (timers_of D p) \<or> tm_pendingKeepalivePassive (timers_of D p)) \<and>
    (tm_pendingNewHandshake (timers_of D p) \<longrightarrow> tm_pendingNewHandshake (timers_of D' p) \<and>
      (tm_newHandshake (timers_of D' p) = tm_newHandshake (timers_of D p) \<or>
       tm_newHandshake (timers_of D' p) = map_option timerStop (tm_newHandshake (timers_of D p))))"
proof -
  obtain a b c d where t: "tm_keepalivePersistent (timers_of D p) = Some a"
    "tm_keepalivePassive (timers_of D p) = Some b" "tm_newHandshake (timers_of D p) = Some c"
    "tm_zeroAllKeys (timers_of D p) = Some d"
    using assms by (auto simp: timers_made_def)
  note ops = TimerDataSent_def TimerDataReceived_def TimerAnyAuthenticatedPacketReceived_def
    TimerAnyAuthenticatedPacketTraversal_def TimerEphemeralKeyCreated_def
  note t' = t [unfolded timers_of_def]
  show ?thesis
  proof (cases e)
    case (Freshened_receiving now)
    with timers_KeepKeyFresh(2) [of D p now] t show ?thesis by (auto simp: timers_made_def)
  qed (use t in \<open>auto simp: ops t' Let_def timers_made_def timers_KeepKeyFresh timers_of_def [symmetric]\<close>)
qed

lemma timerStop_deadline: "t_deadline (timerStop t) = None"
  by (simp add: timerStop_def timer_Stop_def)

section \<open>Properties\<close>

text \<open>
  The detection of an unresponsive session works once. The flag
  \<^verbatim>\<open>pendingNewHandshake\<close> is never reset: once data has been sent and the timer for a new
  handshake has been stopped by any packet, no later traffic of any kind starts it again, so
  data that is never answered does not begin another handshake.
\<close>

theorem new_handshake_timer_armed_once:
  assumes "timers_made (timers_of D p)" "tm_pendingNewHandshake (timers_of D p)"
    "traffic_run D p (Authenticated # es) = Some D'"
  shows "\<exists>t. tm_newHandshake (timers_of D' p) = Some t \<and> t_deadline t = None"
proof -
  define ok where "ok = (\<lambda>ts. timers_made ts \<and> tm_pendingNewHandshake ts \<and>
    (\<forall>t. tm_newHandshake ts = Some t \<longrightarrow> t_deadline t = None))"
  obtain D1 where D1: "traffic_step D p Authenticated = Some D1" "traffic_run D1 p es = Some D'"
    using assms(3) by (auto split: option.splits)
  from D1(1) assms(1,2) have "ok (timers_of D1 p)"
    by (auto simp: ok_def timers_made_def TimerAnyAuthenticatedPacketReceived_def timerStop_deadline
        split: option.splits)
  then have "ok (timers_of D' p)" using D1(2)
  proof (induction es arbitrary: D1)
    case Nil
    then show ?case by simp
  next
    case (Cons e es)
    then obtain D2 where D2: "traffic_step D1 p e = Some D2" "traffic_run D2 p es = Some D'"
      by (auto split: option.splits)
    have "ok (timers_of D2 p)"
      using traffic_step_timers [of D1 p e] Cons.prems(1) D2(1)
      by (auto simp: ok_def timerStop_deadline)
    with Cons.IH D2(2) show ?case by blast
  qed
  then show ?thesis by (auto simp: ok_def timers_made_def)
qed
definition idle_timer :: timer where "idle_timer = NewStoppedTimer 0"

definition busy_peer_device :: Device where
  "busy_peer_device = zero_device\<lparr>st_peer := (\<lambda>_. zero_peer\<lparr>p_timer :=
    (new_timers 0)\<lparr>tm_pendingNewHandshake := True\<rparr>\<rparr>)\<rparr>"

lemma busy_timers:
  "timers_of busy_peer_device p = (new_timers 0)\<lparr>tm_pendingNewHandshake := True\<rparr>"
  by (simp add: timers_of_def busy_peer_device_def)

theorem new_handshake_timer_armed_once_witness:
  "\<exists>D'. traffic_run busy_peer_device 0 [Authenticated, Sent noon] = Some D' \<and>
    (\<exists>t. tm_newHandshake (timers_of D' 0) = Some t \<and> t_deadline t = None)"
proof -
  have made: "timers_made (timers_of busy_peer_device 0)"
    by (simp add: busy_timers timers_made_def new_timers_def)
  obtain D1 where D1: "traffic_step busy_peer_device 0 Authenticated = Some D1"
      "timers_made (timers_of D1 0)"
    using traffic_step_timers [OF made, of Authenticated] by blast
  obtain D2 where D2: "traffic_step D1 0 (Sent noon) = Some D2"
    using traffic_step_timers [OF D1(2), of "Sent noon"] by blast
  have run: "traffic_run busy_peer_device 0 [Authenticated, Sent noon] = Some D2"
    using D1(1) D2 by simp
  have "tm_pendingNewHandshake (timers_of busy_peer_device 0)" by (simp add: busy_timers)
  from run new_handshake_timer_armed_once [OF made this run] show ?thesis by blast
qed

section \<open>Clearing key material\<close>

text \<open>The key pairs a peer holds, and the indices its traffic arrives under.\<close>

definition held :: "Device \<Rightarrow> pid \<Rightarrow> kid \<Rightarrow> bool" where
  "held D p k \<longleftrightarrow> ks_previous (keyPairs_of D p) = Some k \<or> ks_current (keyPairs_of D p) = Some k \<or>
    ks_next (keyPairs_of D p) = Some k"

definition own_index :: "Device \<Rightarrow> pid \<Rightarrow> u32 \<Rightarrow> bool" where
  "own_index D p i \<longleftrightarrow> i = hs_localIndex (handshake_of D p) \<or>
    (\<exists>k. held D p k \<and> i = kp_localIndex (st_keyPair D k))"

lemma drop_keyPair_simps [simp, state_simps]:
  "keyPairs_of (drop_keyPair D k) q = keyPairs_of D q"
  "handshake_of (drop_keyPair D k) q = handshake_of D q"
  "st_keyPair (drop_keyPair D k) = st_keyPair D"
  "it_Lookup (dv_indices (drop_keyPair D k)) i =
    (if i \<noteq> 0 \<and> k \<noteq> None \<and> i = kp_localIndex (st_keyPair D (the k)) then zero_entry
     else it_Lookup (dv_indices D) i)"
  by (auto simp: drop_keyPair_def it_Lookup_def it_Delete_def split: option.split)

lemma lookup_Delete: "it_Lookup (it_Delete t j) i = (if i \<noteq> 0 \<and> i = j then zero_entry else it_Lookup t i)"
  by (simp add: it_Lookup_def it_Delete_def)

lemma on_zeroAllKeys_simps [simp]:
  "st_keyPair (on_zeroAllKeys D p) = st_keyPair D"
  "keyPairs_of (on_zeroAllKeys D p) p = \<lparr>ks_current = None, ks_previous = None, ks_next = None\<rparr>"
  "it_Lookup (dv_indices (on_zeroAllKeys D p)) i =
    (if i \<noteq> 0 \<and> own_index D p i then zero_entry else it_Lookup (dv_indices D) i)"
  "handshake_of (on_zeroAllKeys D p) p = (handshake_of D p)\<lparr>hs_localIndex := 0,
    hs_localEphemeral := setZero (hs_localEphemeral (handshake_of D p)),
    hs_remoteEphemeral := setZero (hs_remoteEphemeral (handshake_of D p)),
    hs_chainKey := setZero (hs_chainKey (handshake_of D p)),
    hs_hash := setZero (hs_hash (handshake_of D p))\<rparr>"
  by (auto simp: on_zeroAllKeys_def Let_def lookup_Delete own_index_def held_def)

text \<open>
  C40: when the timer that clears key material fires, the peer holds no key pair, the secrets of
  its handshake are zero, and no index that belonged to it leads anywhere any more, so neither a
  transport message nor a handshake response sent to it is accepted; the entries of every other
  index are as before. The keys inside the dropped key pairs themselves are not overwritten.
\<close>

theorem zero_all_keys_forgets:
  assumes "RoutineTimerHandler D p now ZeroAllKeys_fired = Some D'" "i \<noteq> 0"
  shows "Current D' p = None \<and> (\<forall>k. \<not> held D' p k) \<and> st_keyPair D' = st_keyPair D \<and>
    isZero (hs_chainKey (handshake_of D' p)) \<and> isZero (hs_hash (handshake_of D' p)) \<and>
    isZero (hs_localEphemeral (handshake_of D' p)) \<and> isZero (hs_remoteEphemeral (handshake_of D' p)) \<and>
    it_Lookup (dv_indices D') i = (if own_index D p i then zero_entry else it_Lookup (dv_indices D) i) \<and>
    (own_index D p i \<longrightarrow> mr_Receiver m = i \<longrightarrow> ConsumeMessageResponse C D' m = (D', None))"
proof -
  obtain t where D': "D' = on_zeroAllKeys (upd_timer D p (\<lambda>ts. ts\<lparr>tm_zeroAllKeys := Some t\<rparr>)) p"
    using assms(1) by (auto split: option.splits)
  have own: "own_index (upd_timer D p f) p j = own_index D p j" for f j
    by (simp add: own_index_def held_def)
  have lookup: "it_Lookup (dv_indices D') i = (if own_index D p i then zero_entry else it_Lookup (dv_indices D) i)"
    using assms(2) by (simp add: D' own)
  moreover have "ConsumeMessageResponse C D' m = (D', None)" if "own_index D p i" "mr_Receiver m = i"
    using that lookup by (simp add: ConsumeMessageResponse_def zero_entry_def)
  ultimately show ?thesis
    by (simp add: D' Current_def held_def isZero_iff setZero_def)
qed

text \<open>A peer with one key pair, listening on index 5, whose timer has fired.\<close>

definition expired_device :: Device where
  "expired_device = zero_device\<lparr>
    dv_indices := [5 \<mapsto> \<lparr>ie_peer = Some 0, ie_handshake = None, ie_keyPair = Some 0\<rparr>],
    st_keyPair := (\<lambda>k. (st_keyPair zero_device k)\<lparr>kp_localIndex := 5\<rparr>),
    st_peer := (\<lambda>_. zero_peer\<lparr>
      p_keyPairs := \<lparr>ks_current = Some 0, ks_previous = None, ks_next = None\<rparr>,
      p_timer := (new_timers 0)\<lparr>tm_zeroAllKeys := Some (timer_fire (newTimer 0 5) 9)\<rparr>\<rparr>)\<rparr>"

theorem zero_all_keys_forgets_witness:
  "\<exists>D'. RoutineTimerHandler expired_device 0 9 ZeroAllKeys_fired = Some D' \<and>
    Current D' 0 = None \<and> it_Lookup (dv_indices D') 5 = zero_entry"
proof -
  have "RoutineTimerHandler expired_device 0 9 ZeroAllKeys_fired \<noteq> None"
    by (simp add: expired_device_def take_fired_def timer_fire_def newTimer_def signalSend_def
        chan_send_def make_chan_def chan_recv_def)
  then obtain D' where run: "RoutineTimerHandler expired_device 0 9 ZeroAllKeys_fired = Some D'" by blast
  have "own_index expired_device 0 5"
    by (simp add: own_index_def held_def expired_device_def keyPairs_of_def)
  with run zero_all_keys_forgets [OF run, of 5] show ?thesis by simp
qed

end
