(* ===== verification/Send.thy ===== *)
theory Send
  imports Timers "HOL-Library.Sublist"
begin

text \<open>
  The outbound flow of \<^verbatim>\<open>controller/send.go\<close> with the TUN device of
  \<^verbatim>\<open>controller/tun.go\<close>: the reader, the assignment of nonces, encryption and the
  sequential sender. Each routine is a program counter and a step; None is a step that blocks,
  whose case of the select is not ready, or that panics. The stop case of a worker's select only
  ends the routine: it is the worker taking no further step.
\<close>

section \<open>The TUN device\<close>

text \<open>
  \<open>ios\<close> is \<^verbatim>\<open>IsiOS\<close>, the argument of \<open>tun_Read\<close> the outcome of the system call, None an
  error. Nothing is ever sent on the channel of asynchronous errors. A packet comes with its offset in
  the buffer read into; cutting four bytes off a shorter one panics.
\<close>

datatype tun_result = Tun_error | Tun_packet bytes nat

definition tun_Read :: "bool \<Rightarrow> bytes option \<Rightarrow> tun_result option" where
  "tun_Read ios os =
    (let offset = (if ios then 4 else 0)
     in case os of
          None \<Rightarrow> Some Tun_error
        | Some d \<Rightarrow> if length d = 0 then Some (Tun_packet [] 0)
            else if length d < offset then None
            else Some (Tun_packet (drop offset d) offset))"

definition tun_Write :: "bool \<Rightarrow> bytes \<Rightarrow> bytes" where
  "tun_Write ios d = (if ios then [0, 0, 0, 2] @ d else d)"

section \<open>The reader\<close>

definition upd_out :: "Device \<Rightarrow> eid \<Rightarrow> ((pid, kid) QueueOutboundElement \<Rightarrow> (pid, kid) QueueOutboundElement) \<Rightarrow> Device" where
  "upd_out D e f = D\<lparr>st_out := (st_out D)(e := f (st_out D e))\<rparr>"

text \<open>The peer a packet read from the TUN device is for; a packet too short for its header has none.\<close>

definition lookup_destination :: "Device \<Rightarrow> bytes \<Rightarrow> pid option option" where
  "lookup_destination D packet =
    (if drop_bit 4 (packet ! 0) = 4 then
       if length packet < 20 then Some None
       else rt_LookupIPv4 (dv_routingTable D) (take 4 (drop IPv4offsetDst packet))
     else if drop_bit 4 (packet ! 0) = 6 then
       if length packet < 40 then Some None
       else rt_LookupIPv6 (dv_routingTable D) (take 16 (drop IPv6offsetDst packet))
     else Some None)"

text \<open>
  One turn of the loop, from the element the reader holds to the one it holds next; the routine
  ends with None there. The packet of the element is set when the length is known to be good:
  until then it is only the slice that is read into.
\<close>

definition RoutineReadFromTUN ::
  "bool \<Rightarrow> Device \<Rightarrow> eid \<Rightarrow> bytes option \<Rightarrow> (Device \<times> eid option) option" where
  "RoutineReadFromTUN ios D elem os =
    (if dv_stopped D then Some (D, None)
     else case tun_Read ios os of
       None \<Rightarrow> None
     | Some Tun_error \<Rightarrow> Some (D, None)
     | Some (Tun_packet packet offset) \<Rightarrow>
         if length packet = 0 \<or> length packet > MaxContentSize then Some (D, Some elem)
         else
           let D = upd_out D elem (\<lambda>q. q\<lparr>qo_packet := packet,
                 qo_offset := MessageTransportHeaderSize + offset\<rparr>)
           in case lookup_destination D packet of
                None \<Rightarrow> None
              | Some None \<Rightarrow> Some (D, Some elem)
              | Some (Some p) \<Rightarrow>
                  let D = upd_signal D p (\<lambda>s. s\<lparr>sg_handshakeReset := signalSend (sg_handshakeReset s)\<rparr>)
                  in case addToOutboundQueue (p_nonce (st_peer D p)) elem (st_out D) of
                       None \<Rightarrow> None
                     | Some (q, st) \<Rightarrow>
                         let D = (upd_peer D p (\<lambda>peer. peer\<lparr>p_nonce := q\<rparr>))\<lparr>st_out := st\<rparr>;
                             (D, elem) = NewOutboundElement D
                         in Some (D, Some elem))"

section \<open>Nonces\<close>

text \<open>
  Where \<^verbatim>\<open>RoutineNonce\<close> stands: at the outer select, before the look at the current key
  pair, at the inner select, and between the two queues.
\<close>

datatype nonce_pc = Next_packet | Have_packet eid | Await_key eid | Enqueue eid | Nonce_stopped

datatype nonce_event = Proceed time | Got_newKeyPair | Got_flushNonceQueue | Got_stop

definition usable_key :: "Device \<Rightarrow> pid \<Rightarrow> time \<Rightarrow> kid option" where
  "usable_key D peer now =
    (case Current D peer of
      None \<Rightarrow> None
    | Some k \<Rightarrow>
        if kp_sendNonce (st_keyPair D k) < RejectAfterMessages \<and>
           timeSub now (kp_created (st_keyPair D k)) < RejectAfterTime
        then Some k else None)"

text \<open>
  The work element is filled in and locked, and added to the encryption queue. Only this routine
  counts the nonces of a key pair up.
\<close>

definition assign_nonce :: "Device \<Rightarrow> pid \<Rightarrow> kid \<Rightarrow> eid \<Rightarrow> Device option" where
  "assign_nonce D peer k elem =
    (let D = upd_out D elem (\<lambda>q. q\<lparr>qo_peer := Some peer\<rparr>);
         D = upd_keyPair D k (\<lambda>kp. kp\<lparr>kp_sendNonce := kp_sendNonce kp + 1\<rparr>);
         nonce = kp_sendNonce (st_keyPair D k) - 1;
         D = upd_out D elem (\<lambda>q. q\<lparr>qo_nonce := nonce, qo_keyPair := Some k, qo_dropped := False\<rparr>)
     in if qo_locked (st_out D elem) then None
        else
          let D = upd_out D elem (\<lambda>q. q\<lparr>qo_locked := True\<rparr>)
          in case addToEncryptionQueue (dv_encryption D) elem (st_out D) of
               None \<Rightarrow> None
             | Some (q, st) \<Rightarrow> Some (D\<lparr>dv_encryption := q, st_out := st\<rparr>))"

definition enqueue_outbound :: "Device \<Rightarrow> pid \<Rightarrow> eid \<Rightarrow> Device option" where
  "enqueue_outbound D peer elem =
    (case addToOutboundQueue (p_outbound (st_peer D peer)) elem (st_out D) of
      None \<Rightarrow> None
    | Some (q, st) \<Rightarrow> Some ((upd_peer D peer (\<lambda>p. p\<lparr>p_outbound := q\<rparr>))\<lparr>st_out := st\<rparr>))"

fun RoutineNonce :: "Device \<Rightarrow> pid \<Rightarrow> nonce_pc \<Rightarrow> nonce_event \<Rightarrow> (Device \<times> nonce_pc) option" where
  "RoutineNonce D peer Next_packet (Proceed now) =
    (case chan_recv (p_nonce (st_peer D peer)) of
      None \<Rightarrow> None
    | Some (elem, q) \<Rightarrow> Some (upd_peer D peer (\<lambda>p. p\<lparr>p_nonce := q\<rparr>), Have_packet elem))"
| "RoutineNonce D peer (Have_packet elem) (Proceed now) =
    (case usable_key D peer now of
      None \<Rightarrow> Some (begin_handshake D peer, Await_key elem)
    | Some k \<Rightarrow> map_option (\<lambda>D. (D, Enqueue elem)) (assign_nonce D peer k elem))"
| "RoutineNonce D peer (Enqueue elem) (Proceed now) =
    map_option (\<lambda>D. (D, Next_packet)) (enqueue_outbound D peer elem)"
| "RoutineNonce D peer (Await_key elem) Got_newKeyPair =
    (case chan_recv (sg_newKeyPair (p_signal (st_peer D peer))) of
      None \<Rightarrow> None
    | Some (_, c) \<Rightarrow> Some (upd_signal D peer (\<lambda>s. s\<lparr>sg_newKeyPair := c\<rparr>), Have_packet elem))"
| "RoutineNonce D peer (Await_key elem) Got_flushNonceQueue =
    (case chan_recv (sg_flushNonceQueue (p_signal (st_peer D peer))) of
      None \<Rightarrow> None
    | Some (_, c) \<Rightarrow>
        let D = upd_signal D peer (\<lambda>s. s\<lparr>sg_flushNonceQueue := c\<rparr>)
        in Some (upd_peer D peer (\<lambda>p. p\<lparr>p_nonce := FlushNonceQueue (p_nonce p)\<rparr>), Next_packet))"
| "RoutineNonce D peer (Await_key elem) Got_stop =
    (if sg_stopped (p_signal (st_peer D peer)) then Some (D, Nonce_stopped) else None)"
| "RoutineNonce D peer Next_packet Got_stop =
    (if sg_stopped (p_signal (st_peer D peer)) then Some (D, Nonce_stopped) else None)"
| "RoutineNonce D peer _ _ = None"

section \<open>Encryption\<close>

text \<open>Zeros up to a multiple of 16, as long as the packet is shorter than the MTU.\<close>

fun pad_loop :: "nat \<Rightarrow> int \<Rightarrow> bytes \<Rightarrow> bytes" where
  "pad_loop 0 mtu packet = packet"
| "pad_loop (Suc n) mtu packet =
    (if int (length packet) < mtu then pad_loop n mtu (packet @ [0]) else packet)"

definition pad_content :: "int \<Rightarrow> bytes \<Rightarrow> bytes" where
  "pad_content mtu packet =
    (let rem = length packet mod PaddingMultiple
     in if rem > 0 then pad_loop (PaddingMultiple - rem) mtu packet else packet)"

definition transport_header :: "u32 \<Rightarrow> u64 \<Rightarrow> bytes" where
  "transport_header receiver nonce = le32 MessageTransportType @ le32 receiver @ le64 nonce"

definition transport_nonce :: "u64 \<Rightarrow> bytes" where
  "transport_nonce n = replicate 4 0 @ le64 n"

text \<open>The content is sealed in place, behind the header.\<close>

definition RoutineEncryption :: "crypto \<Rightarrow> Device \<Rightarrow> Device option" where
  "RoutineEncryption C D =
    (case chan_recv (dv_encryption D) of
      None \<Rightarrow> None
    | Some (elem, q) \<Rightarrow>
        let D = D\<lparr>dv_encryption := q\<rparr>
        in if qo_IsDropped (st_out D) elem then Some D
           else case qo_keyPair (st_out D elem) of
             None \<Rightarrow> None
           | Some k \<Rightarrow>
               let kp = st_keyPair D k;
                   nonce = qo_nonce (st_out D elem);
                   header = transport_header (kp_remoteIndex kp) nonce;
                   content = pad_content (dv_mtu D) (qo_packet (st_out D elem));
                   sealed = aead_seal C (kp_send kp) (transport_nonce nonce) content []
               in if aead_refuses C (length header) (length sealed)
                       (qo_offset (st_out D elem)) (length content)
                  then None
                  else
                    let D = upd_out D elem (\<lambda>e. e\<lparr>qo_packet := header @ sealed, qo_offset := 0\<rparr>)
                    in map_option (\<lambda>st. D\<lparr>st_out := st\<rparr>) (qo_Unlock (st_out D) elem))"

section \<open>The sequential sender\<close>

datatype sender_pc = Next_outbound | Lock_element eid

text \<open>
  What follows the lock: \<open>ok\<close> is whether the socket takes the packet. A refused one makes the
  sender dial the endpoint again; a packet sent moves the timers.
\<close>

definition send_element ::
  "crypto \<Rightarrow> netenv \<Rightarrow> string \<Rightarrow> Device \<Rightarrow> pid \<Rightarrow> eid \<Rightarrow> bool \<Rightarrow> time \<Rightarrow> Device option" where
  "send_element C N endpoint D peer elem ok now =
    (let packet = qo_packet (st_out D elem);
         (D, err) = SendBuffer D peer packet ok;
         D = device_PutMessageBuffer D (qo_buffer (st_out D elem))
     in if err then changeNetwork C N D endpoint now
        else do {
          D \<leftarrow> TimerAnyAuthenticatedPacketTraversal D peer now;
          D \<leftarrow> (if length packet \<noteq> MessageKeepaliveSize then TimerDataSent D peer now else Some D);
          Some (KeepKeyFreshSending D peer now)
        })"

fun RoutineSequentialSender ::
  "crypto \<Rightarrow> netenv \<Rightarrow> string \<Rightarrow> Device \<Rightarrow> pid \<Rightarrow> sender_pc \<Rightarrow> bool \<Rightarrow> time \<Rightarrow>
    (Device \<times> sender_pc) option" where
  "RoutineSequentialSender C N endpoint D peer Next_outbound ok now =
    (case chan_recv (p_outbound (st_peer D peer)) of
      None \<Rightarrow> None
    | Some (elem, q) \<Rightarrow> Some (upd_peer D peer (\<lambda>p. p\<lparr>p_outbound := q\<rparr>), Lock_element elem))"
| "RoutineSequentialSender C N endpoint D peer (Lock_element elem) ok now =
    (if qo_locked (st_out D elem) then None
     else
       let D = upd_out D elem (\<lambda>q. q\<lparr>qo_locked := True\<rparr>)
       in if qo_IsDropped (st_out D) elem then Some (D, Next_outbound)
          else map_option (\<lambda>D. (D, Next_outbound)) (send_element C N endpoint D peer elem ok now))"

section \<open>A queue after one more element\<close>

definition pushed :: "'a chan \<Rightarrow> 'a \<Rightarrow> 'a chan" where
  "pushed q x = q\<lparr>chan_buf := drop (Suc (length (chan_buf q)) - chan_cap q) (chan_buf q @ [x])\<rparr>"

lemma seq_inv_pushed: "seq_inv (q, h) \<Longrightarrow> seq_inv (pushed q x, h')"
  by (auto simp: pushed_def seq_inv_def chan_ok_def)

lemma add_pushed:
  assumes "seq_inv (q, ())" "length (chan_buf q) = chan_cap q \<Longrightarrow> rel h (hd (chan_buf q)) = Some h'"
    "length (chan_buf q) \<noteq> chan_cap q \<Longrightarrow> h' = h"
  shows "add_dropping_oldest rel q x h = Some (pushed q x, h')"
proof -
  have c: "0 < chan_cap q" "length (chan_buf q) \<le> chan_cap q"
    using assms(1) by (simp_all add: seq_inv_def chan_ok_def)
  show ?thesis
  proof (cases "length (chan_buf q) = chan_cap q")
    case True
    moreover obtain y ys where "chan_buf q = y # ys" using c True by (cases "chan_buf q") auto
    ultimately show ?thesis using c add_full [of q rel h h' x] assms(2) by (simp add: pushed_def)
  next
    case False
    with c assms(3) show ?thesis by (simp add: add_room pushed_def)
  qed
qed

lemma set_pushed: "e \<in> set (chan_buf (pushed q x)) \<Longrightarrow> e = x \<or> e \<in> set (chan_buf q)"
  using set_drop_subset [of "Suc (length (chan_buf q)) - chan_cap q" "chan_buf q @ [x]"]
  by (auto simp: pushed_def simp del: drop_append)

lemma subseq_distinct: "subseq xs ys \<Longrightarrow> distinct ys \<Longrightarrow> distinct xs"
proof (induction rule: list_emb.induct)
  case (list_emb_Cons2 x y xs ys)
  then show ?case using list_emb_set [of "(=)" xs ys] by auto
qed auto

end
