(* ===== verification/Outbound.thy ===== *)
theory Outbound
  imports Send
begin

text \<open>
  The outbound routines of a peer running together: any interleaving of the reader, the
  keepalives, the nonce routine, the encryption worker and the sender, with every other part of
  the program acting in between. What leaves the socket, in which order and under which nonces.
\<close>

section \<open>The system\<close>

text \<open>
  The last four fields only record: the elements that were put into the nonce queue in order,
  their contents at that time, the elements whose packet was written to the socket, and what was
  written.
\<close>

record out_system =
  os_dev :: Device
  os_reader :: "eid option"
  os_nonce :: nonce_pc
  os_sender :: sender_pc
  os_offered :: "eid list"
  os_plain :: "eid \<Rightarrow> bytes"
  os_log :: "eid list"
  os_wire :: "bytes list"

datatype out_event = Read_packet "bytes option" | Queue_keepalive | Nonce_step nonce_event
  | Encrypt_step | Send_step bool time

text \<open>A packet of the TUN device that belongs to the peer, or to none, or is not looked up.\<close>

definition destined :: "bool \<Rightarrow> Device \<Rightarrow> pid \<Rightarrow> bytes option \<Rightarrow> bool" where
  "destined ios D p os =
    (case tun_Read ios os of
      Some (Tun_packet packet _) \<Rightarrow> packet = [] \<or> length packet > MaxContentSize \<or>
        lookup_destination D packet \<in> {None, Some None, Some (Some p)}
    | _ \<Rightarrow> True)"

definition offer :: "out_system \<Rightarrow> eid \<Rightarrow> out_system" where
  "offer s e = s\<lparr>os_offered := os_offered s @ [e],
    os_plain := (os_plain s)(e := qo_packet (st_out (os_dev s) e))\<rparr>"

fun out_step ::
  "crypto \<Rightarrow> netenv \<Rightarrow> string \<Rightarrow> bool \<Rightarrow> pid \<Rightarrow> out_event \<Rightarrow> out_system \<Rightarrow> out_system option" where
  "out_step C N endpoint ios p (Read_packet os) s =
    (case os_reader s of
      None \<Rightarrow> None
    | Some e \<Rightarrow>
        if \<not> destined ios (os_dev s) p os then None
        else case RoutineReadFromTUN ios (os_dev s) e os of
          None \<Rightarrow> None
        | Some (D, r) \<Rightarrow>
            let s = s\<lparr>os_dev := D, os_reader := r\<rparr>
            in Some (if r \<noteq> None \<and> r \<noteq> Some e then offer s e else s))"
| "out_step C N endpoint ios p Queue_keepalive s =
    (let e = st_nextElem (os_dev s);
         q = p_nonce (st_peer (os_dev s) p)
     in case SendKeepAlive (os_dev s) p of
          None \<Rightarrow> None
        | Some (D, _) \<Rightarrow>
            let s = s\<lparr>os_dev := D\<rparr>
            in Some (if p_nonce (st_peer D p) \<noteq> q then offer s e else s))"
| "out_step C N endpoint ios p (Nonce_step ev) s =
    map_option (\<lambda>(D, pc). s\<lparr>os_dev := D, os_nonce := pc\<rparr>) (RoutineNonce (os_dev s) p (os_nonce s) ev)"
| "out_step C N endpoint ios p Encrypt_step s =
    map_option (\<lambda>D. s\<lparr>os_dev := D\<rparr>) (RoutineEncryption C (os_dev s))"
| "out_step C N endpoint ios p (Send_step ok now) s =
    (case RoutineSequentialSender C N endpoint (os_dev s) p (os_sender s) ok now of
      None \<Rightarrow> None
    | Some (D, pc) \<Rightarrow>
        let written = map snd (drop (length (st_sent (os_dev s))) (st_sent D));
            log = (case os_sender s of
                Lock_element e \<Rightarrow> if written \<noteq> [] then os_log s @ [e] else os_log s
              | Next_outbound \<Rightarrow> os_log s)
        in Some (s\<lparr>os_dev := D, os_sender := pc, os_log := log, os_wire := os_wire s @ written\<rparr>))"

text \<open>The key pairs a peer holds were made before.\<close>

definition keys_made :: "pid \<Rightarrow> Device \<Rightarrow> bool" where
  "keys_made p D \<longleftrightarrow> (\<forall>k. held D p k \<longrightarrow> k < st_nextKeyPair D)"

lemma keys_made_cong:
  "keyPairs_of D' p = keyPairs_of D p \<Longrightarrow> st_nextKeyPair D' = st_nextKeyPair D \<Longrightarrow> keys_made p D' = keys_made p D"
  by (simp add: keys_made_def held_def)

text \<open>
  What every other part of the program keeps of the state these routines work on: it leaves the
  elements, the queues and the used part of every key pair alone, and a peer is given only key
  pairs that were made.
\<close>

definition others :: "pid \<Rightarrow> Device \<Rightarrow> Device \<Rightarrow> bool" where
  "others p D D' \<longleftrightarrow>
    st_out D' = st_out D \<and> dv_encryption D' = dv_encryption D \<and> dv_mtu D' = dv_mtu D \<and>
    p_nonce (st_peer D' p) = p_nonce (st_peer D p) \<and> p_outbound (st_peer D' p) = p_outbound (st_peer D p) \<and>
    st_nextElem D \<le> st_nextElem D' \<and> st_nextKeyPair D \<le> st_nextKeyPair D' \<and>
    (\<forall>k < st_nextKeyPair D. kp_send (st_keyPair D' k) = kp_send (st_keyPair D k) \<and>
      kp_remoteIndex (st_keyPair D' k) = kp_remoteIndex (st_keyPair D k) \<and>
      kp_sendNonce (st_keyPair D' k) = kp_sendNonce (st_keyPair D k)) \<and>
    (keys_made p D \<longrightarrow> keys_made p D')"

text \<open>The routines start on a peer whose nonce queue may hold keepalives already.\<close>

definition out_start :: "pid \<Rightarrow> Device \<Rightarrow> bool" where
  "out_start p D \<longleftrightarrow>
    0 < chan_cap (p_nonce (st_peer D p)) \<and> chan_ok (p_nonce (st_peer D p)) \<and>
    0 < chan_cap (p_outbound (st_peer D p)) \<and> chan_buf (p_outbound (st_peer D p)) = [] \<and>
    0 < chan_cap (dv_encryption D) \<and> chan_buf (dv_encryption D) = [] \<and>
    distinct (chan_buf (p_nonce (st_peer D p))) \<and>
    (\<forall>e \<in> set (chan_buf (p_nonce (st_peer D p))). e < st_nextElem D \<and>
      \<not> qo_locked (st_out D e) \<and> qo_packet (st_out D e) = []) \<and>
    keys_made p D"

definition out_init :: "pid \<Rightarrow> Device \<Rightarrow> out_system" where
  "out_init p D =
    (let (D', e) = NewOutboundElement D
     in \<lparr>os_dev = D', os_reader = Some e, os_nonce = Next_packet, os_sender = Next_outbound,
          os_offered = chan_buf (p_nonce (st_peer D p)), os_plain = (\<lambda>_. []), os_log = [], os_wire = []\<rparr>)"

inductive out_reachable ::
  "crypto \<Rightarrow> netenv \<Rightarrow> string \<Rightarrow> bool \<Rightarrow> pid \<Rightarrow> out_system \<Rightarrow> bool"
  for C N endpoint ios p where
  start: "out_start p D \<Longrightarrow> out_reachable C N endpoint ios p (out_init p D)"
| step: "out_reachable C N endpoint ios p s \<Longrightarrow> out_step C N endpoint ios p ev s = Some s' \<Longrightarrow>
    out_reachable C N endpoint ios p s'"
| other: "out_reachable C N endpoint ios p s \<Longrightarrow> others p (os_dev s) D \<Longrightarrow>
    out_reachable C N endpoint ios p (s\<lparr>os_dev := D\<rparr>)"

section \<open>The invariant\<close>

definition transport_packet :: "crypto \<Rightarrow> KeyPair \<Rightarrow> u64 \<Rightarrow> bytes \<Rightarrow> bytes" where
  "transport_packet C kp n content =
    transport_header (kp_remoteIndex kp) n @ aead_seal C (kp_send kp) (transport_nonce n) content []"

definition elem_key :: "Device \<Rightarrow> eid \<Rightarrow> kid option" where
  "elem_key D e = qo_keyPair (st_out D e)"

definition elem_nonce :: "Device \<Rightarrow> eid \<Rightarrow> u64" where
  "elem_nonce D e = qo_nonce (st_out D e)"

definition sealed_as :: "crypto \<Rightarrow> Device \<Rightarrow> bytes \<Rightarrow> eid \<Rightarrow> bool" where
  "sealed_as C D plain e \<longleftrightarrow> (\<exists>k. elem_key D e = Some k \<and>
    qo_packet (st_out D e) =
      transport_packet C (st_keyPair D k) (elem_nonce D e) (pad_content (dv_mtu D) plain))"

definition placed :: "bool \<Rightarrow> Device \<Rightarrow> bytes \<Rightarrow> eid \<Rightarrow> bool" where
  "placed ios D plain e \<longleftrightarrow> qo_packet (st_out D e) = plain \<and>
    (plain = [] \<or> qo_offset (st_out D e) = 16 + (if ios then 4 else 0))"

text \<open>
  \<open>A\<close> are the elements with a nonce that are still to be sent, behind those already sent, \<open>L\<close>;
  \<open>W\<close> are those waiting for one.
\<close>

definition offered_ok :: "Device \<Rightarrow> eid option \<Rightarrow> eid list \<Rightarrow> eid list \<Rightarrow> eid list \<Rightarrow> bool" where
  "offered_ok D reader A W offered \<longleftrightarrow>
    subseq (A @ W) offered \<and> distinct offered \<and> (\<forall>e \<in> set offered. e < st_nextElem D) \<and>
    (\<forall>r. reader = Some r \<longrightarrow> r \<notin> set offered \<and> r < st_nextElem D \<and> \<not> qo_locked (st_out D r))"

definition waiting_ok :: "bool \<Rightarrow> Device \<Rightarrow> (eid \<Rightarrow> bytes) \<Rightarrow> eid list \<Rightarrow> bool" where
  "waiting_ok ios D plain W \<longleftrightarrow>
    (\<forall>e \<in> set W. \<not> qo_locked (st_out D e) \<and> placed ios D (plain e) e)"

definition encrypting_ok ::
  "bool \<Rightarrow> Device \<Rightarrow> (eid \<Rightarrow> bytes) \<Rightarrow> eid list \<Rightarrow> eid list \<Rightarrow> bool" where
  "encrypting_ok ios D plain W offered \<longleftrightarrow>
    enc_inv (dv_encryption D, st_out D) \<and>
    (\<forall>e \<in> set (chan_buf (dv_encryption D)). e \<in> set offered \<and> e \<notin> set W \<and>
      elem_key D e \<noteq> None \<and> placed ios D (plain e) e)"

definition assigned_ok :: "Device \<Rightarrow> eid list \<Rightarrow> bool" where
  "assigned_ok D A \<longleftrightarrow>
    (\<forall>e \<in> set A. \<exists>k. elem_key D e = Some k \<and> k < st_nextKeyPair D \<and>
      elem_nonce D e < kp_sendNonce (st_keyPair D k) \<and> elem_nonce D e < RejectAfterMessages) \<and>
    sorted_wrt (\<lambda>e f. elem_key D e = elem_key D f \<longrightarrow> elem_nonce D e < elem_nonce D f) A"

definition elem_life :: "crypto \<Rightarrow> Device \<Rightarrow> (eid \<Rightarrow> bytes) \<Rightarrow> eid list \<Rightarrow> eid \<Rightarrow> bool" where
  "elem_life C D plain L e \<longleftrightarrow>
    (if e \<in> set L then sealed_as C D (plain e) e \<and> e \<notin> set (chan_buf (dv_encryption D))
     else \<not> qo_locked (st_out D e) \<and> (qo_dropped (st_out D e) \<or> sealed_as C D (plain e) e) \<or>
       qo_locked (st_out D e) \<and> \<not> qo_dropped (st_out D e) \<and> e \<in> set (chan_buf (dv_encryption D)))"

definition life_ok :: "crypto \<Rightarrow> Device \<Rightarrow> (eid \<Rightarrow> bytes) \<Rightarrow> eid list \<Rightarrow> eid list \<Rightarrow> bool" where
  "life_ok C D plain L A \<longleftrightarrow> set L \<subseteq> set A \<and> (\<forall>e \<in> set A. elem_life C D plain L e)"

definition core_inv ::
  "crypto \<Rightarrow> bool \<Rightarrow> Device \<Rightarrow> eid option \<Rightarrow> eid list \<Rightarrow> eid list \<Rightarrow> eid list \<Rightarrow> eid list \<Rightarrow>
    (eid \<Rightarrow> bytes) \<Rightarrow> bool" where
  "core_inv C ios D reader L A W offered plain \<longleftrightarrow>
    offered_ok D reader A W offered \<and> waiting_ok ios D plain W \<and> encrypting_ok ios D plain W offered \<and>
    assigned_ok D A \<and> life_ok C D plain L A"

lemmas core_defs = core_inv_def offered_ok_def waiting_ok_def encrypting_ok_def assigned_ok_def life_ok_def

definition held_elements :: "sender_pc \<Rightarrow> eid list" where
  "held_elements pc = (case pc of Lock_element e \<Rightarrow> [e] | Next_outbound \<Rightarrow> [])"

definition assigned :: "pid \<Rightarrow> out_system \<Rightarrow> eid list" where
  "assigned p s = os_log s @ held_elements (os_sender s) @ chan_buf (p_outbound (st_peer (os_dev s) p)) @
    (case os_nonce s of Enqueue e \<Rightarrow> [e] | _ \<Rightarrow> [])"

definition waiting :: "pid \<Rightarrow> out_system \<Rightarrow> eid list" where
  "waiting p s = (case os_nonce s of Have_packet e \<Rightarrow> [e] | Await_key e \<Rightarrow> [e] | _ \<Rightarrow> []) @
    chan_buf (p_nonce (st_peer (os_dev s) p))"

definition out_inv :: "crypto \<Rightarrow> bool \<Rightarrow> pid \<Rightarrow> out_system \<Rightarrow> bool" where
  "out_inv C ios p s \<longleftrightarrow>
    core_inv C ios (os_dev s) (os_reader s) (os_log s) (assigned p s) (waiting p s) (os_offered s) (os_plain s) \<and>
    seq_inv (p_nonce (st_peer (os_dev s) p), ()) \<and> seq_inv (p_outbound (st_peer (os_dev s) p), ()) \<and>
    keys_made p (os_dev s) \<and>
    os_wire s = map (\<lambda>e. qo_packet (st_out (os_dev s) e)) (os_log s)"

section \<open>Steps that keep the invariant\<close>

lemma subseq_sorted_wrt: "subseq xs ys \<Longrightarrow> sorted_wrt P ys \<Longrightarrow> sorted_wrt P xs"
proof (induction rule: list_emb.induct)
  case (list_emb_Cons2 x y xs ys)
  then show ?case using list_emb_set [of "(=)" xs ys] by auto
qed auto

lemma subseq_subset: "subseq xs ys \<Longrightarrow> e \<in> set xs \<Longrightarrow> e \<in> set ys"
  using list_emb_set [of "(=)" xs ys] by blast

text \<open>Elements may be lost from either list, except those already sent.\<close>

lemma core_less:
  assumes "core_inv C ios D reader L A W offered plain" "subseq A' A" "subseq W' W" "set L \<subseteq> set A'"
  shows "core_inv C ios D reader L A' W' offered plain"
proof -
  have "subseq (A' @ W') offered"
    using assms list_emb_append_mono [of "(=)" A' A W' W] subseq_order.trans
    unfolding core_inv_def offered_ok_def by blast
  moreover have "set A' \<subseteq> set A" "set W' \<subseteq> set W"
    using assms(2,3) by (auto intro: subseq_subset)
  moreover have "sorted_wrt P A \<Longrightarrow> sorted_wrt P A'" for P
    by (rule subseq_sorted_wrt [OF assms(2)])
  ultimately have "offered_ok D reader A' W' offered" "waiting_ok ios D plain W'"
    "encrypting_ok ios D plain W' offered" "assigned_ok D A'" "life_ok C D plain L A'"
    using assms(1,4)
    by (auto simp: core_inv_def offered_ok_def waiting_ok_def encrypting_ok_def assigned_ok_def life_ok_def
        dest: subsetD)
  then show ?thesis by (simp add: core_inv_def)
qed

text \<open>The core looks at the elements and the key pairs only through these.\<close>

definition elem_view :: "(pid, kid) QueueOutboundElement \<Rightarrow> bool \<times> bytes \<times> nat \<times> u64 \<times> kid option" where
  "elem_view q = (qo_locked q, qo_packet q, qo_offset q, qo_nonce q, qo_keyPair q)"

lemma core_same_view:
  assumes core: "core_inv C ios D reader L A W offered plain"
    and same: "\<And>e. elem_view (st_out D' e) = elem_view (st_out D e)"
      "\<And>e. e \<in> set A \<Longrightarrow> qo_dropped (st_out D' e) = qo_dropped (st_out D e)"
    and rest: "dv_encryption D' = dv_encryption D" "dv_mtu D' = dv_mtu D"
      "st_nextElem D \<le> st_nextElem D'" "st_nextKeyPair D \<le> st_nextKeyPair D'"
      "\<And>k. k < st_nextKeyPair D \<Longrightarrow> kp_send (st_keyPair D' k) = kp_send (st_keyPair D k) \<and>
        kp_remoteIndex (st_keyPair D' k) = kp_remoteIndex (st_keyPair D k) \<and>
        kp_sendNonce (st_keyPair D' k) = kp_sendNonce (st_keyPair D k)"
  shows "core_inv C ios D' reader L A W offered plain"
proof -
  have view: "qo_locked (st_out D' e) = qo_locked (st_out D e)" "qo_packet (st_out D' e) = qo_packet (st_out D e)"
    "qo_offset (st_out D' e) = qo_offset (st_out D e)" "elem_nonce D' e = elem_nonce D e"
    "elem_key D' e = elem_key D e" for e
    using same(1) [of e] by (simp_all add: elem_view_def elem_nonce_def elem_key_def)
  have placed: "placed ios D' pl e = placed ios D pl e" for pl e by (simp add: placed_def view)
  have "offered_ok D' reader A W offered"
    using core rest(3) by (auto simp: core_inv_def offered_ok_def view intro: less_le_trans)
  moreover have "waiting_ok ios D' plain W"
    using core by (simp add: core_inv_def waiting_ok_def view placed)
  moreover have "encrypting_ok ios D' plain W offered"
    using core by (simp add: core_inv_def encrypting_ok_def view placed rest(1) enc_inv_def seq_inv_def items_of_def)
  moreover have "assigned_ok D' A"
  proof -
    have "\<exists>k. elem_key D e = Some k \<and> k < st_nextKeyPair D' \<and>
        elem_nonce D e < kp_sendNonce (st_keyPair D' k) \<and> elem_nonce D e < RejectAfterMessages"
      if e: "e \<in> set A" for e
    proof -
      obtain k where "elem_key D e = Some k" "k < st_nextKeyPair D"
        "elem_nonce D e < kp_sendNonce (st_keyPair D k)" "elem_nonce D e < RejectAfterMessages"
        using core e by (auto simp: core_inv_def assigned_ok_def)
      with rest(4) rest(5) [of k] show ?thesis by (intro exI [of _ k]) simp
    qed
    with core show ?thesis by (simp add: core_inv_def assigned_ok_def view)
  qed
  moreover have sealed: "sealed_as C D' pl e = sealed_as C D pl e" if e: "e \<in> set A" for pl e
  proof -
    obtain k where k: "elem_key D e = Some k" "k < st_nextKeyPair D"
      using core e by (auto simp: core_inv_def assigned_ok_def)
    with rest(5) [of k] show ?thesis by (simp add: sealed_as_def view rest(2) transport_packet_def)
  qed
  have "life_ok C D' plain L A"
    using core by (simp add: core_inv_def life_ok_def elem_life_def view rest(1) same(2) sealed)
  ultimately show ?thesis by (simp add: core_inv_def)
qed

lemma core_others:
  assumes "core_inv C ios D reader L A W offered plain" "others p D D'"
  shows "core_inv C ios D' reader L A W offered plain"
  using core_same_view [OF assms(1), of D'] assms(2) by (simp add: others_def)

lemma core_Drop:
  assumes "core_inv C ios D reader L A W offered plain" "e \<notin> set A"
  shows "core_inv C ios (D\<lparr>st_out := qo_Drop (st_out D) e\<rparr>) reader L A W offered plain"
  by (rule core_same_view [OF assms(1)]) (use assms(2) in \<open>auto simp: elem_view_def qo_Drop_def\<close>)

text \<open>Adding to a sequential queue loses at most its oldest element, which is marked dropped.\<close>

definition push_drop :: "eid chan \<Rightarrow> (pid, kid) outbound_store \<Rightarrow> (pid, kid) outbound_store" where
  "push_drop q st = (if length (chan_buf q) = chan_cap q then qo_Drop st (hd (chan_buf q)) else st)"

lemma addToOutboundQueue_eq:
  assumes "seq_inv (q, ())"
  shows "addToOutboundQueue q x st = Some (pushed q x, push_drop q st)" "seq_inv (pushed q x, ())"
  using assms by (simp_all add: addToOutboundQueue_def push_drop_def seq_inv_pushed
      add_pushed [where h' = "if length (chan_buf q) = chan_cap q then qo_Drop st (hd (chan_buf q)) else st"])

lemma pushed_subseq:
  fixes q :: "'a chan"
  assumes "seq_inv (q, ())"
  shows "subseq (chan_buf (pushed q x)) (chan_buf q @ [x])"
proof -
  have "subseq (drop n xs) xs" for n and xs :: "'a list"
    using subseq_drop_many [of "drop n xs" "drop n xs" "take n xs"] by simp
  then show ?thesis by (simp add: pushed_def del: drop_append)
qed

text \<open>The element given up is not among those that stay.\<close>

lemma pushed_lost:
  assumes "seq_inv (q, ())" "distinct (ps @ chan_buf q @ x # rest)" "length (chan_buf q) = chan_cap q"
  shows "hd (chan_buf q) \<notin> set (ps @ chan_buf (pushed q x) @ rest)"
proof -
  obtain y ys where "chan_buf q = y # ys" using assms(1,3) by (cases "chan_buf q") (auto simp: seq_inv_def)
  with assms show ?thesis by (auto simp: pushed_def)
qed

section \<open>New elements and offered ones\<close>

lemma core_members:
  assumes "core_inv C ios D reader L A W offered plain" "e \<in> set A \<or> e \<in> set W"
  shows "e \<in> set offered"
  using assms subseq_subset [of "A @ W" offered e] by (auto simp: core_inv_def offered_ok_def)

lemma core_outside:
  assumes core: "core_inv C ios D reader L A W offered plain"
    and x: "st_out D' = (st_out D)(x := q)" "x \<notin> set offered" "\<not> qo_locked q"
    and rest: "dv_encryption D' = dv_encryption D" "dv_mtu D' = dv_mtu D"
      "st_nextElem D \<le> st_nextElem D'" "st_nextKeyPair D' = st_nextKeyPair D" "st_keyPair D' = st_keyPair D"
    and reader: "reader' = reader \<or> reader' = Some x \<and> x < st_nextElem D'"
  shows "core_inv C ios D' reader' L A W offered plain"
proof -
  have same: "st_out D' e = st_out D e" if "e \<in> set A \<or> e \<in> set W \<or> e \<in> set offered" for e
    using that x(1,2) core_members [OF core, of e] by auto
  have view: "elem_key D' e = elem_key D e" "elem_nonce D' e = elem_nonce D e"
    "placed ios D' pl e = placed ios D pl e" "sealed_as C D' pl e = sealed_as C D pl e"
    if "e \<in> set A \<or> e \<in> set W \<or> e \<in> set offered" for e pl
    using same [OF that] rest
    by (simp_all add: elem_key_def elem_nonce_def placed_def sealed_as_def)
  have "offered_ok D' reader' A W offered"
    using core x(2,3) rest(3) reader by (fastforce simp: core_inv_def offered_ok_def x(1))
  moreover have "waiting_ok ios D' plain W"
    using core by (simp add: core_inv_def waiting_ok_def view same)
  moreover have "encrypting_ok ios D' plain W offered"
    using core by (auto simp: core_inv_def encrypting_ok_def enc_inv_def seq_inv_def items_of_def rest view same)
  moreover have "assigned_ok D' A"
  proof -
    have "sorted_wrt (\<lambda>e f. elem_key D' e = elem_key D' f \<longrightarrow> elem_nonce D' e < elem_nonce D' f) A"
      by (rule sorted_wrt_mono_rel [of A "\<lambda>e f. elem_key D e = elem_key D f \<longrightarrow> elem_nonce D e < elem_nonce D f"])
        (use core in \<open>auto simp: core_inv_def assigned_ok_def view\<close>)
    with core show ?thesis by (simp add: core_inv_def assigned_ok_def view rest)
  qed
  moreover have "life_ok C D' plain L A"
    using core by (auto simp: core_inv_def life_ok_def elem_life_def view same rest)
  ultimately show ?thesis by (simp add: core_inv_def)
qed

lemma core_offer:
  assumes core: "core_inv C ios D reader L A W offered plain"
    and x: "x \<notin> set offered" "x < st_nextElem D" "\<not> qo_locked (st_out D x)" "reader \<noteq> Some x"
      "placed ios D (qo_packet (st_out D x)) x"
  shows "core_inv C ios D reader L A (W @ [x]) (offered @ [x]) (plain(x := qo_packet (st_out D x)))"
proof -
  let ?pl = "plain(x := qo_packet (st_out D x))"
  have sub: "e \<in> set A \<or> e \<in> set W \<Longrightarrow> e \<in> set offered" for e
    by (rule core_members [OF core])
  then have x': "e \<in> set A \<or> e \<in> set W \<or> e \<in> set offered \<Longrightarrow> ?pl e = plain e" for e
    using x(1) by auto
  have "subseq ((A @ W) @ [x]) (offered @ [x])"
    using core by (intro list_emb_append_mono) (auto simp: core_inv_def offered_ok_def)
  then have "offered_ok D reader A (W @ [x]) (offered @ [x])"
    using core x(1,2,4) by (auto simp: core_inv_def offered_ok_def)
  moreover have "waiting_ok ios D ?pl (W @ [x])"
    using core x(3,5) x' by (auto simp: core_inv_def waiting_ok_def)
  moreover have "encrypting_ok ios D ?pl (W @ [x]) (offered @ [x])"
    using core x(1) x' by (auto simp: core_inv_def encrypting_ok_def)
  moreover have "assigned_ok D A" using core by (simp add: core_inv_def)
  moreover have "life_ok C D ?pl L A"
    using core x' by (auto simp: core_inv_def life_ok_def elem_life_def)
  ultimately show ?thesis by (simp add: core_inv_def)
qed

section \<open>Assignment of a nonce\<close>

lemma core_distinct:
  assumes "core_inv C ios D reader L A W offered plain"
  shows "distinct (A @ W)"
  using assms subseq_distinct [of "A @ W" offered] unfolding core_inv_def offered_ok_def by blast

lemma assign_nonce_effect:
  assumes inv: "enc_inv (dv_encryption D, st_out D)" and e: "e \<notin> set (chan_buf (dv_encryption D))"
    "\<not> qo_locked (st_out D e)"
  shows "\<exists>q' st'. assign_nonce D p k e = Some ((upd_keyPair D k
        (\<lambda>kp. kp\<lparr>kp_sendNonce := kp_sendNonce kp + 1\<rparr>))\<lparr>dv_encryption := q', st_out := st'\<rparr>) \<and>
    enc_inv (q', st') \<and> (\<forall>f. f \<in> set (chan_buf q') \<longrightarrow> f \<in> insert e (set (chan_buf (dv_encryption D)))) \<and>
    e \<in> set (chan_buf q') \<and>
    st' e = (st_out D e)\<lparr>qo_peer := Some p, qo_nonce := kp_sendNonce (st_keyPair D k), qo_keyPair := Some k,
      qo_dropped := False, qo_locked := True\<rparr> \<and>
    (\<forall>f. f \<noteq> e \<longrightarrow> (f \<in> set (chan_buf (dv_encryption D)) \<and> f \<notin> set (chan_buf q') \<and>
        st' f = (st_out D f)\<lparr>qo_dropped := True, qo_locked := False\<rparr>) \<or>
      (st' f = st_out D f \<and> (f \<in> set (chan_buf q') \<longleftrightarrow> f \<in> set (chan_buf (dv_encryption D)))))"
proof -
  let ?q = "dv_encryption D"
  define st where "st = (st_out D)(e := (st_out D e)\<lparr>qo_peer := Some p,
    qo_nonce := kp_sendNonce (st_keyPair D k), qo_keyPair := Some k, qo_dropped := False, qo_locked := True\<rparr>)"
  have inv': "enc_inv (?q, st)" "enc_fits (?q, st) e"
    using inv e by (auto simp: st_def enc_inv_def enc_fits_def seq_inv_def items_of_def)
  obtain q' st' where add: "addToEncryptionQueue ?q e st = Some (q', st')" "enc_inv (q', st')"
    "chan_buf q' = drop (Suc (length (chan_buf ?q)) - chan_cap ?q) (chan_buf ?q @ [e])"
    "\<forall>f. st' f = (if f \<in> set (take (Suc (length (chan_buf ?q)) - chan_cap ?q) (chan_buf ?q))
      then (st f)\<lparr>qo_dropped := True, qo_locked := False\<rparr> else st f)"
    using encryption_contract [OF inv'] by blast
  define n where "n = Suc (length (chan_buf ?q)) - chan_cap ?q"
  have n: "n \<le> length (chan_buf ?q)" and dist: "distinct (chan_buf ?q)"
    using inv by (auto simp: n_def enc_inv_def seq_inv_def chan_ok_def items_of_def)
  have split: "set (chan_buf ?q) = set (take n (chan_buf ?q)) \<union> set (drop n (chan_buf ?q))"
    by (metis append_take_drop_id set_append)
  have disj: "set (take n (chan_buf ?q)) \<inter> set (drop n (chan_buf ?q)) = {}"
    using dist by (metis append_take_drop_id distinct_append)
  have q': "set (chan_buf q') = insert e (set (drop n (chan_buf ?q)))"
    using n by (auto simp: add(3) n_def [symmetric])
  have "assign_nonce D p k e = Some ((upd_keyPair D k
      (\<lambda>kp. kp\<lparr>kp_sendNonce := kp_sendNonce kp + 1\<rparr>))\<lparr>dv_encryption := q', st_out := st'\<rparr>)"
    using add(1) e(2)
    by (simp add: assign_nonce_def Let_def upd_out_def upd_keyPair_def st_def)
  moreover have "st' e = st e"
    using add(4) e(1) split by (auto simp: n_def [symmetric])
  moreover have "\<forall>f. f \<noteq> e \<longrightarrow> (f \<in> set (chan_buf ?q) \<and> f \<notin> set (chan_buf q') \<and>
        st' f = (st_out D f)\<lparr>qo_dropped := True, qo_locked := False\<rparr>) \<or>
      (st' f = st_out D f \<and> (f \<in> set (chan_buf q') \<longleftrightarrow> f \<in> set (chan_buf ?q)))"
    using add(4) q' split disj by (auto simp: n_def [symmetric] st_def)
  ultimately show ?thesis
    using add(2) q' split by (intro exI [of _ q'] exI [of _ st']) (auto simp: st_def)
qed

lemma nonce_Suc: "n < RejectAfterMessages \<Longrightarrow> n < n + 1"
  by (simp add: word_less_nat_alt unat_word_ariths unat_RejectAfterMessages)

text \<open>The device after an assignment: the element is locked and queued, at most one other was given up.\<close>

definition assigned_to :: "Device \<Rightarrow> pid \<Rightarrow> kid \<Rightarrow> eid \<Rightarrow> Device \<Rightarrow> bool" where
  "assigned_to D p k e D' \<longleftrightarrow>
    dv_mtu D' = dv_mtu D \<and> st_nextElem D' = st_nextElem D \<and> st_nextKeyPair D' = st_nextKeyPair D \<and>
    st_peer D' = st_peer D \<and>
    (\<forall>j. kp_send (st_keyPair D' j) = kp_send (st_keyPair D j) \<and>
      kp_remoteIndex (st_keyPair D' j) = kp_remoteIndex (st_keyPair D j) \<and>
      kp_sendNonce (st_keyPair D' j) = (if j = k then kp_sendNonce (st_keyPair D k) + 1 else kp_sendNonce (st_keyPair D j))) \<and>
    enc_inv (dv_encryption D', st_out D') \<and> e \<in> set (chan_buf (dv_encryption D')) \<and>
    set (chan_buf (dv_encryption D')) \<subseteq> insert e (set (chan_buf (dv_encryption D))) \<and>
    st_out D' e = (st_out D e)\<lparr>qo_peer := Some p, qo_nonce := kp_sendNonce (st_keyPair D k), qo_keyPair := Some k,
      qo_dropped := False, qo_locked := True\<rparr> \<and>
    (\<forall>f. f \<noteq> e \<longrightarrow> (f \<in> set (chan_buf (dv_encryption D)) \<and> f \<notin> set (chan_buf (dv_encryption D')) \<and>
        st_out D' f = (st_out D f)\<lparr>qo_dropped := True, qo_locked := False\<rparr>) \<or>
      (st_out D' f = st_out D f \<and> (f \<in> set (chan_buf (dv_encryption D')) \<longleftrightarrow> f \<in> set (chan_buf (dv_encryption D)))))"

lemma assign_nonce_assigned:
  assumes "enc_inv (dv_encryption D, st_out D)" "e \<notin> set (chan_buf (dv_encryption D))" "\<not> qo_locked (st_out D e)"
  shows "\<exists>D'. assign_nonce D p k e = Some D' \<and> assigned_to D p k e D'"
proof -
  obtain q' st' where "assign_nonce D p k e = Some ((upd_keyPair D k
        (\<lambda>kp. kp\<lparr>kp_sendNonce := kp_sendNonce kp + 1\<rparr>))\<lparr>dv_encryption := q', st_out := st'\<rparr>)"
    "enc_inv (q', st')" "\<forall>f. f \<in> set (chan_buf q') \<longrightarrow> f \<in> insert e (set (chan_buf (dv_encryption D)))"
    "e \<in> set (chan_buf q')"
    "st' e = (st_out D e)\<lparr>qo_peer := Some p, qo_nonce := kp_sendNonce (st_keyPair D k), qo_keyPair := Some k,
      qo_dropped := False, qo_locked := True\<rparr>"
    "\<forall>f. f \<noteq> e \<longrightarrow> (f \<in> set (chan_buf (dv_encryption D)) \<and> f \<notin> set (chan_buf q') \<and>
        st' f = (st_out D f)\<lparr>qo_dropped := True, qo_locked := False\<rparr>) \<or>
      (st' f = st_out D f \<and> (f \<in> set (chan_buf q') \<longleftrightarrow> f \<in> set (chan_buf (dv_encryption D))))"
    using assign_nonce_effect [OF assms, of p k] by (elim exE conjE)
  then show ?thesis by (auto simp: assigned_to_def upd_keyPair_def)
qed

lemma assigned_new:
  assumes "assigned_to D p k e D'"
  shows "elem_key D' e = Some k" "elem_nonce D' e = kp_sendNonce (st_keyPair D k)" "placed ios D' pl e = placed ios D pl e"
    "elem_life C D' plain L e = (e \<notin> set L)"
  using assms by (simp_all add: assigned_to_def elem_key_def elem_nonce_def placed_def elem_life_def)

lemma assigned_old:
  assumes "assigned_to D p k e D'" "f \<noteq> e"
  shows "elem_key D' f = elem_key D f" "elem_nonce D' f = elem_nonce D f"
    "placed ios D' pl f = placed ios D pl f" "sealed_as C D' pl f = sealed_as C D pl f"
    "qo_packet (st_out D' f) = qo_packet (st_out D f)" "\<not> qo_locked (st_out D f) \<Longrightarrow> \<not> qo_locked (st_out D' f)"
    "elem_life C D plain L f \<Longrightarrow> elem_life C D' plain L f"
proof -
  have fate: "(f \<in> set (chan_buf (dv_encryption D)) \<and> f \<notin> set (chan_buf (dv_encryption D')) \<and>
        st_out D' f = (st_out D f)\<lparr>qo_dropped := True, qo_locked := False\<rparr>) \<or>
      (st_out D' f = st_out D f \<and> (f \<in> set (chan_buf (dv_encryption D')) \<longleftrightarrow> f \<in> set (chan_buf (dv_encryption D))))"
    and keys: "dv_mtu D' = dv_mtu D" "\<And>j. kp_send (st_keyPair D' j) = kp_send (st_keyPair D j) \<and>
      kp_remoteIndex (st_keyPair D' j) = kp_remoteIndex (st_keyPair D j)"
    using assms by (simp_all add: assigned_to_def)
  have sealed: "sealed_as C D' pl f = sealed_as C D pl f" for pl
    using fate keys by (auto simp: elem_key_def elem_nonce_def sealed_as_def transport_packet_def)
  then show "sealed_as C D' pl f = sealed_as C D pl f" .
  show "elem_key D' f = elem_key D f" "elem_nonce D' f = elem_nonce D f" "placed ios D' pl f = placed ios D pl f"
    "qo_packet (st_out D' f) = qo_packet (st_out D f)" "\<not> qo_locked (st_out D f) \<Longrightarrow> \<not> qo_locked (st_out D' f)"
    using fate by (auto simp: elem_key_def elem_nonce_def placed_def)
  show "elem_life C D plain L f \<Longrightarrow> elem_life C D' plain L f"
    using fate by (auto simp: elem_life_def sealed split: if_splits)
qed

lemma assigned_queue:
  assumes core: "core_inv C ios D reader L A (e # W) offered plain" and to: "assigned_to D p k e D'"
  shows "encrypting_ok ios D' plain W offered"
proof -
  have "f \<in> set offered \<and> f \<notin> set W \<and> elem_key D' f \<noteq> None \<and> placed ios D' (plain f) f"
    if "f \<in> set (chan_buf (dv_encryption D'))" for f
  proof (cases "f = e")
    case True
    then show ?thesis
      using core core_distinct [OF core] core_members [OF core, of e] assigned_new [OF to] by (auto simp: core_inv_def waiting_ok_def)
  next
    case False
    with that to have "f \<in> set (chan_buf (dv_encryption D))" by (auto simp: assigned_to_def)
    with core assigned_old(1,3) [OF to False] show ?thesis by (simp add: core_inv_def encrypting_ok_def)
  qed
  with to show ?thesis by (simp add: encrypting_ok_def assigned_to_def)
qed

lemma assigned_counters:
  assumes core: "core_inv C ios D reader L A (e # W) offered plain" and to: "assigned_to D p k e D'"
    and k: "k < st_nextKeyPair D" "kp_sendNonce (st_keyPair D k) < RejectAfterMessages"
  shows "assigned_ok D' (A @ [e])"
proof -
  have ne: "f \<noteq> e" if "f \<in> set A" for f using core_distinct [OF core] that by auto
  have A: "\<exists>j. elem_key D f = Some j \<and> j < st_nextKeyPair D \<and>
      elem_nonce D f < kp_sendNonce (st_keyPair D j) \<and> elem_nonce D f < RejectAfterMessages"
    if "f \<in> set A" for f using core that by (simp add: core_inv_def assigned_ok_def)
  have keys: "st_nextKeyPair D' = st_nextKeyPair D" "\<And>j. kp_sendNonce (st_keyPair D' j) =
      (if j = k then kp_sendNonce (st_keyPair D k) + 1 else kp_sendNonce (st_keyPair D j))"
    using to by (simp_all add: assigned_to_def)
  note old = assigned_old(1,2) [OF to ne] and new = assigned_new(1,2) [OF to]
  have "sorted_wrt (\<lambda>e f. elem_key D' e = elem_key D' f \<longrightarrow> elem_nonce D' e < elem_nonce D' f) A"
    by (rule sorted_wrt_mono_rel [of A "\<lambda>e f. elem_key D e = elem_key D f \<longrightarrow> elem_nonce D e < elem_nonce D f"])
      (use core in \<open>simp_all add: old core_inv_def assigned_ok_def\<close>)
  moreover have "elem_key D' f = elem_key D' e \<longrightarrow> elem_nonce D' f < elem_nonce D' e" if "f \<in> set A" for f
    using A [OF that] by (auto simp: old [OF that] new)
  moreover have "\<exists>j. elem_key D' f = Some j \<and> j < st_nextKeyPair D' \<and>
      elem_nonce D' f < kp_sendNonce (st_keyPair D' j) \<and> elem_nonce D' f < RejectAfterMessages" if "f \<in> set A" for f
    using A [OF that] nonce_Suc [OF k(2)] by (auto simp: old [OF that] keys intro: less_trans)
  ultimately show ?thesis
    using k nonce_Suc [OF k(2)] by (auto simp: assigned_ok_def sorted_wrt_append new keys)
qed

lemma core_assign:
  assumes core: "core_inv C ios D reader L A (e # W) offered plain"
    and k: "k < st_nextKeyPair D" "kp_sendNonce (st_keyPair D k) < RejectAfterMessages"
  shows "\<exists>D'. assign_nonce D p k e = Some D' \<and> core_inv C ios D' reader L (A @ [e]) W offered plain \<and>
    st_peer D' = st_peer D \<and> st_nextKeyPair D' = st_nextKeyPair D \<and>
    (\<forall>f \<in> set L. qo_packet (st_out D' f) = qo_packet (st_out D f))"
proof -
  have "enc_inv (dv_encryption D, st_out D)" "e \<notin> set (chan_buf (dv_encryption D))" "\<not> qo_locked (st_out D e)"
    using core by (auto simp: core_inv_def encrypting_ok_def waiting_ok_def)
  then obtain D' where run: "assign_nonce D p k e = Some D'" and to: "assigned_to D p k e D'"
    using assign_nonce_assigned by blast
  have ne: "f \<noteq> e" if "f \<in> set A \<or> f \<in> set W" for f using core_distinct [OF core] that by auto
  have e_off: "e \<in> set offered" using core_members [OF core, of e] by simp
  have sub: "set L \<subseteq> set A" using core by (simp add: core_inv_def life_ok_def)
  then have "e \<notin> set L" using ne by blast
  have "offered_ok D' reader (A @ [e]) W offered"
    using core e_off to assigned_old(6) [OF to] by (auto simp: core_inv_def offered_ok_def assigned_to_def)
  moreover have "waiting_ok ios D' plain W"
    using core assigned_old(3,6) [OF to ne] by (simp add: core_inv_def waiting_ok_def)
  moreover have "life_ok C D' plain L (A @ [e])"
    using core sub assigned_old(7) [OF to ne] assigned_new(4) [OF to] \<open>e \<notin> set L\<close> by (auto simp: core_inv_def life_ok_def)
  ultimately have "core_inv C ios D' reader L (A @ [e]) W offered plain"
    using assigned_queue [OF core to] assigned_counters [OF core to k] by (simp add: core_inv_def)
  moreover have "qo_packet (st_out D' f) = qo_packet (st_out D f)" if "f \<in> set L" for f
    using that sub ne assigned_old(5) [OF to, of f] by blast
  ultimately show ?thesis using run to by (auto simp: assigned_to_def)
qed

section \<open>Encryption and sending\<close>

lemma core_logged:
  assumes "core_inv C ios D reader L A W offered plain" "e \<in> set L"
  shows "e \<in> set A" "sealed_as C D (plain e) e" "e \<notin> set (chan_buf (dv_encryption D))"
  using assms by (auto simp: core_inv_def life_ok_def elem_life_def)

lemma core_live:
  assumes "core_inv C ios D reader L A W offered plain" "e \<in> set A" "e \<notin> set L"
  shows "\<not> qo_locked (st_out D e) \<and> (qo_dropped (st_out D e) \<or> sealed_as C D (plain e) e) \<or>
    qo_locked (st_out D e) \<and> \<not> qo_dropped (st_out D e) \<and> e \<in> set (chan_buf (dv_encryption D))"
  using assms by (auto simp: core_inv_def life_ok_def elem_life_def)

lemma transport_header_length [simp]: "length (transport_header i n) = 16"
  by (simp add: transport_header_def)

lemma pad_loop_prefix: "\<exists>zs. pad_loop n mtu packet = packet @ zs"
  by (induction n arbitrary: packet) (auto, metis append_assoc)

lemma pad_content_Nil [simp]: "pad_content mtu [] = []"
  by (simp add: pad_content_def)

text \<open>
  The worker takes the oldest element: one that was given up is skipped, any other is sealed,
  and in neither case does the worker panic when packets start behind the header.
\<close>

lemma encrypt_head:
  assumes core: "core_inv C ios D reader L A W offered plain" and recv: "chan_recv (dv_encryption D) = Some (e, q)"
  shows "chan_buf (dv_encryption D) = e # chan_buf q" "chan_cap q = chan_cap (dv_encryption D)"
    "f \<in> set (e # chan_buf q) \<Longrightarrow> f \<in> set offered \<and> f \<notin> set W \<and> elem_key D f \<noteq> None \<and> placed ios D (plain f) f"
    "qo_locked (st_out D e)" "e \<notin> set (chan_buf q)" "e \<notin> set L" "enc_inv (q, st_out D)"
proof -
  show buf: "chan_buf (dv_encryption D) = e # chan_buf q" "chan_cap q = chan_cap (dv_encryption D)"
    using recv by (auto simp: chan_recv_def split: list.splits)
  have inv: "enc_inv (dv_encryption D, st_out D)" using core by (simp add: core_inv_def encrypting_ok_def)
  show "f \<in> set (e # chan_buf q) \<Longrightarrow> f \<in> set offered \<and> f \<notin> set W \<and> elem_key D f \<noteq> None \<and> placed ios D (plain f) f"
    using core by (simp only: core_inv_def encrypting_ok_def buf(1) simp_thms)
  show "qo_locked (st_out D e)" "e \<notin> set (chan_buf q)" "e \<notin> set L" "enc_inv (q, st_out D)"
    using inv core_logged(3) [OF core, of e] buf
    by (auto simp: enc_inv_def seq_inv_def items_of_def chan_ok_def)
qed

lemma core_skip:
  assumes core: "core_inv C ios D reader L A W offered plain" and recv: "chan_recv (dv_encryption D) = Some (e, q)"
    and dropped: "qo_dropped (st_out D e)"
  shows "core_inv C ios (D\<lparr>dv_encryption := q\<rparr>) reader L A W offered plain"
proof -
  let ?D = "D\<lparr>dv_encryption := q\<rparr>"
  note head = encrypt_head [OF core recv]
  have same: "elem_key ?D f = elem_key D f" "elem_nonce ?D f = elem_nonce D f"
    "placed ios ?D pl f = placed ios D pl f" "sealed_as C ?D pl f = sealed_as C D pl f" for f pl
    by (simp_all add: elem_key_def elem_nonce_def placed_def sealed_as_def)
  have "e \<notin> set A" using core_live [OF core, of e] dropped head(4,6) by blast
  then have "life_ok C ?D plain L A"
    using core by (auto simp: core_inv_def life_ok_def elem_life_def same head(1))
  moreover have "encrypting_ok ios ?D plain W offered"
    using head(3,7) by (auto simp: encrypting_ok_def same)
  moreover have "offered_ok ?D reader A W offered" "waiting_ok ios ?D plain W" "assigned_ok ?D A"
    using core by (simp_all add: core_inv_def offered_ok_def waiting_ok_def assigned_ok_def same)
  ultimately show ?thesis by (simp add: core_inv_def)
qed

lemma core_seal:
  assumes core: "core_inv C ios D reader L A W offered plain" and recv: "chan_recv (dv_encryption D) = Some (e, q)"
    and k: "elem_key D e = Some k"
  defines "D' \<equiv> D\<lparr>dv_encryption := q, st_out := (st_out D)(e := (st_out D e)\<lparr>qo_packet := transport_packet C
    (st_keyPair D k) (elem_nonce D e) (pad_content (dv_mtu D) (plain e)), qo_offset := 0, qo_locked := False\<rparr>)\<rparr>"
  shows "core_inv C ios D' reader L A W offered plain"
proof -
  note head = encrypt_head [OF core recv]
  have same: "elem_key D' f = elem_key D f" "elem_nonce D' f = elem_nonce D f" for f
    by (simp_all add: D'_def elem_key_def elem_nonce_def)
  have other: "placed ios D' pl f = placed ios D pl f" "sealed_as C D' pl f = sealed_as C D pl f"
    "st_out D' f = st_out D f" if "f \<noteq> e" for f pl
    using that by (simp_all add: D'_def placed_def sealed_as_def elem_key_def elem_nonce_def)
  have sealed: "sealed_as C D' (plain e) e"
    using k by (simp add: sealed_as_def same) (simp add: D'_def)
  have "elem_life C D' plain L f" if "elem_life C D plain L f" for f
    using that sealed head(6) by (cases "f = e") (auto simp: elem_life_def other head(1), auto simp: D'_def head(1))
  then have "life_ok C D' plain L A" using core by (simp add: core_inv_def life_ok_def)
  moreover have "encrypting_ok ios D' plain W offered"
  proof -
    have ne: "f \<noteq> e" if "f \<in> set (chan_buf q)" for f using that head(5) by auto
    then have "enc_inv (q, st_out D')"
      using head(7) other(3) by (simp add: enc_inv_def seq_inv_def items_of_def)
    moreover have "dv_encryption D' = q" by (simp add: D'_def)
    ultimately show ?thesis using ne head(3) by (auto simp: encrypting_ok_def same other)
  qed
  moreover have "offered_ok D' reader A W offered"
    using core head(3) [of e] by (auto simp: core_inv_def offered_ok_def D'_def)
  moreover have "waiting_ok ios D' plain W"
  proof -
    have "f \<noteq> e" if "f \<in> set W" for f using head(3) [of e] that by auto
    with core show ?thesis by (simp add: core_inv_def waiting_ok_def other)
  qed
  moreover have "assigned_ok D' A"
    using core by (simp add: core_inv_def assigned_ok_def same) (simp add: D'_def)
  ultimately show ?thesis by (simp add: core_inv_def)
qed

lemma core_encrypt:
  assumes core: "core_inv C ios D reader L A W offered plain"
    and run: "RoutineEncryption C D = Some D'"
  shows "core_inv C ios D' reader L A W offered plain \<and> st_peer D' = st_peer D \<and>
    st_nextKeyPair D' = st_nextKeyPair D \<and> (\<forall>f \<in> set L. qo_packet (st_out D' f) = qo_packet (st_out D f))"
proof -
  obtain e q where recv: "chan_recv (dv_encryption D) = Some (e, q)"
    using run by (auto simp: RoutineEncryption_def split: option.splits)
  note head = encrypt_head [OF core recv]
  show ?thesis
  proof (cases "qo_dropped (st_out D e)")
    case True
    with run recv have "D' = D\<lparr>dv_encryption := q\<rparr>" by (simp add: RoutineEncryption_def qo_IsDropped_def)
    with core_skip [OF core recv True] show ?thesis by simp
  next
    case False
    then obtain k where k: "elem_key D e = Some k" using head(3) [of e] by auto
    have D': "D' = D\<lparr>dv_encryption := q, st_out := (st_out D)(e := (st_out D e)\<lparr>qo_packet := transport_packet C
        (st_keyPair D k) (elem_nonce D e) (pad_content (dv_mtu D) (plain e)), qo_offset := 0, qo_locked := False\<rparr>)\<rparr>"
      using run recv False k head(3) [of e] head(4)
      by (auto simp: RoutineEncryption_def qo_IsDropped_def elem_key_def elem_nonce_def placed_def Let_def
          upd_out_def qo_Unlock_def transport_packet_def split: if_splits)
    with core_seal [OF core recv k] head(6) show ?thesis by auto
  qed
qed

lemma lock_view:
  fixes D e
  defines "D' \<equiv> upd_out D e (\<lambda>q. q\<lparr>qo_locked := True\<rparr>)"
  shows "elem_key D' f = elem_key D f" "elem_nonce D' f = elem_nonce D f"
    "placed ios D' pl f = placed ios D pl f" "sealed_as C D' pl f = sealed_as C D pl f"
    "qo_locked (st_out D' f) = (f = e \<or> qo_locked (st_out D f))" "qo_dropped (st_out D' f) = qo_dropped (st_out D f)"
    "dv_encryption D' = dv_encryption D" "st_keyPair D' = st_keyPair D"
    "st_nextElem D' = st_nextElem D" "st_nextKeyPair D' = st_nextKeyPair D"
  by (simp_all add: D'_def upd_out_def elem_key_def elem_nonce_def placed_def sealed_as_def)

lemma core_lock_rest:
  assumes core: "core_inv C ios D reader L A W offered plain"
    and e: "\<not> qo_locked (st_out D e)" "e \<in> set offered" "e \<notin> set W"
  defines "D' \<equiv> upd_out D e (\<lambda>q. q\<lparr>qo_locked := True\<rparr>)"
  shows "offered_ok D' reader A W offered" "waiting_ok ios D' plain W"
    "encrypting_ok ios D' plain W offered" "assigned_ok D' A"
proof -
  note c = core [unfolded core_inv_def]
  show "offered_ok D' reader A W offered"
    using c e(2) by (auto simp: offered_ok_def D'_def lock_view)
  show "waiting_ok ios D' plain W"
  proof -
    have "f \<noteq> e" if "f \<in> set W" for f using e(3) that by auto
    with c show ?thesis by (simp add: waiting_ok_def D'_def lock_view)
  qed
  show "encrypting_ok ios D' plain W offered"
    using c by (simp add: encrypting_ok_def D'_def lock_view enc_inv_def seq_inv_def items_of_def)
  show "assigned_ok D' A"
    using c by (simp add: assigned_ok_def D'_def lock_view)
qed

lemma core_lock_lost:
  assumes core: "core_inv C ios D reader L (L @ e # R) W offered plain" and free: "\<not> qo_locked (st_out D e)"
  shows "core_inv C ios (upd_out D e (\<lambda>q. q\<lparr>qo_locked := True\<rparr>)) reader L (L @ R) W offered plain"
proof -
  have dist: "distinct ((L @ e # R) @ W)" by (rule core_distinct [OF core])
  have less: "core_inv C ios D reader L (L @ R) W offered plain"
    by (rule core_less [OF core]) (auto simp: subseq_append' intro: list_emb_Cons)
  have "elem_life C (upd_out D e (\<lambda>q. q\<lparr>qo_locked := True\<rparr>)) plain L f" if f: "f \<in> set (L @ R)" for f
  proof -
    have "f \<noteq> e" using dist f by auto
    moreover have "elem_life C D plain L f" using less f by (simp add: core_inv_def life_ok_def)
    ultimately show ?thesis by (simp add: elem_life_def lock_view)
  qed
  then have "life_ok C (upd_out D e (\<lambda>q. q\<lparr>qo_locked := True\<rparr>)) plain L (L @ R)" by (simp add: life_ok_def)
  with core_lock_rest [OF less free] dist core_members [OF core, of e] show ?thesis
    by (simp add: core_inv_def)
qed

lemma core_lock_sent:
  assumes core: "core_inv C ios D reader L (L @ e # R) W offered plain"
    and free: "\<not> qo_locked (st_out D e)" "\<not> qo_dropped (st_out D e)"
  shows "core_inv C ios (upd_out D e (\<lambda>q. q\<lparr>qo_locked := True\<rparr>)) reader (L @ [e]) (L @ e # R) W offered plain"
proof -
  have dist: "distinct ((L @ e # R) @ W)" by (rule core_distinct [OF core])
  have e: "e \<notin> set (chan_buf (dv_encryption D))"
    using core free by (auto simp: core_inv_def encrypting_ok_def enc_inv_def items_of_def)
  have sealed: "sealed_as C D (plain e) e"
    using core_live [OF core, of e] free dist by auto
  have "elem_life C (upd_out D e (\<lambda>q. q\<lparr>qo_locked := True\<rparr>)) plain (L @ [e]) f" if "f \<in> set (L @ e # R)" for f
  proof -
    have "elem_life C D plain L f" using core that by (auto simp: core_inv_def life_ok_def)
    then show ?thesis
      using sealed e by (cases "f = e") (simp_all add: elem_life_def lock_view)
  qed
  then have "life_ok C (upd_out D e (\<lambda>q. q\<lparr>qo_locked := True\<rparr>)) plain (L @ [e]) (L @ e # R)"
    by (auto simp: life_ok_def)
  with core_lock_rest [OF core free(1)] dist core_members [OF core, of e] show ?thesis
    by (simp add: core_inv_def)
qed

text \<open>What the sender does after the lock leaves the pipeline alone.\<close>

lemma others_refl [simp]: "others p D D"
  by (simp add: others_def)

lemma others_trans: "others p D1 D2 \<Longrightarrow> others p D2 D3 \<Longrightarrow> others p D1 D3"
  by (simp add: others_def)

lemma others_upd [simp]:
  "others p D (upd_signal D q f)" "others p D (upd_timer D q g)"
  "others p D (D\<lparr>dv_conn := c\<rparr>)" "others p D (D\<lparr>st_pool := b\<rparr>)" "others p D (D\<lparr>st_sent := w\<rparr>)"
  "others p D (begin_handshake D q)" "others p D (D\<lparr>dv_newUDPConn := u\<rparr>)"
  "others p D (upd_peer D q (\<lambda>r. r\<lparr>p_endpoint := a\<rparr>))"
  by (simp_all add: others_def begin_handshake_def upd_signal_def upd_timer_def upd_peer_def keys_made_def held_def keyPairs_of_def)

lemma others_begin: "others p D D' \<Longrightarrow> others p D (begin_handshake D' q)"
  using others_trans others_upd(6) by blast

lemma others_timers:
  "TimerAnyAuthenticatedPacketTraversal D q now = Some D' \<Longrightarrow> others p D D'"
  "TimerDataSent D q now = Some D' \<Longrightarrow> others p D D'"
  "others p D (KeepKeyFreshSending D q now)"
  by (auto simp: TimerAnyAuthenticatedPacketTraversal_def TimerDataSent_def KeepKeyFreshSending_def Let_def
      intro: others_begin split: if_splits option.splits)

lemma sent_timers:
  "TimerAnyAuthenticatedPacketTraversal D q now = Some D' \<Longrightarrow> st_sent D' = st_sent D"
  "TimerDataSent D q now = Some D' \<Longrightarrow> st_sent D' = st_sent D"
  "st_sent (KeepKeyFreshSending D q now) = st_sent D"
  by (auto simp: TimerAnyAuthenticatedPacketTraversal_def TimerDataSent_def KeepKeyFreshSending_def Let_def
      upd_timer_def upd_peer_def begin_handshake_def upd_signal_def split: if_splits option.splits)

lemma changeNetwork_keeps:
  assumes "changeNetwork C N D endpoint now = Some D'"
  shows "others p D D' \<and> st_sent D' = st_sent D"
proof -
  have eq: "split_equals (''endpoint='' @ endpoint) = Some (''endpoint'', endpoint)" by simp
  have line: "uapi_line C N D None (''endpoint='' @ endpoint) now = set_endpoint N D None endpoint"
    by (simp add: uapi_line_def del: append_Cons)
  have "\<exists>r. set_endpoint N D None endpoint = Some (D', r)"
    using assms unfolding changeNetwork_def SetOperation_def uapi_lines.simps line
    by (auto split: option.splits sum.splits)
  then show ?thesis
    by (auto simp: set_endpoint_def createUDPConn_def Let_def split: option.splits if_splits)
      (auto simp: others_def upd_peer_def keys_made_def held_def keyPairs_of_def)
qed

section \<open>Every step keeps the invariant\<close>

lemma core_upd_peer:
  assumes "core_inv C ios D reader L A W offered plain"
  shows "core_inv C ios (upd_peer D p f) reader L A W offered plain"
  by (rule core_same_view [OF assms]) (simp_all add: upd_peer_def)

lemma core_no_reader:
  "core_inv C ios D reader L A W offered plain \<Longrightarrow> core_inv C ios D None L A W offered plain"
  by (simp add: core_inv_def offered_ok_def)

lemma core_push_drop:
  assumes "core_inv C ios D reader L A W offered plain"
    "length (chan_buf q) = chan_cap q \<Longrightarrow> hd (chan_buf q) \<notin> set A"
  shows "core_inv C ios (D\<lparr>st_out := push_drop q (st_out D)\<rparr>) reader L A W offered plain"
  using assms core_Drop [OF assms(1)] by (cases "length (chan_buf q) = chan_cap q") (simp_all add: push_drop_def)

lemma push_drop_packet [simp]: "qo_packet (push_drop q st e) = qo_packet (st e)"
  "qo_offset (push_drop q st e) = qo_offset (st e)" "qo_locked (push_drop q st e) = qo_locked (st e)"
  by (simp_all add: push_drop_def qo_Drop_def)

lemma new_element:
  assumes "NewOutboundElement D = (D', e)"
  shows "e = st_nextElem D" "\<exists>q. st_out D' = (st_out D)(e := q) \<and> \<not> qo_locked q \<and> qo_packet q = []"
    "st_peer D' = st_peer D" "dv_encryption D' = dv_encryption D" "dv_mtu D' = dv_mtu D"
    "st_nextElem D' = Suc (st_nextElem D)" "st_nextKeyPair D' = st_nextKeyPair D"
    "st_keyPair D' = st_keyPair D" "keyPairs_of D' p = keyPairs_of D p"
  using assms by (auto simp: NewOutboundElement_def GetMessageBuffer_def Let_def keys_made_def held_def keyPairs_of_def
      split: list.splits)

lemma core_new:
  assumes core: "core_inv C ios D reader L A W offered plain" and new: "NewOutboundElement D = (D', e)"
    and reader: "reader' = reader \<or> reader' = Some e"
  shows "core_inv C ios D' reader' L A W offered plain" "e \<notin> set offered" "reader \<noteq> Some e"
    "\<And>f. f \<in> set offered \<Longrightarrow> st_out D' f = st_out D f"
proof -
  show e: "e \<notin> set offered" "reader \<noteq> Some e"
    using core new_element(1) [OF new] by (auto simp: core_inv_def offered_ok_def)
  obtain q where q: "st_out D' = (st_out D)(e := q)" "\<not> qo_locked q" using new_element(2) [OF new] by blast
  show "core_inv C ios D' reader' L A W offered plain"
    by (rule core_outside [OF core q(1) e(1) q(2)])
      (use reader new_element [OF new] in auto)
  show "st_out D' f = st_out D f" if "f \<in> set offered" for f using that e q(1) by auto
qed

lemma start_inv:
  assumes "out_start p D"
  shows "out_inv C ios p (out_init p D)"
proof -
  let ?W = "chan_buf (p_nonce (st_peer D p))"
  obtain D' e where new: "NewOutboundElement D = (D', e)" by fastforce
  have "core_inv C ios D None [] [] ?W ?W (\<lambda>_. [])"
    using assms by (auto simp: core_defs elem_life_def out_start_def enc_inv_def seq_inv_def items_of_def
        chan_ok_def placed_def)
  from core_new(1) [OF this new, of "Some e"] show ?thesis
    using assms new_element [OF new]
    by (simp add: out_inv_def out_init_def new assigned_def waiting_def held_elements_def out_start_def
        seq_inv_def chan_ok_def keys_made_def held_def)
qed

lemma others_inv:
  assumes "out_inv C ios p s" "others p (os_dev s) D"
  shows "out_inv C ios p (s\<lparr>os_dev := D\<rparr>)"
proof -
  have same: "assigned p (s\<lparr>os_dev := D\<rparr>) = assigned p s" "waiting p (s\<lparr>os_dev := D\<rparr>) = waiting p s"
    using assms(2) by (simp_all add: assigned_def waiting_def others_def)
  show ?thesis
    using assms core_others [of C ios "os_dev s" _ _ _ _ _ _ p D]
    by (simp add: out_inv_def same) (simp add: others_def)
qed

lemma encrypt_inv:
  assumes "out_inv C ios p s" "RoutineEncryption C (os_dev s) = Some D"
  shows "out_inv C ios p (s\<lparr>os_dev := D\<rparr>)"
proof -
  have core: "core_inv C ios (os_dev s) (os_reader s) (os_log s) (assigned p s) (waiting p s) (os_offered s) (os_plain s)"
    using assms(1) by (simp add: out_inv_def keys_made_def held_def)
  note kept = core_encrypt [OF core assms(2)]
  then have same: "assigned p (s\<lparr>os_dev := D\<rparr>) = assigned p s" "waiting p (s\<lparr>os_dev := D\<rparr>) = waiting p s"
    "keyPairs_of D p = keyPairs_of (os_dev s) p"
    by (simp_all add: assigned_def waiting_def keys_made_def held_def keyPairs_of_def)
  show ?thesis using assms(1) kept by (simp add: out_inv_def same keys_made_def held_def)
qed

lemma log_assigned: "set (os_log s) \<subseteq> set (assigned p s)"
  by (auto simp: assigned_def)

lemma usable_key_Some:
  "usable_key D p now = Some k \<Longrightarrow> Current D p = Some k \<and> kp_sendNonce (st_keyPair D k) < RejectAfterMessages"
  by (auto simp: usable_key_def split: option.splits if_splits)

lemma chan_recv_Some:
  "chan_recv q = Some (e, q') \<longleftrightarrow> chan_buf q = e # chan_buf q' \<and> q' = q\<lparr>chan_buf := chan_buf q'\<rparr>"
  by (auto simp: chan_recv_def split: list.splits)

lemma seq_inv_recv: "seq_inv (q, h) \<Longrightarrow> chan_recv q = Some (e, q') \<Longrightarrow> seq_inv (q', h')"
  by (auto simp: chan_recv_def seq_inv_def chan_ok_def split: list.splits)

lemma enqueue_outbound_inv:
  assumes core: "core_inv C ios D reader L (L @ H @ chan_buf (p_outbound (st_peer D p)) @ [e]) W offered plain"
    and seq: "seq_inv (p_outbound (st_peer D p), ())" and run: "enqueue_outbound D p e = Some D'"
  shows "core_inv C ios D' reader L (L @ H @ chan_buf (p_outbound (st_peer D' p))) W offered plain"
    "seq_inv (p_outbound (st_peer D' p), ())" "p_nonce (st_peer D' p) = p_nonce (st_peer D p)"
    "keyPairs_of D' p = keyPairs_of D p" "st_nextKeyPair D' = st_nextKeyPair D"
    "qo_packet (st_out D' f) = qo_packet (st_out D f)"
proof -
  let ?q = "p_outbound (st_peer D p)"
  have D': "D' = (upd_peer D p (\<lambda>r. r\<lparr>p_outbound := pushed ?q e\<rparr>))\<lparr>st_out := push_drop ?q (st_out D)\<rparr>"
    using run addToOutboundQueue_eq(1) [OF seq, of e "st_out D"] by (simp add: enqueue_outbound_def)
  have out: "p_outbound (st_peer D' p) = pushed ?q e" by (simp add: D' upd_peer_def)
  show "seq_inv (p_outbound (st_peer D' p), ())" using addToOutboundQueue_eq(2) [OF seq] by (simp add: out)
  show "p_nonce (st_peer D' p) = p_nonce (st_peer D p)" "keyPairs_of D' p = keyPairs_of D p"
    "st_nextKeyPair D' = st_nextKeyPair D" "qo_packet (st_out D' f) = qo_packet (st_out D f)"
    by (simp_all add: D' upd_peer_def keys_made_def held_def keyPairs_of_def)
  have sub: "subseq (L @ H @ chan_buf (pushed ?q e)) (L @ H @ chan_buf ?q @ [e])"
    by (simp add: subseq_append' pushed_subseq [OF seq])
  have less: "core_inv C ios D reader L (L @ H @ chan_buf (pushed ?q e)) W offered plain"
    by (rule core_less [OF core sub]) auto
  have "distinct ((L @ H) @ chan_buf ?q @ e # W)"
    using core_distinct [OF core] by simp
  from pushed_lost [OF seq this] have "length (chan_buf ?q) = chan_cap ?q \<Longrightarrow>
      hd (chan_buf ?q) \<notin> set (L @ H @ chan_buf (pushed ?q e))" by simp
  from core_push_drop [OF less this]
  have "core_inv C ios (D\<lparr>st_out := push_drop ?q (st_out D)\<rparr>) reader L
      (L @ H @ chan_buf (pushed ?q e)) W offered plain" by simp
  from core_upd_peer [OF this, of p "\<lambda>r. r\<lparr>p_outbound := pushed ?q e\<rparr>"]
  show "core_inv C ios D' reader L (L @ H @ chan_buf (p_outbound (st_peer D' p))) W offered plain"
    by (simp add: out) (cases D, simp add: D' upd_peer_def)
qed

lemma out_inv_core:
  "out_inv C ios p s \<Longrightarrow>
    core_inv C ios (os_dev s) (os_reader s) (os_log s) (assigned p s) (waiting p s) (os_offered s) (os_plain s)"
  by (simp add: out_inv_def)

lemma nonce_quiet:
  assumes inv: "out_inv C ios p s" and others: "others p (os_dev s) D"
    and same: "assigned p (s\<lparr>os_dev := D, os_nonce := pc\<rparr>) = assigned p s"
      "subseq (waiting p (s\<lparr>os_dev := D, os_nonce := pc\<rparr>)) (waiting p s)"
  shows "out_inv C ios p (s\<lparr>os_dev := D, os_nonce := pc\<rparr>)"
proof -
  let ?s = "s\<lparr>os_dev := D, os_nonce := pc\<rparr>"
  have "core_inv C ios D (os_reader s) (os_log s) (assigned p s) (waiting p ?s) (os_offered s) (os_plain s)"
    by (rule core_others [OF core_less [OF out_inv_core [OF inv] subseq_order.refl same(2)] others]) (rule log_assigned)
  then show ?thesis using inv others same(1) by (simp add: out_inv_def) (simp add: others_def)
qed

lemma nonce_inv_next:
  assumes inv: "out_inv C ios p s" and pc: "os_nonce s = Next_packet"
    and run: "RoutineNonce (os_dev s) p Next_packet ev = Some (D, pc')"
  shows "out_inv C ios p (s\<lparr>os_dev := D, os_nonce := pc'\<rparr>)"
proof (cases ev)
  case (Proceed now)
  let ?D = "os_dev s" and ?s = "s\<lparr>os_dev := D, os_nonce := pc'\<rparr>"
  obtain e q where q: "chan_recv (p_nonce (st_peer ?D p)) = Some (e, q)"
    "D = upd_peer ?D p (\<lambda>r. r\<lparr>p_nonce := q\<rparr>)" "pc' = Have_packet e"
    using run Proceed by (auto split: option.splits)
  have same: "assigned p ?s = assigned p s" "waiting p ?s = waiting p s" "keyPairs_of D p = keyPairs_of ?D p"
    "p_outbound (st_peer D p) = p_outbound (st_peer ?D p)" "p_nonce (st_peer D p) = q"
    "st_nextKeyPair D = st_nextKeyPair ?D" "st_out D = st_out ?D"
    using q(1) by (simp_all add: assigned_def waiting_def pc q(2,3) upd_peer_def chan_recv_Some keyPairs_of_def)
  show ?thesis
    using inv core_upd_peer [OF out_inv_core [OF inv], of p "\<lambda>r. r\<lparr>p_nonce := q\<rparr>"] seq_inv_recv [OF _ q(1), of "()" "()"]
    by (simp add: out_inv_def same keys_made_def held_def) (simp add: q(2))
next
  case Got_stop
  then have "D = os_dev s" "pc' = Nonce_stopped" using run by (simp_all split: if_splits)
  then show ?thesis by (intro nonce_quiet [OF inv]) (simp_all add: assigned_def waiting_def pc)
qed (use run in simp_all)

lemma nonce_inv_have:
  assumes inv: "out_inv C ios p s" and pc: "os_nonce s = Have_packet e"
    and run: "RoutineNonce (os_dev s) p (Have_packet e) ev = Some (D, pc')"
  shows "out_inv C ios p (s\<lparr>os_dev := D, os_nonce := pc'\<rparr>)"
proof -
  let ?D = "os_dev s" and ?s = "s\<lparr>os_dev := D, os_nonce := pc'\<rparr>"
  let ?A = "os_log s @ held_elements (os_sender s) @ chan_buf (p_outbound (st_peer ?D p))"
  obtain now where ev: "ev = Proceed now" using run by (cases ev) simp_all
  show ?thesis
  proof (cases "usable_key ?D p now")
    case None
    then have D: "D = begin_handshake ?D p" "pc' = Await_key e" using run ev by simp_all
    show ?thesis unfolding D
      by (rule nonce_quiet [OF inv others_upd(6)])
        (simp_all add: assigned_def waiting_def pc begin_handshake_def upd_signal_def upd_peer_def)
  next
    case (Some k)
    then have assign: "assign_nonce ?D p k e = Some D" "pc' = Enqueue e" using run ev by auto
    note key = usable_key_Some [OF Some]
    have W: "waiting p s = e # chan_buf (p_nonce (st_peer ?D p))" "assigned p s = ?A"
      by (simp_all add: waiting_def assigned_def pc)
    have "k < st_nextKeyPair ?D" using inv key by (simp add: out_inv_def keys_made_def held_def Current_def)
    from core_assign [OF out_inv_core [OF inv, unfolded W] this conjunct2 [OF key], of p] assign
    have new: "core_inv C ios D (os_reader s) (os_log s) (?A @ [e]) (chan_buf (p_nonce (st_peer ?D p)))
        (os_offered s) (os_plain s)" "st_peer D = st_peer ?D" "st_nextKeyPair D = st_nextKeyPair ?D"
      "\<forall>f \<in> set (os_log s). qo_packet (st_out D f) = qo_packet (st_out ?D f)" by auto
    have "assigned p ?s = ?A @ [e]" "waiting p ?s = chan_buf (p_nonce (st_peer ?D p))"
      by (simp_all add: assigned_def waiting_def assign(2) new(2))
    with new inv show ?thesis by (simp add: out_inv_def keys_made_def held_def keyPairs_of_def)
  qed
qed

lemma nonce_inv_await:
  assumes inv: "out_inv C ios p s" and pc: "os_nonce s = Await_key e"
    and run: "RoutineNonce (os_dev s) p (Await_key e) ev = Some (D, pc')"
  shows "out_inv C ios p (s\<lparr>os_dev := D, os_nonce := pc'\<rparr>)"
proof (cases ev)
  case Got_newKeyPair
  then obtain c where D: "D = upd_signal (os_dev s) p (\<lambda>g. g\<lparr>sg_newKeyPair := c\<rparr>)" "pc' = Have_packet e"
    using run by (auto split: option.splits)
  show ?thesis unfolding D
    by (rule nonce_quiet [OF inv others_upd(1)]) (simp_all add: assigned_def waiting_def pc upd_signal_def upd_peer_def)
next
  case Got_flushNonceQueue
  let ?D = "os_dev s" and ?s = "s\<lparr>os_dev := D, os_nonce := pc'\<rparr>"
  obtain c where D: "D = upd_peer (upd_signal ?D p (\<lambda>g. g\<lparr>sg_flushNonceQueue := c\<rparr>)) p
      (\<lambda>r. r\<lparr>p_nonce := FlushNonceQueue (p_nonce r)\<rparr>)" "pc' = Next_packet"
    using run Got_flushNonceQueue by (auto simp: Let_def split: option.splits)
  let ?D1 = "upd_signal ?D p (\<lambda>g. g\<lparr>sg_flushNonceQueue := c\<rparr>)"
  note flushed = FlushNonceQueue_empties [of "p_nonce (st_peer ?D p)"]
  have same: "assigned p ?s = assigned p s" "waiting p ?s = []" "keyPairs_of D p = keyPairs_of ?D p"
    "p_outbound (st_peer D p) = p_outbound (st_peer ?D p)" "st_out D = st_out ?D"
    "p_nonce (st_peer D p) = FlushNonceQueue (p_nonce (st_peer ?D p))" "st_nextKeyPair D = st_nextKeyPair ?D"
    using flushed by (simp_all add: assigned_def waiting_def pc D upd_peer_def upd_signal_def keyPairs_of_def)
  have "core_inv C ios ?D1 (os_reader s) (os_log s) (assigned p s) [] (os_offered s) (os_plain s)"
    by (rule core_others [OF core_less [OF out_inv_core [OF inv] subseq_order.refl list_emb_Nil]])
      (simp_all add: log_assigned)
  from core_upd_peer [OF this, of p "\<lambda>r. r\<lparr>p_nonce := FlushNonceQueue (p_nonce r)\<rparr>"]
  have "core_inv C ios D (os_reader s) (os_log s) (assigned p s) [] (os_offered s) (os_plain s)"
    by (simp add: D)
  then show ?thesis
    using inv flushed by (simp add: out_inv_def same keys_made_def held_def seq_inv_def chan_ok_def)
next
  case Got_stop
  then have "D = os_dev s" "pc' = Nonce_stopped" using run by (simp_all split: if_splits)
  then show ?thesis by (intro nonce_quiet [OF inv]) (auto simp: assigned_def waiting_def pc intro: list_emb_Cons)
qed (use run in simp_all)

lemma nonce_inv_enqueue:
  assumes inv: "out_inv C ios p s" and pc: "os_nonce s = Enqueue e"
    and run: "RoutineNonce (os_dev s) p (Enqueue e) ev = Some (D, pc')"
  shows "out_inv C ios p (s\<lparr>os_dev := D, os_nonce := pc'\<rparr>)"
proof -
  let ?D = "os_dev s" and ?s = "s\<lparr>os_dev := D, os_nonce := pc'\<rparr>"
  obtain now where "ev = Proceed now" using run by (cases ev) simp_all
  then have run': "enqueue_outbound ?D p e = Some D" "pc' = Next_packet" using run by auto
  have A: "assigned p s = os_log s @ held_elements (os_sender s) @ chan_buf (p_outbound (st_peer ?D p)) @ [e]"
    by (simp add: assigned_def pc)
  have "seq_inv (p_outbound (st_peer ?D p), ())" using inv by (simp add: out_inv_def)
  note new = enqueue_outbound_inv [OF out_inv_core [OF inv, unfolded A] this run'(1)]
  have "assigned p ?s = os_log s @ held_elements (os_sender s) @ chan_buf (p_outbound (st_peer D p))"
    "waiting p ?s = waiting p s"
    by (simp_all add: assigned_def waiting_def pc run'(2) new(3))
  with new inv show ?thesis by (simp add: out_inv_def keys_made_def held_def)
qed

lemma nonce_inv:
  assumes "out_inv C ios p s" "RoutineNonce (os_dev s) p (os_nonce s) ev = Some (D, pc)"
  shows "out_inv C ios p (s\<lparr>os_dev := D, os_nonce := pc\<rparr>)"
  using assms nonce_inv_next nonce_inv_have nonce_inv_await nonce_inv_enqueue
  by (cases "os_nonce s") (metis, metis, metis, metis, simp)

text \<open>The sender: an element given up or refused is lost, one that is sent is recorded.\<close>

lemma send_element_effect:
  assumes "send_element C N endpoint D p e ok now = Some D'"
  shows "others p D D'" "st_sent D' = st_sent D \<or> (\<exists>addr. st_sent D' = st_sent D @ [(addr, qo_packet (st_out D e))])"
proof -
  obtain D1 err where buf: "SendBuffer D p (qo_packet (st_out D e)) ok = (D1, err)" by fastforce
  let ?D2 = "device_PutMessageBuffer D1 (qo_buffer (st_out D1 e))"
  have 1: "others p D D1" "st_sent D1 = st_sent D \<or> (\<exists>addr. st_sent D1 = st_sent D @ [(addr, qo_packet (st_out D e))])"
    using buf by (auto simp: SendBuffer_def split: option.splits if_splits)
  then have 2: "others p D ?D2" "st_sent ?D2 = st_sent D1"
    using others_trans [OF 1(1) others_upd(4)] by (simp_all add: device_PutMessageBuffer_def)
  have rest: "others p ?D2 D' \<and> st_sent D' = st_sent ?D2"
  proof (cases err)
    case True
    with assms buf show ?thesis by (simp add: send_element_def) (rule changeNetwork_keeps)
  next
    case False
    with assms buf obtain D3 D4 where
      "TimerAnyAuthenticatedPacketTraversal ?D2 p now = Some D3"
      "(if length (qo_packet (st_out D e)) \<noteq> MessageKeepaliveSize then TimerDataSent D3 p now else Some D3) = Some D4"
      "D' = KeepKeyFreshSending D4 p now"
      by (auto simp: send_element_def split: Option.bind_splits)
    then show ?thesis
      using others_timers sent_timers others_trans by (auto split: if_splits) metis+
  qed
  show "others p D D'" using others_trans [OF 2(1)] rest by simp
  show "st_sent D' = st_sent D \<or> (\<exists>addr. st_sent D' = st_sent D @ [(addr, qo_packet (st_out D e))])"
    using 1(2) 2(2) rest by simp
qed

lemma upd_lock_fields [simp]:
  fixes D e
  defines "D' \<equiv> upd_out D e (\<lambda>q. q\<lparr>qo_locked := True\<rparr>)"
  shows "st_peer D' = st_peer D" "st_sent D' = st_sent D" "keyPairs_of D' p = keyPairs_of D p"
    "st_nextKeyPair D' = st_nextKeyPair D" "qo_packet (st_out D' f) = qo_packet (st_out D f)"
  by (simp_all add: D'_def upd_out_def keys_made_def held_def keyPairs_of_def)

lemma send_inv_next:
  assumes inv: "out_inv C ios p s" and pc: "os_sender s = Next_outbound"
    and step: "out_step C N endpoint ios p (Send_step ok now) s = Some s'"
  shows "out_inv C ios p s'"
proof -
  let ?D = "os_dev s"
  obtain e q where q: "chan_recv (p_outbound (st_peer ?D p)) = Some (e, q)"
    and s': "s' = s\<lparr>os_dev := upd_peer ?D p (\<lambda>r. r\<lparr>p_outbound := q\<rparr>), os_sender := Lock_element e\<rparr>"
    using step pc by (auto simp: upd_peer_def split: option.splits)
  have same: "assigned p s' = assigned p s" "waiting p s' = waiting p s" "keyPairs_of (os_dev s') p = keyPairs_of ?D p"
    using q by (simp_all add: s' assigned_def waiting_def held_elements_def pc upd_peer_def chan_recv_Some keyPairs_of_def)
  show ?thesis
    using inv core_upd_peer [OF out_inv_core [OF inv], of p "\<lambda>r. r\<lparr>p_outbound := q\<rparr>"] seq_inv_recv [OF _ q, of "()" "()"]
    by (simp add: out_inv_def same keys_made_def held_def) (simp add: s' upd_peer_def)
qed

text \<open>
  The step on a locked element, once the device after it is known to hold the pipeline: the record
  of the system grows by the element exactly if its packet was sent.
\<close>

lemma send_inv_after:
  assumes inv: "out_inv C ios p s" and pc: "os_sender s = Lock_element e"
    and others: "others p (upd_out (os_dev s) e (\<lambda>q. q\<lparr>qo_locked := True\<rparr>)) D"
    and s': "s' = s\<lparr>os_dev := D, os_sender := Next_outbound, os_log := os_log s @ sent,
      os_wire := os_wire s @ map (\<lambda>f. qo_packet (st_out (os_dev s) f)) sent\<rparr>"
    and core: "core_inv C ios D (os_reader s) (os_log s @ sent) (os_log s @ sent @ chan_buf (p_outbound (st_peer (os_dev s) p)) @
      (case os_nonce s of Enqueue e \<Rightarrow> [e] | _ \<Rightarrow> [])) (waiting p s) (os_offered s) (os_plain s)"
  shows "out_inv C ios p s'"
proof -
  let ?D = "os_dev s" and ?D1 = "upd_out (os_dev s) e (\<lambda>q. q\<lparr>qo_locked := True\<rparr>)"
  have same: "p_nonce (st_peer D p) = p_nonce (st_peer ?D p)" "p_outbound (st_peer D p) = p_outbound (st_peer ?D p)"
    "qo_packet (st_out D f) = qo_packet (st_out ?D f)" for f
    using others by (simp_all add: others_def)
  have cur: "keys_made p D"
    using others inv keys_made_cong [of ?D1 p ?D] by (simp add: out_inv_def others_def)
  have "assigned p s' = os_log s @ sent @ chan_buf (p_outbound (st_peer ?D p)) @ (case os_nonce s of Enqueue e \<Rightarrow> [e] | _ \<Rightarrow> [])"
    "waiting p s' = waiting p s"
    by (simp_all add: s' assigned_def waiting_def held_elements_def same)
  with inv core cur show ?thesis by (simp add: out_inv_def keys_made_def held_def) (simp add: s' same)
qed

lemma send_inv_lock:
  assumes inv: "out_inv C ios p s" and pc: "os_sender s = Lock_element e"
    and step: "out_step C N endpoint ios p (Send_step ok now) s = Some s'"
  shows "out_inv C ios p s'"
proof -
  let ?D = "os_dev s" and ?D1 = "upd_out (os_dev s) e (\<lambda>q. q\<lparr>qo_locked := True\<rparr>)"
  have A: "assigned p s = os_log s @ e # chan_buf (p_outbound (st_peer ?D p)) @ (case os_nonce s of Enqueue e \<Rightarrow> [e] | _ \<Rightarrow> [])"
    by (simp add: assigned_def held_elements_def pc)
  note core = out_inv_core [OF inv, unfolded A]
  have free: "\<not> qo_locked (st_out ?D e)" using step pc by (auto split: if_splits)
  note lost = core_lock_lost [OF core free]
  show ?thesis
  proof (cases "qo_dropped (st_out ?D e)")
    case True
    then have "s' = s\<lparr>os_dev := ?D1, os_sender := Next_outbound\<rparr>"
      using step pc free by (simp add: qo_IsDropped_def upd_out_def)
    then show ?thesis
      using send_inv_after [OF inv pc, of ?D1 s' "[]"] lost by simp
  next
    case False
    then obtain D where send: "send_element C N endpoint ?D1 p e ok now = Some D"
      and s': "s' = s\<lparr>os_dev := D, os_sender := Next_outbound,
        os_log := if drop (length (st_sent ?D)) (st_sent D) \<noteq> [] then os_log s @ [e] else os_log s,
        os_wire := os_wire s @ map snd (drop (length (st_sent ?D)) (st_sent D))\<rparr>"
      using step pc free by (auto simp: qo_IsDropped_def upd_out_def split: option.splits)
    note eff = send_element_effect [OF send]
    from eff(2) consider (none) "st_sent D = st_sent ?D"
      | (one) addr where "st_sent D = st_sent ?D @ [(addr, qo_packet (st_out ?D e))]" by auto
    then show ?thesis
    proof cases
      case none
      then show ?thesis using send_inv_after [OF inv pc eff(1), of s' "[]"] core_others [OF lost eff(1)] s' by simp
    next
      case one
      then show ?thesis
        using send_inv_after [OF inv pc eff(1), of s' "[e]"] core_others [OF core_lock_sent [OF core free False] eff(1)] s'
        by simp
    qed
  qed
qed

lemma send_inv:
  assumes "out_inv C ios p s" "out_step C N endpoint ios p (Send_step ok now) s = Some s'"
  shows "out_inv C ios p s'"
  using assms send_inv_next send_inv_lock by (cases "os_sender s") blast+

text \<open>A new packet joins the nonce queue, which may lose its oldest one.\<close>

lemma offer_core:
  assumes core: "core_inv C ios D reader L A (H @ chan_buf q) offered plain"
    and q: "q = p_nonce (st_peer D p)" "seq_inv (q, ())"
    and x: "x \<notin> set offered" "x < st_nextElem D" "\<not> qo_locked (st_out D x)" "reader \<noteq> Some x"
      "placed ios D (qo_packet (st_out D x)) x"
  defines "D' \<equiv> (upd_peer D p (\<lambda>r. r\<lparr>p_nonce := pushed q x\<rparr>))\<lparr>st_out := push_drop q (st_out D)\<rparr>"
  shows "core_inv C ios D' reader L A (H @ chan_buf (p_nonce (st_peer D' p))) (offered @ [x])
    (plain(x := qo_packet (st_out D x)))"
proof -
  let ?pl = "plain(x := qo_packet (st_out D x))"
  have "core_inv C ios D reader L A ((H @ chan_buf q) @ [x]) (offered @ [x]) ?pl"
    by (rule core_offer [OF core x])
  then have off: "core_inv C ios D reader L A (H @ chan_buf q @ [x]) (offered @ [x]) ?pl" by simp
  have less: "core_inv C ios D reader L A (H @ chan_buf (pushed q x)) (offered @ [x]) ?pl"
  proof (rule core_less [OF off])
    show "subseq (H @ chan_buf (pushed q x)) (H @ chan_buf q @ [x])"
      by (simp add: subseq_append' pushed_subseq [OF q(2)])
  qed (use core in \<open>auto simp: core_inv_def life_ok_def\<close>)
  have "hd (chan_buf q) \<notin> set A" if full: "length (chan_buf q) = chan_cap q"
  proof -
    have "hd (chan_buf q) \<in> set (chan_buf q)"
      using q(2) full by (cases "chan_buf q") (simp_all add: seq_inv_def)
    then show ?thesis using core_distinct [OF core] by auto
  qed
  from core_upd_peer [OF core_push_drop [OF less this], of p "\<lambda>r. r\<lparr>p_nonce := pushed q x\<rparr>"]
  show ?thesis
    by (simp add: D'_def upd_peer_def q(1)) (cases D, simp)
qed

text \<open>The element the nonce routine is working on stands before the queue.\<close>

abbreviation in_hand :: "out_system \<Rightarrow> eid list" where
  "in_hand s \<equiv> (case os_nonce s of Have_packet e \<Rightarrow> [e] | Await_key e \<Rightarrow> [e] | _ \<Rightarrow> [])"

lemma log_offered:
  assumes "out_inv C ios p s" "f \<in> set (os_log s)"
  shows "f \<in> set (os_offered s)"
  using core_members [OF out_inv_core [OF assms(1)], of f] log_assigned [of s p] assms(2) by blast

lemma keepalive_queued:
  assumes inv: "out_inv C ios p s" and new: "NewOutboundElement (os_dev s) = (D1, x)"
    and empty: "chan_buf (p_nonce (st_peer (os_dev s) p)) = []" "0 < chan_cap (p_nonce (st_peer (os_dev s) p))"
  shows "out_inv C ios p (offer (s\<lparr>os_dev := upd_peer D1 p (\<lambda>r. r\<lparr>p_nonce := pushed (p_nonce (st_peer (os_dev s) p)) x\<rparr>)\<rparr>) x)"
proof -
  let ?D = "os_dev s" and ?q = "p_nonce (st_peer (os_dev s) p)"
  define D2 where "D2 = upd_peer D1 p (\<lambda>r. r\<lparr>p_nonce := pushed ?q x\<rparr>)"
  have core: "core_inv C ios ?D (os_reader s) (os_log s) (assigned p s) (in_hand s @ chan_buf ?q) (os_offered s) (os_plain s)"
    using out_inv_core [OF inv] by (simp add: waiting_def)
  have seq: "seq_inv (?q, ())" using inv by (simp add: out_inv_def)
  note D1 = new_element [OF new] and c1 = core_new [OF core new, of "os_reader s"]
  obtain q where q: "st_out D1 = (st_out ?D)(x := q)" "\<not> qo_locked q" "qo_packet q = []" using D1(2) by blast
  have "push_drop ?q (st_out D1) = st_out D1" using empty by (simp add: push_drop_def)
  then have D2: "D2 = (upd_peer D1 p (\<lambda>r. r\<lparr>p_nonce := pushed ?q x\<rparr>))\<lparr>st_out := push_drop ?q (st_out D1)\<rparr>"
    by (cases D1) (simp add: D2_def upd_peer_def)
  have "core_inv C ios D2 (os_reader s) (os_log s) (assigned p s)
      (in_hand s @ chan_buf (p_nonce (st_peer D2 p))) (os_offered s @ [x]) ((os_plain s)(x := qo_packet (st_out D1 x)))"
    unfolding D2
    by (rule offer_core [OF c1(1)]) (use D1 c1(2,3) seq q in \<open>simp_all add: placed_def\<close>)
  moreover have "p_outbound (st_peer D2 p) = p_outbound (st_peer ?D p)" "keyPairs_of D2 p = keyPairs_of ?D p"
    "st_out D2 = st_out D1" "st_nextKeyPair D2 = st_nextKeyPair ?D" "seq_inv (p_nonce (st_peer D2 p), ())"
    using D1(3,7) addToOutboundQueue_eq(2) [OF seq] by (simp_all add: D2_def upd_peer_def keyPairs_of_def)
  ultimately show ?thesis
    using inv c1(4) [OF disjI1 [OF refl] log_offered [OF inv]]
    by (simp add: out_inv_def keys_made_def held_def offer_def assigned_def waiting_def D2_def [symmetric])
qed

lemma keepalive_inv:
  assumes inv: "out_inv C ios p s" and step: "out_step C N endpoint ios p Queue_keepalive s = Some s'"
  shows "out_inv C ios p s'"
proof -
  let ?D = "os_dev s" and ?q = "p_nonce (st_peer (os_dev s) p)"
  have device: "p_hasDevice (st_peer ?D p)" using step by (auto simp: SendKeepAlive_def split: if_splits)
  obtain D1 x where new: "NewOutboundElement ?D = (D1, x)" by fastforce
  note D1 = new_element [OF new]
  note c1 = core_new [OF out_inv_core [OF inv] new, of "os_reader s"]
  show ?thesis
  proof (cases "chan_len ?q = 0")
    case False
    then have s': "s' = s\<lparr>os_dev := D1\<rparr>"
      using step device new D1(3) by (simp add: SendKeepAlive_def)
    have "assigned p s' = assigned p s" "waiting p s' = waiting p s"
      by (simp_all add: s' assigned_def waiting_def D1(3))
    with c1(1) inv D1(3,7,9) c1(4) [OF disjI1 [OF refl] log_offered [OF inv]] show ?thesis
      by (simp add: out_inv_def keys_made_def held_def) (simp add: s')
  next
    case True
    then have empty: "chan_buf ?q = []" "0 < chan_cap ?q" using inv by (simp_all add: out_inv_def chan_len_def seq_inv_def)
    then have push: "chan_send ?q x = Some (pushed ?q x)" "pushed ?q x \<noteq> ?q"
      by (simp_all add: chan_send_def pushed_def) (metis chan.select_convs(2) chan.surjective
          chan.update_convs(2) empty(1) not_Cons_self2)
    have "s' = offer (s\<lparr>os_dev := upd_peer D1 p (\<lambda>r. r\<lparr>p_nonce := pushed ?q x\<rparr>)\<rparr>) x"
      using step device new True push D1(1,3) by (simp add: SendKeepAlive_def) (simp add: upd_peer_def)
    with keepalive_queued [OF inv new empty] show ?thesis by simp
  qed
qed

lemma lookup_destination_upd [simp]:
  "lookup_destination (upd_out D e f) packet = lookup_destination D packet"
  by (simp add: lookup_destination_def upd_out_def)

lemma upd_out_fields [simp]:
  "st_peer (upd_out D e f) = st_peer D" "st_nextElem (upd_out D e f) = st_nextElem D"
  "st_nextKeyPair (upd_out D e f) = st_nextKeyPair D" "keyPairs_of (upd_out D e f) p = keyPairs_of D p"
  "dv_encryption (upd_out D e f) = dv_encryption D" "dv_mtu (upd_out D e f) = dv_mtu D"
  "st_keyPair (upd_out D e f) = st_keyPair D" "st_out (upd_out D e f) = (st_out D)(e := f (st_out D e))"
  by (simp_all add: upd_out_def keys_made_def held_def keyPairs_of_def)

lemma read_inv_kept:
  assumes inv: "out_inv C ios p s" and e: "os_reader s = Some e" and r: "r = None \<or> r = Some e"
    and D: "D = os_dev s \<or> D = upd_out (os_dev s) e (\<lambda>q. q\<lparr>qo_packet := packet, qo_offset := off\<rparr>)"
  shows "out_inv C ios p (s\<lparr>os_dev := D, os_reader := r\<rparr>)"
proof -
  let ?f = "\<lambda>q :: (pid, kid) QueueOutboundElement. q\<lparr>qo_packet := packet, qo_offset := off\<rparr>"
  note core = out_inv_core [OF inv]
  have new: "e \<notin> set (os_offered s)" "\<not> qo_locked (st_out (os_dev s) e)"
    using core e by (auto simp: core_inv_def offered_ok_def)
  have "core_inv C ios (upd_out (os_dev s) e ?f) (os_reader s) (os_log s) (assigned p s) (waiting p s) (os_offered s) (os_plain s)"
    by (rule core_outside [OF core, of _ e "?f (st_out (os_dev s) e)"]) (use new in simp_all)
  then have "core_inv C ios D r (os_log s) (assigned p s) (waiting p s) (os_offered s) (os_plain s)"
    using core core_no_reader D r e by auto
  moreover have "f \<noteq> e" if "f \<in> set (os_log s)" for f using log_offered [OF inv that] new(1) by auto
  ultimately show ?thesis
    using inv D by (auto simp: out_inv_def keys_made_def held_def assigned_def waiting_def)
qed

text \<open>A routed packet joins the queue and the reader takes a new element.\<close>

lemma read_inv_routed:
  fixes packet :: bytes
  assumes inv: "out_inv C ios p s" and e: "os_reader s = Some e"
  defines "D1 \<equiv> upd_out (os_dev s) e (\<lambda>q. q\<lparr>qo_packet := packet, qo_offset := MessageTransportHeaderSize + (if ios then 4 else 0)\<rparr>)"
  defines "D2 \<equiv> upd_signal D1 p (\<lambda>g. g\<lparr>sg_handshakeReset := signalSend (sg_handshakeReset g)\<rparr>)"
    and "q \<equiv> p_nonce (st_peer (os_dev s) p)"
  defines "D3 \<equiv> (upd_peer D2 p (\<lambda>r. r\<lparr>p_nonce := pushed q e\<rparr>))\<lparr>st_out := push_drop q (st_out D2)\<rparr>"
  assumes new: "NewOutboundElement D3 = (D, x)" and fits: "length packet \<le> MaxContentSize"
  shows "out_inv C ios p (offer (s\<lparr>os_dev := D, os_reader := Some x\<rparr>) e)" "x \<noteq> e"
proof -
  let ?D = "os_dev s"
  have fresh: "e \<notin> set (os_offered s)" "e < st_nextElem ?D" "\<not> qo_locked (st_out ?D e)"
    using out_inv_core [OF inv] e by (auto simp: core_inv_def offered_ok_def)
  have "core_inv C ios D1 (os_reader s) (os_log s) (assigned p s) (waiting p s) (os_offered s) (os_plain s)"
    by (rule core_outside [OF out_inv_core [OF inv], of _ e "st_out D1 e"]) (use fresh in \<open>simp_all add: D1_def\<close>)
  from core_no_reader [OF core_others [OF this others_upd(1)]]
  have core2: "core_inv C ios D2 None (os_log s) (assigned p s) (in_hand s @ chan_buf q) (os_offered s) (os_plain s)"
    by (simp add: waiting_def D2_def q_def)
  have same2: "p_nonce (st_peer D2 p) = q" "st_out D2 = st_out D1" "st_nextElem D2 = st_nextElem ?D"
    "p_outbound (st_peer D2 p) = p_outbound (st_peer ?D p)" "keyPairs_of D2 p = keyPairs_of ?D p"
    "st_nextKeyPair D2 = st_nextKeyPair ?D" "st_out D1 e = (st_out ?D e)\<lparr>qo_packet := packet,
      qo_offset := MessageTransportHeaderSize + (if ios then 4 else 0)\<rparr>" "f \<noteq> e \<Longrightarrow> st_out D1 f = st_out ?D f" for f
    by (simp_all add: D1_def D2_def q_def upd_signal_def upd_peer_def keyPairs_of_def)
  have seq: "seq_inv (q, ())" using inv by (simp add: out_inv_def q_def)
  have placed: "placed ios D2 (qo_packet (st_out D2 e)) e"
    using fits unfolding placed_def same2(2,7) by (simp add: size_consts)
  have core3: "core_inv C ios D3 None (os_log s) (assigned p s) (in_hand s @ chan_buf (p_nonce (st_peer D3 p)))
      (os_offered s @ [e]) ((os_plain s)(e := qo_packet (st_out D2 e)))"
    unfolding D3_def
    by (rule offer_core [OF core2]) (use fresh seq placed in \<open>simp_all only: same2, simp_all\<close>)
  have D3: "p_outbound (st_peer D3 p) = p_outbound (st_peer ?D p)" "keyPairs_of D3 p = keyPairs_of ?D p"
    "p_nonce (st_peer D3 p) = pushed q e" "st_nextElem D3 = st_nextElem ?D"
    "st_nextKeyPair D3 = st_nextKeyPair ?D" "\<And>f. qo_packet (st_out D3 f) = qo_packet (st_out D1 f)"
    using same2 by (simp_all add: D3_def upd_peer_def keyPairs_of_def)
  note D = new_element [OF new] and c = core_new [OF core3 new, of "Some x"]
  show "x \<noteq> e" using fresh(2) D(1) D3(4) by simp
  have plain: "qo_packet (st_out D e) = qo_packet (st_out D2 e)"
    using c(4) [of e] D3(6) [of e] same2(2) by simp
  have log: "qo_packet (st_out D f) = qo_packet (st_out ?D f)" if "f \<in> set (os_log s)" for f
  proof -
    have "f \<in> set (os_offered s)" using log_offered [OF inv that] .
    moreover from this fresh(1) have "f \<noteq> e" by auto
    ultimately show ?thesis using c(4) [of f] D3(6) [of f] same2(8) [of f] by simp
  qed
  show "out_inv C ios p (offer (s\<lparr>os_dev := D, os_reader := Some x\<rparr>) e)"
    using inv c(1) addToOutboundQueue_eq(2) [OF seq, of e] log
    by (simp add: out_inv_def keys_made_def held_def offer_def assigned_def waiting_def D D3 plain)
qed

lemma read_inv:
  assumes inv: "out_inv C ios p s" and step: "out_step C N endpoint ios p (Read_packet os) s = Some s'"
  shows "out_inv C ios p s'"
proof -
  let ?D = "os_dev s" and ?q = "p_nonce (st_peer (os_dev s) p)"
  obtain e D r where e: "os_reader s = Some e" and dest: "destined ios ?D p os"
    and run: "RoutineReadFromTUN ios ?D e os = Some (D, r)"
    and s': "s' = (if r \<noteq> None \<and> r \<noteq> Some e then offer (s\<lparr>os_dev := D, os_reader := r\<rparr>) e
      else s\<lparr>os_dev := D, os_reader := r\<rparr>)"
    using step by (auto simp: Let_def split: option.splits if_splits)
  note kept = read_inv_kept [OF inv e]
  show ?thesis
  proof (cases "dv_stopped ?D \<or> tun_Read ios os = Some Tun_error")
    case True
    then show ?thesis using run kept [of r D] by (auto simp: s' RoutineReadFromTUN_def split: if_splits)
  next
    case go: False
    then obtain packet off where read: "tun_Read ios os = Some (Tun_packet packet off)"
      using run by (auto simp: RoutineReadFromTUN_def split: option.splits tun_result.splits)
    show ?thesis
    proof (cases "length packet = 0 \<or> length packet > MaxContentSize")
      case True
      then show ?thesis using run read go kept [of r D] by (simp add: s' RoutineReadFromTUN_def)
    next
      case fits: False
      let ?D1 = "upd_out ?D e (\<lambda>q. q\<lparr>qo_packet := packet, qo_offset := MessageTransportHeaderSize + off\<rparr>)"
      let ?D2 = "upd_signal ?D1 p (\<lambda>g. g\<lparr>sg_handshakeReset := signalSend (sg_handshakeReset g)\<rparr>)"
      have off: "off = (if ios then 4 else 0)"
        using read fits by (auto simp: tun_Read_def Let_def split: option.splits if_splits)
      have dest': "lookup_destination ?D packet \<in> {None, Some None, Some (Some p)}"
        using dest read fits by (auto simp: destined_def)
      show ?thesis
      proof (cases "lookup_destination ?D packet = Some (Some p)")
        case False
        then have "D = ?D1" "r = Some e"
          using run read fits dest' go by (auto simp: RoutineReadFromTUN_def Let_def)
        then show ?thesis using kept [where packet = packet and off = "MessageTransportHeaderSize + off" and D = D and r = r] by (simp add: s')
      next
        case True
        have seq: "seq_inv (?q, ())" using inv by (simp add: out_inv_def)
        have "p_nonce (st_peer ?D2 p) = ?q" by (simp add: upd_signal_def upd_peer_def)
        then obtain x where "NewOutboundElement ((upd_peer ?D2 p (\<lambda>r. r\<lparr>p_nonce := pushed ?q e\<rparr>))
            \<lparr>st_out := push_drop ?q (st_out ?D2)\<rparr>) = (D, x)" and r: "r = Some x"
          using run read fits True go addToOutboundQueue_eq(1) [OF seq, of e "st_out ?D2"]
          by (auto simp: RoutineReadFromTUN_def Let_def split: prod.splits)
        from read_inv_routed [OF inv e this(1) [unfolded off]] fits show ?thesis by (simp add: s' r)
      qed
    qed
  qed
qed

lemma step_inv: "out_inv C ios p s \<Longrightarrow> out_step C N endpoint ios p ev s = Some s' \<Longrightarrow> out_inv C ios p s'"
proof (cases ev)
  case (Nonce_step nev)
  assume "out_inv C ios p s" "out_step C N endpoint ios p ev s = Some s'"
  with Nonce_step nonce_inv show ?thesis by (auto simp: split_beta)
next
  case Encrypt_step
  assume "out_inv C ios p s" "out_step C N endpoint ios p ev s = Some s'"
  with Encrypt_step encrypt_inv show ?thesis by auto
next
  case (Send_step ok now)
  assume "out_inv C ios p s" "out_step C N endpoint ios p ev s = Some s'"
  with Send_step send_inv show ?thesis by blast
qed (use read_inv keepalive_inv in blast)+

lemma reachable_inv: "out_reachable C N endpoint ios p s \<Longrightarrow> out_inv C ios p s"
  by (induction rule: out_reachable.induct) (auto intro: start_inv step_inv others_inv simp del: out_step.simps)

section \<open>The other parts of the program\<close>

text \<open>The handshake, the timers and the clearing of keys leave the pipeline alone.\<close>

lemma others_store [simp]:
  "others p D (set_handshake D q h)" "others p D (D\<lparr>dv_indices := t\<rparr>)"
  "others p D (drop_keyPair D k)"
  by (simp_all add: others_def set_handshake_def upd_peer_def drop_keyPair_def keys_made_def held_def
      keyPairs_of_def split: option.split)

lemma others_set_keyPairs:
  assumes "others p D D'" "\<And>k. keys_made p D \<Longrightarrow> Some k \<in> {ks_current ks, ks_previous ks, ks_next ks} \<Longrightarrow>
    q = p \<Longrightarrow> k < st_nextKeyPair D'"
  shows "others p D (set_keyPairs D' q ks)"
  using assms by (simp add: others_def set_keyPairs_def upd_peer_def keys_made_def held_def keyPairs_of_def) blast

lemma others_new_pair:
  "others p D (D\<lparr>st_keyPair := (st_keyPair D)(st_nextKeyPair D := kp), st_nextKeyPair := Suc (st_nextKeyPair D)\<rparr>)"
  by (auto simp: others_def keys_made_def held_def keyPairs_of_def)

lemma rotate_initiator_shape:
  assumes "rotate_initiator D q k = Some D'"
  shows "\<exists>t ks. (D' = set_keyPairs (D\<lparr>dv_indices := t\<rparr>) q ks \<or>
      D' = upd_signal (set_keyPairs (D\<lparr>dv_indices := t\<rparr>) q ks) q (\<lambda>s. s\<lparr>sg_newKeyPair := signalSend (sg_newKeyPair s)\<rparr>)) \<and>
    {ks_current ks, ks_previous ks, ks_next ks} \<subseteq> {None, Some k, ks_current (keyPairs_of D q), ks_next (keyPairs_of D q)}"
proof -
  define ks0 where "ks0 = keyPairs_of D q"
  define t where "t = (case ks_previous ks0 of None \<Rightarrow> dv_indices D
    | Some j \<Rightarrow> it_Delete (dv_indices D) (kp_localIndex (st_keyPair D j)))"
  have "(if ks_previous ks0 \<noteq> None
      then map_option (\<lambda>D. (D, ks0\<lparr>ks_previous := None\<rparr>)) (DeleteKeyPair D (ks_previous ks0))
      else Some (D, ks0)) = Some (D\<lparr>dv_indices := t\<rparr>, ks0\<lparr>ks_previous := None\<rparr>)"
    by (cases "ks_previous ks0"; cases ks0) (simp_all add: t_def DeleteKeyPair_def)
  with assms have D': "D' = (if ks_next ks0 \<noteq> None
      then set_keyPairs (D\<lparr>dv_indices := t\<rparr>) q (ks0\<lparr>ks_previous := ks_next ks0, ks_next := Some k\<rparr>)
      else upd_signal (set_keyPairs (D\<lparr>dv_indices := t\<rparr>) q (ks0\<lparr>ks_previous := ks_current ks0, ks_current := Some k\<rparr>))
        q (\<lambda>s. s\<lparr>sg_newKeyPair := signalSend (sg_newKeyPair s)\<rparr>))"
    unfolding rotate_initiator_def ks0_def [symmetric] Let_def by (simp split: if_splits)
  show ?thesis
  proof (cases "ks_next ks0 = None")
    case True
    then show ?thesis
      by (intro exI [of _ t] exI [of _ "ks0\<lparr>ks_previous := ks_current ks0, ks_current := Some k\<rparr>"])
        (simp add: D' ks0_def)
  next
    case False
    then show ?thesis
      by (intro exI [of _ t] exI [of _ "ks0\<lparr>ks_previous := ks_next ks0, ks_next := Some k\<rparr>"])
        (simp add: D' ks0_def)
  qed
qed

lemma NewKeyPair_others:
  assumes "NewKeyPair C D q now = Some (D', r)"
  shows "others p D D'"
proof (cases "derive_keys C (handshake_of D q)")
  case None
  with assms show ?thesis by (simp add: NewKeyPair_def Let_def)
next
  case (Some t)
  obtain ini sk rk where t: "t = (ini, sk, rk)" by (cases t) auto
  let ?h = "handshake_of D q" and ?k = "st_nextKeyPair D"
  define D1 where "D1 = set_handshake (D\<lparr>st_keyPair := (st_keyPair D)(?k := new_keyPair ?h ini sk rk now),
      st_nextKeyPair := Suc ?k, dv_indices := it_Insert (dv_indices D) (hs_localIndex ?h)
        \<lparr>ie_peer = Some q, ie_handshake = None, ie_keyPair = Some ?k\<rparr>\<rparr>) q (after_keys ?h)"
  have run: "(if ini then map_option (\<lambda>D. (D, Some ?k)) (rotate_initiator D1 q ?k)
      else Some (rotate_responder D1 q ?k, Some ?k)) = Some (D', r)"
    using assms Some t by (cases ini) (auto simp: NewKeyPair_def Let_def D1_def new_keyPair_def after_keys_def)
  have 1: "others p D D1" "st_nextKeyPair D1 = Suc ?k" "keyPairs_of D1 q = keyPairs_of D q"
    using others_trans [OF others_trans [OF others_new_pair others_store(2)] others_store(1)]
    by (simp_all add: D1_def)
  have old: "k < Suc ?k" if "keys_made p D" "q = p" "Some k \<in> {ks_current (keyPairs_of D q), ks_previous (keyPairs_of D q),
      ks_next (keyPairs_of D q)}" for k
    using that by (auto simp: keys_made_def held_def less_Suc_eq)
  show ?thesis
  proof (cases ini)
    case False
    with run have D': "D' = set_keyPairs D1 q ((keyPairs_of D q)\<lparr>ks_next := Some ?k, ks_previous := None\<rparr>)"
      by (auto simp: rotate_responder_def 1(3))
    show ?thesis unfolding D'
      by (rule others_set_keyPairs [OF 1(1)]) (use old 1(2) in auto)
  next
    case True
    with run have "rotate_initiator D1 q ?k = Some D'" by auto
    from rotate_initiator_shape [OF this] obtain t ks where D': "D' = set_keyPairs (D1\<lparr>dv_indices := t\<rparr>) q ks \<or>
        D' = upd_signal (set_keyPairs (D1\<lparr>dv_indices := t\<rparr>) q ks) q (\<lambda>s. s\<lparr>sg_newKeyPair := signalSend (sg_newKeyPair s)\<rparr>)"
      and ks: "{ks_current ks, ks_previous ks, ks_next ks} \<subseteq> {None, Some ?k, ks_current (keyPairs_of D q),
        ks_next (keyPairs_of D q)}"
      unfolding 1(3) by blast
    have "others p D (set_keyPairs (D1\<lparr>dv_indices := t\<rparr>) q ks)"
      by (rule others_set_keyPairs [OF others_trans [OF 1(1) others_store(2)]]) (use old ks 1(2) in auto)
    then show ?thesis using D' others_trans [OF _ others_upd(1)] by blast
  qed
qed

lemma on_zeroAllKeys_others: "others p D (on_zeroAllKeys D q)"
proof -
  let ?D1 = "drop_keyPair (drop_keyPair (drop_keyPair D (ks_previous (keyPairs_of D q)))
    (ks_current (keyPairs_of D q))) (ks_next (keyPairs_of D q))"
  have "others p D ?D1" by (rule others_trans [OF others_trans [OF others_store(3) others_store(3)] others_store(3)])
  then have "others p D (set_keyPairs ?D1 q \<lparr>ks_current = None, ks_previous = None, ks_next = None\<rparr>)"
    by (rule others_set_keyPairs) simp
  from others_trans [OF others_trans [OF this others_store(2)] others_store(1)]
  show ?thesis by (simp add: on_zeroAllKeys_def Let_def)
qed

lemma handshake_others:
  "CreateMessageInitiation C gl D q rnd ds now = Some (D', r) \<Longrightarrow> others p D D'"
  "CreateMessageResponse C D q rnd ds = Some (D', r') \<Longrightarrow> others p D D'"
  "ConsumeMessageInitiation C D m now t' = (D', found) \<Longrightarrow> others p D D'"
  "ConsumeMessageResponse C D m' = (D', found') \<Longrightarrow> others p D D'"
  using others_trans [OF others_store(2) others_store(1)]
  by (auto simp: CreateMessageInitiation_def CreateMessageResponse_def ConsumeMessageInitiation_def
      ConsumeMessageResponse_def Let_def split_beta split: if_splits option.splits)

section \<open>Runs\<close>

fun out_run ::
  "crypto \<Rightarrow> netenv \<Rightarrow> string \<Rightarrow> bool \<Rightarrow> pid \<Rightarrow> out_event list \<Rightarrow> out_system \<Rightarrow> out_system option" where
  "out_run C N endpoint ios p [] s = Some s"
| "out_run C N endpoint ios p (ev # evs) s =
    (case out_step C N endpoint ios p ev s of None \<Rightarrow> None | Some s \<Rightarrow> out_run C N endpoint ios p evs s)"

lemma run_reachable:
  "out_reachable C N endpoint ios p s \<Longrightarrow> out_run C N endpoint ios p evs s = Some s' \<Longrightarrow>
    out_reachable C N endpoint ios p s'"
proof (induction evs arbitrary: s)
  case (Cons ev evs)
  then obtain s1 where "out_step C N endpoint ios p ev s = Some s1" "out_run C N endpoint ios p evs s1 = Some s'"
    by (auto split: option.splits)
  with Cons out_reachable.step show ?case by blast
qed simp

text \<open>A worker with something to do never panics when packets start right behind the header.\<close>

lemma encryption_progress:
  assumes core: "core_inv C False D reader L A W offered plain" and C: "in_place_ok C"
    and work: "chan_buf (dv_encryption D) \<noteq> []"
  shows "\<exists>D'. RoutineEncryption C D = Some D' \<and>
    chan_buf (dv_encryption D') = tl (chan_buf (dv_encryption D))"
proof -
  obtain e es where buf: "chan_buf (dv_encryption D) = e # es" using work by (cases "chan_buf (dv_encryption D)") auto
  then have locked: "qo_locked (st_out D e)" and key: "elem_key D e \<noteq> None" and place: "placed False D (plain e) e"
    using core by (auto simp: core_inv_def encrypting_ok_def enc_inv_def items_of_def)
  from key obtain k where k: "qo_keyPair (st_out D e) = Some k" by (auto simp: elem_key_def)
  let ?content = "pad_content (dv_mtu D) (qo_packet (st_out D e))"
  have "\<not> overlaps 16 n (qo_offset (st_out D e)) (length ?content)" for n
    using place by (auto simp: placed_def overlaps_def)
  then have "\<not> aead_refuses C 16 n (qo_offset (st_out D e)) (length ?content)" for n
    using C by (simp add: in_place_ok_def)
  then show ?thesis
    using buf locked k by (simp add: RoutineEncryption_def chan_recv_def qo_IsDropped_def qo_Unlock_def Let_def)
qed

lemma encryption_releases:
  assumes "core_inv C False D reader L A W offered plain" "in_place_ok C" "e \<in> set A" "e \<notin> set L"
    "D = os_dev s"
  shows "\<exists>n s'. n \<le> length (chan_buf (dv_encryption D)) \<and>
    out_run C N endpoint ios p (replicate n Encrypt_step) s = Some s' \<and> \<not> qo_locked (st_out (os_dev s') e)"
  using assms
proof (induction "length (chan_buf (dv_encryption D))" arbitrary: D s)
  case 0
  then have "\<not> qo_locked (st_out D e)" using core_live [OF 0(2) 0(4,5)] by auto
  with 0 show ?case by (intro exI [of _ 0] exI [of _ s]) simp
next
  case (Suc m)
  then have work: "chan_buf (dv_encryption D) \<noteq> []" by auto
  obtain D' where D': "RoutineEncryption C D = Some D'"
    "chan_buf (dv_encryption D') = tl (chan_buf (dv_encryption D))"
    using encryption_progress [OF Suc.prems(1,2) work] by blast
  have core: "core_inv C False D' reader L A W offered plain"
    using core_encrypt [OF Suc.prems(1) D'(1)] by simp
  have len: "m = length (chan_buf (dv_encryption D'))" using Suc(2) D'(2) by simp
  have less: "n \<le> length (chan_buf (dv_encryption D')) \<Longrightarrow> Suc n \<le> length (chan_buf (dv_encryption D))" for n
    using Suc(2) len by simp
  obtain n s' where "n \<le> length (chan_buf (dv_encryption D'))"
    "out_run C N endpoint ios p (replicate n Encrypt_step) (s\<lparr>os_dev := D'\<rparr>) = Some s'"
    "\<not> qo_locked (st_out (os_dev s') e)"
    using Suc(1) [OF len core Suc.prems(2-4), of "s\<lparr>os_dev := D'\<rparr>"] by auto
  then show ?case
    using D'(1) Suc.prems(5) less [of n] by (intro exI [of _ "Suc n"] exI [of _ s']) simp
qed

section \<open>Properties\<close>

text \<open>
  C3: under every interleaving of the outbound routines with the rest of the program, what the
  sender writes to the socket is nothing but sealed transport packets of accepted contents, each
  with the header of its key pair's peer index and its own counter; under one key pair the
  counters strictly increase along the wire, so no nonce is used twice with a key, and none
  reaches the limit of messages.
\<close>

theorem transport_nonces_never_reused:
  assumes "out_reachable C N endpoint ios p s"
  shows "os_wire s = map (\<lambda>e. transport_packet C (st_keyPair (os_dev s) (the (elem_key (os_dev s) e)))
        (elem_nonce (os_dev s) e) (pad_content (dv_mtu (os_dev s)) (os_plain s e))) (os_log s) \<and>
    (\<forall>i j. i < j \<longrightarrow> j < length (os_log s) \<longrightarrow>
      elem_key (os_dev s) (os_log s ! i) = elem_key (os_dev s) (os_log s ! j) \<longrightarrow>
      elem_nonce (os_dev s) (os_log s ! i) < elem_nonce (os_dev s) (os_log s ! j)) \<and>
    (\<forall>e \<in> set (os_log s). elem_nonce (os_dev s) e < RejectAfterMessages)"
proof -
  have inv: "out_inv C ios p s" by (rule reachable_inv [OF assms])
  then have core: "core_inv C ios (os_dev s) (os_reader s) (os_log s) (assigned p s) (waiting p s)
      (os_offered s) (os_plain s)" and wire: "os_wire s = map (\<lambda>e. qo_packet (st_out (os_dev s) e)) (os_log s)"
    by (simp_all add: out_inv_def)
  have ok: "assigned_ok (os_dev s) (assigned p s)" using core by (simp add: core_inv_def)
  then have "sorted_wrt (\<lambda>e f. elem_key (os_dev s) e = elem_key (os_dev s) f \<longrightarrow>
      elem_nonce (os_dev s) e < elem_nonce (os_dev s) f) (os_log s)"
    by (simp add: assigned_ok_def assigned_def sorted_wrt_append)
  then have "\<forall>i j. i < j \<longrightarrow> j < length (os_log s) \<longrightarrow>
      elem_key (os_dev s) (os_log s ! i) = elem_key (os_dev s) (os_log s ! j) \<longrightarrow>
      elem_nonce (os_dev s) (os_log s ! i) < elem_nonce (os_dev s) (os_log s ! j)"
    by (simp add: sorted_wrt_iff_nth_less)
  moreover have "\<forall>e \<in> set (os_log s). elem_nonce (os_dev s) e < RejectAfterMessages"
    using ok log_assigned [of s p] by (auto simp: assigned_ok_def)
  moreover have "qo_packet (st_out (os_dev s) e) =
      transport_packet C (st_keyPair (os_dev s) (the (elem_key (os_dev s) e)))
        (elem_nonce (os_dev s) e) (pad_content (dv_mtu (os_dev s)) (os_plain s e))"
    if "e \<in> set (os_log s)" for e
    using core_logged(2) [OF core that] by (auto simp: sealed_as_def)
  ultimately show ?thesis using wire by simp
qed

text \<open>
  C11: the order of packets is maintained, as the header of the file promises: the elements sent
  are, in the order of the wire, a subsequence of those accepted for the peer, none twice.
  Packets are lost when a queue overflows, is flushed or the socket fails, and never reordered.
\<close>

theorem packets_keep_their_order:
  assumes "out_reachable C N endpoint ios p s"
  shows "subseq (os_log s) (os_offered s) \<and> distinct (os_log s) \<and>
    subseq (map (os_plain s) (os_log s)) (map (os_plain s) (os_offered s))"
proof -
  have core: "core_inv C ios (os_dev s) (os_reader s) (os_log s) (assigned p s) (waiting p s)
      (os_offered s) (os_plain s)"
    using reachable_inv [OF assms] by (simp add: out_inv_def keys_made_def held_def)
  have "subseq (os_log s) (assigned p s @ waiting p s)"
    by (simp add: assigned_def) (metis list_emb_append2 subseq_order.refl append_Nil2 subseq_append' list_emb_Nil)
  moreover have "subseq (assigned p s @ waiting p s) (os_offered s)"
    using core by (simp add: core_inv_def offered_ok_def)
  ultimately have "subseq (os_log s) (os_offered s)" by (rule subseq_order.trans)
  moreover have "distinct (os_log s)" using core_distinct [OF core] by (simp add: assigned_def)
  ultimately show ?thesis by (simp add: subseq_map)
qed


text \<open>A peer with a fresh key pair sends a keepalive.\<close>

definition keyed_device :: Device where
  "keyed_device = zero_device\<lparr>dv_conn := Some \<lparr>ua_IP = [10, 0, 0, 1], ua_Port = 51820\<rparr>,
    dv_encryption := make_chan QueueOutboundSize, st_nextKeyPair := 1,
    st_keyPair := (\<lambda>k. (st_keyPair zero_device k)\<lparr>kp_created := noon\<rparr>),
    st_peer := (\<lambda>_. zero_peer\<lparr>p_hasDevice := True, p_timer := new_timers 0, p_signal := new_signals,
      p_keyPairs := \<lparr>ks_current = Some 0, ks_previous = None, ks_next = None\<rparr>,
      p_nonce := make_chan QueueOutboundSize, p_outbound := make_chan QueueOutboundSize\<rparr>)\<rparr>"

definition keepalive_run :: "out_event list" where
  "keepalive_run = [Queue_keepalive, Nonce_step (Proceed noon), Nonce_step (Proceed noon),
    Nonce_step (Proceed noon), Send_step True noon]"

definition no_net :: netenv where
  "no_net = \<lparr>lookup_service = (\<lambda>_. None), dial = (\<lambda>_. False)\<rparr>"

lemma keyed_start: "out_start 0 keyed_device"
  by (simp add: out_start_def keyed_device_def make_chan_def size_consts chan_ok_def keys_made_def held_def keyPairs_of_def)

lemma keyed_run:
  assumes "map_option f (out_run toy_crypto no_net [] False 0 evs (out_init 0 keyed_device)) = Some x"
  obtains s where "out_reachable toy_crypto no_net [] False 0 s" "f s = x"
proof -
  obtain s where "out_run toy_crypto no_net [] False 0 evs (out_init 0 keyed_device) = Some s" "f s = x"
    using assms by auto
  with run_reachable [OF out_reachable.start [OF keyed_start]] that show ?thesis by blast
qed


definition two_keepalives :: "out_event list" where
  "two_keepalives = (let once = keepalive_run @ [Encrypt_step, Send_step True noon] in once @ once)"

lemma two_sent:
  "map_option (\<lambda>s. os_log s = [1, 2] \<and> map (elem_nonce (os_dev s)) (os_log s) = [0, 1])
    (out_run toy_crypto no_net [] False 0 two_keepalives (out_init 0 keyed_device)) = Some True"
  by code_simp

lemma two_sent_state:
  obtains s where "out_reachable toy_crypto no_net [] False 0 s" "os_log s = [1, 2]"
    "map (elem_nonce (os_dev s)) (os_log s) = [0, 1]"
proof (rule keyed_run [OF two_sent])
  fix s
  assume reach: "out_reachable toy_crypto no_net [] False 0 s"
    and "(os_log s = [1, 2] \<and> map (elem_nonce (os_dev s)) (os_log s) = [0, 1]) = True"
  note both = eqTrueE [OF this(2)]
  show thesis by (rule that [OF reach conjunct1 [OF both] conjunct2 [OF both]])
qed

theorem transport_nonces_never_reused_witness:
  "\<exists>s :: out_system. os_log s = [1, 2] \<and> map (elem_nonce (os_dev s)) (os_log s) = [0, 1] \<and>
    length (os_wire s) = length (os_log s) \<and>
    (\<forall>e \<in> set (os_log s). elem_nonce (os_dev s) e < RejectAfterMessages)"
proof -
  obtain s where s: "out_reachable toy_crypto no_net [] False 0 s" "os_log s = [1, 2]"
      "map (elem_nonce (os_dev s)) (os_log s) = [0, 1]"
    by (rule two_sent_state)
  note never = transport_nonces_never_reused [OF s(1)]
  have "length (os_wire s) = length (os_log s)"
    using arg_cong [OF never [THEN conjunct1], of length] by (simp only: length_map)
  with s(2,3) never [THEN conjunct2, THEN conjunct2] show ?thesis by (intro exI [of _ s] conjI)
qed

theorem packets_keep_their_order_witness:
  "\<exists>s :: out_system. os_log s = [1, 2] \<and> subseq [1, 2] (os_offered s)"
proof -
  obtain s where s: "out_reachable toy_crypto no_net [] False 0 s" "os_log s = [1, 2]"
      "map (elem_nonce (os_dev s)) (os_log s) = [0, 1]"
    by (rule two_sent_state)
  from packets_keep_their_order [OF s(1)] s(2) show ?thesis by (intro exI [of _ s]) simp
qed

end
