(* ===== verification/Receive.thy ===== *)
theory Receive
  imports Send
begin

text \<open>
  The inbound flow of \<^verbatim>\<open>controller/receive.go\<close>: the classification of datagrams,
  decryption, the handshake worker and the sequential receiver. As in the outbound flow a step
  is None when it blocks or panics.
\<close>

section \<open>Datagrams\<close>

definition upd_in :: "Device \<Rightarrow> eid \<Rightarrow> (kid QueueInboundElement \<Rightarrow> kid QueueInboundElement) \<Rightarrow> Device" where
  "upd_in D e f = D\<lparr>st_in := (st_in D)(e := f (st_in D e))\<rparr>"

definition new_inbound :: "Device \<Rightarrow> nat \<Rightarrow> bytes \<Rightarrow> kid \<Rightarrow> Device \<times> eid" where
  "new_inbound D buffer packet k =
    (let e = st_nextElem D
     in (D\<lparr>st_in := (st_in D)(e := \<lparr>qi_dropped = False, qi_locked = True, qi_buffer = buffer,
           qi_packet = packet, qi_counter = 0, qi_keyPair = Some k\<rparr>), st_nextElem := Suc e\<rparr>, e))"

text \<open>
  One datagram read into \<open>buffer\<close>, which the routine keeps unless the packet is queued. The
  size check of a transport message compares the length with the message type, 4, and never
  fails behind the check for the smallest message.
\<close>

definition queue_transport :: "Device \<Rightarrow> nat \<Rightarrow> bytes \<Rightarrow> time \<Rightarrow> (Device \<times> nat) option" where
  "queue_transport D buffer packet now =
    (if length packet < unat MessageTransportType then Some (D, buffer)
     else
       let receiver = get_le32 (drop MessageTransportOffsetReceiver packet);
           entry = it_Lookup (dv_indices D) receiver
       in case ie_keyPair entry of
            None \<Rightarrow> Some (D, buffer)
          | Some k \<Rightarrow>
              if kp_created (st_keyPair D k) + RejectAfterTime < now then Some (D, buffer)
              else
                let (D, e) = new_inbound D buffer packet k
                in case addToDecryptionQueue (dv_decryption D) e (st_in D) of
                     None \<Rightarrow> None
                   | Some (q, st) \<Rightarrow>
                       let D = D\<lparr>dv_decryption := q, st_in := st\<rparr>
                       in case ie_peer entry of
                            None \<Rightarrow> None
                          | Some p \<Rightarrow>
                              (case addToInboundQueue (p_inbound (st_peer D p)) e (st_in D) of
                                None \<Rightarrow> None
                              | Some (q, st) \<Rightarrow>
                                  Some (GetMessageBuffer
                                    ((upd_peer D p (\<lambda>r. r\<lparr>p_inbound := q\<rparr>))\<lparr>st_in := st\<rparr>))))"

definition handshake_size_ok :: "u32 \<Rightarrow> nat \<Rightarrow> bool" where
  "handshake_size_ok msgType n =
    (if msgType = MessageInitiationType then n = MessageInitiationSize
     else if msgType = MessageResponseType then n = MessageResponseSize
     else if msgType = MessageCookieReplyType then n = MessageCookieReplySize
     else False)"

definition handleUDP :: "Device \<Rightarrow> nat \<Rightarrow> bytes \<Rightarrow> UDPAddr \<Rightarrow> time \<Rightarrow> (Device \<times> nat) option" where
  "handleUDP D buffer packet raddr now =
    (if length packet < MinMessageSize then Some (D, buffer)
     else
       let msgType = get_le32 packet
       in if msgType = MessageTransportType then queue_transport D buffer packet now
          else if handshake_size_ok msgType (length packet) then
            (case addToHandshakeQueue (dv_handshakeQueue D)
                \<lparr>qh_msgType = msgType, qh_packet = packet, qh_buffer = buffer, qh_source = raddr\<rparr>
                (st_pool D) of
              None \<Rightarrow> None
            | Some (q, pool) \<Rightarrow> Some (GetMessageBuffer (D\<lparr>dv_handshakeQueue := q, st_pool := pool\<rparr>)))
          else Some (D, buffer))"

section \<open>Decryption\<close>

text \<open>
  The content starts at byte 16 of the buffer and is decrypted to its byte 0.
\<close>

definition RoutineDecryption :: "crypto \<Rightarrow> Device \<Rightarrow> Device option" where
  "RoutineDecryption C D =
    (case chan_recv (dv_decryption D) of
      None \<Rightarrow> None
    | Some (elem, q) \<Rightarrow>
        let D = D\<lparr>dv_decryption := q\<rparr>
        in if qi_IsDropped (st_in D) elem then Some D
           else case qi_keyPair (st_in D elem) of
             None \<Rightarrow> None
           | Some k \<Rightarrow>
               let packet = qi_packet (st_in D elem);
                   counter = take 8 (drop MessageTransportOffsetCounter packet);
                   content = drop MessageTransportOffsetContent packet;
                   nonce = replicate 4 0 @ counter
               in if length packet < MessageTransportOffsetContent then None
                  else if aead_refuses C 0 (length content - TagSize)
                      MessageTransportOffsetContent (length content) then None
                  else
                    let D = upd_in D elem (\<lambda>e. e\<lparr>qi_counter := get_le64 counter\<rparr>);
                        D = (case aead_open C (kp_receive (st_keyPair D k)) nonce content [] of
                            None \<Rightarrow> let D = upd_in D elem (\<lambda>e. e\<lparr>qi_packet := []\<rparr>)
                              in D\<lparr>st_in := qi_Drop (st_in D) elem\<rparr>
                          | Some plain \<Rightarrow> upd_in D elem (\<lambda>e. e\<lparr>qi_packet := plain\<rparr>))
                    in map_option (\<lambda>st. D\<lparr>st_in := st\<rparr>) (qi_Unlock (st_in D) elem))"

section \<open>Handshake messages\<close>

text \<open>
  What one turn of the handshake worker draws from its surroundings: the clock, the random
  reads, and whether the sockets take what is written. The turn says whether the worker goes on.
\<close>

record turn =
  tn_now :: time
  tn_later :: time
  tn_rnd :: "bytes \<times> bool"
  tn_rnd2 :: "bytes \<times> bool"
  tn_draws :: "(pid, kid) draw list"
  tn_ok :: bool

definition consume_cookie :: "crypto \<Rightarrow> Device \<Rightarrow> bytes \<Rightarrow> turn \<Rightarrow> Device \<times> bool" where
  "consume_cookie C D packet tn =
    (case read_cookie packet of
      None \<Rightarrow> (D, False)
    | Some reply \<Rightarrow>
        (case ie_peer (it_Lookup (dv_indices D) (mc_Receiver reply)) of
          None \<Rightarrow> (D, False)
        | Some p \<Rightarrow> (upd_peer D p (\<lambda>r. r\<lparr>p_mac := fst (ConsumeReply C (p_mac r) reply (tn_now tn))\<rparr>), True)))"

text \<open>The checks before a handshake message: whether it is processed, and whether the worker goes on.\<close>

definition send_cookie ::
  "crypto \<Rightarrow> netenv \<Rightarrow> string \<Rightarrow> Device \<Rightarrow> QueueHandshakeElement \<Rightarrow> turn \<Rightarrow> (Device \<times> bool) option" where
  "send_cookie C N endpoint D elem tn =
    (case CreateReply C (dv_mac D) (qh_packet elem) (get_le32 (drop 4 (qh_packet elem))) (qh_source elem)
        (tn_now tn) (tn_rnd tn) (tn_now tn) (tn_rnd2 tn) of
      None \<Rightarrow> None
    | Some (mac, None) \<Rightarrow> Some (D\<lparr>dv_mac := mac\<rparr>, False)
    | Some (mac, Some reply) \<Rightarrow>
        let D = D\<lparr>dv_mac := mac\<rparr>
        in if tn_ok tn then Some (D\<lparr>st_sent := st_sent D @ [(qh_source elem, write_cookie reply)]\<rparr>, True)
           else map_option (\<lambda>D. (D, True)) (changeNetwork C N D endpoint (tn_later tn)))"

datatype admission = Process | Skip | Stop_worker

definition admit ::
  "crypto \<Rightarrow> netenv \<Rightarrow> string \<Rightarrow> Device \<Rightarrow> QueueHandshakeElement \<Rightarrow> turn \<Rightarrow> (Device \<times> admission) option" where
  "admit C N endpoint D elem tn =
    (case CheckMAC1 C (dv_mac D) (qh_packet elem) of
      None \<Rightarrow> None
    | Some False \<Rightarrow> Some (D, Stop_worker)
    | Some True \<Rightarrow>
        (case IsUnderLoad D (tn_now tn) of
          (D, False) \<Rightarrow> Some (D, Process)
        | (D, True) \<Rightarrow>
            (case CheckMAC2 C (dv_mac D) (qh_packet elem) (qh_source elem) (tn_now tn) of
              None \<Rightarrow> None
            | Some False \<Rightarrow>
                map_option (\<lambda>(D, ok). (D, if ok then Skip else Stop_worker)) (send_cookie C N endpoint D elem tn)
            | Some True \<Rightarrow>
                let (rate, ok) = Allow (dv_ratelimiter D) (ua_IP (qh_source elem)) (tn_now tn);
                    D = D\<lparr>dv_ratelimiter := rate\<rparr>
                in Some (D, if ok then Process else Skip))))"

definition process_initiation ::
  "crypto \<Rightarrow> Device \<Rightarrow> QueueHandshakeElement \<Rightarrow> turn \<Rightarrow> Device option" where
  "process_initiation C D elem tn =
    (case read_initiation (qh_packet elem) of
      None \<Rightarrow> Some D
    | Some msg \<Rightarrow>
        (case ConsumeMessageInitiation C D msg (tn_now tn) (tn_later tn) of
          (D, None) \<Rightarrow> Some D
        | (D, Some p) \<Rightarrow> do {
            D \<leftarrow> TimerAnyAuthenticatedPacketTraversal D p (tn_later tn);
            D \<leftarrow> TimerAnyAuthenticatedPacketReceived D p;
            let D = upd_peer D p (\<lambda>r. r\<lparr>p_endpoint := Some (qh_source elem)\<rparr>);
            (D, res) \<leftarrow> CreateMessageResponse C D p (tn_rnd tn) (tn_draws tn);
            case res of
              Inl _ \<Rightarrow> Some D
            | Inr response \<Rightarrow> do {
                D \<leftarrow> TimerEphemeralKeyCreated D p (tn_later tn);
                (D, _) \<leftarrow> NewKeyPair C D p (tn_later tn);
                (mac, packet) \<leftarrow> AddMacs C (p_mac (st_peer D p)) (write_response response) (tn_later tn);
                let D = upd_peer D p (\<lambda>r. r\<lparr>p_mac := mac\<rparr>);
                let (D, err) = SendBuffer D p packet (tn_ok tn);
                if err then Some D else TimerAnyAuthenticatedPacketTraversal D p (tn_later tn)
              }
          }))"

definition process_response ::
  "crypto \<Rightarrow> Device \<Rightarrow> QueueHandshakeElement \<Rightarrow> turn \<Rightarrow> Device option" where
  "process_response C D elem tn =
    (case read_response (qh_packet elem) of
      None \<Rightarrow> Some D
    | Some msg \<Rightarrow>
        (case ConsumeMessageResponse C D msg of
          (D, None) \<Rightarrow> Some D
        | (D, Some p) \<Rightarrow> do {
            D \<leftarrow> TimerEphemeralKeyCreated D p (tn_later tn);
            D \<leftarrow> TimerAnyAuthenticatedPacketTraversal D p (tn_later tn);
            D \<leftarrow> TimerAnyAuthenticatedPacketReceived D p;
            let D = TimerHandshakeComplete D p;
            (D, _) \<leftarrow> NewKeyPair C D p (tn_later tn);
            map_option fst (SendKeepAlive D p)
          }))"

definition handle_handshake ::
  "crypto \<Rightarrow> netenv \<Rightarrow> string \<Rightarrow> Device \<Rightarrow> QueueHandshakeElement \<Rightarrow> turn \<Rightarrow> (Device \<times> bool) option" where
  "handle_handshake C N endpoint D elem tn =
    (if qh_msgType elem = MessageCookieReplyType then Some (consume_cookie C D (qh_packet elem) tn)
     else if qh_msgType elem = MessageInitiationType \<or> qh_msgType elem = MessageResponseType then
       (case admit C N endpoint D elem tn of
         None \<Rightarrow> None
       | Some (D, Stop_worker) \<Rightarrow> Some (D, False)
       | Some (D, Skip) \<Rightarrow> Some (D, True)
       | Some (D, Process) \<Rightarrow>
           map_option (\<lambda>D. (D, True))
             (if qh_msgType elem = MessageInitiationType then process_initiation C D elem tn
              else process_response C D elem tn))
     else Some (D, True))"

text \<open>The worker takes the oldest message; a worker that returned takes no more.\<close>

definition RoutineHandshake ::
  "crypto \<Rightarrow> netenv \<Rightarrow> string \<Rightarrow> Device \<Rightarrow> bool \<Rightarrow> turn \<Rightarrow> (Device \<times> bool) option" where
  "RoutineHandshake C N endpoint D running tn =
    (if \<not> running then None
     else case chan_recv (dv_handshakeQueue D) of
       None \<Rightarrow> if dv_stopped D then Some (D, False) else None
     | Some (elem, q) \<Rightarrow> handle_handshake C N endpoint (D\<lparr>dv_handshakeQueue := q\<rparr>) elem tn)"

section \<open>The sequential receiver\<close>

text \<open>
  The packet a decrypted content stands for: the padding is cut off and the source checked. The
  result is None for a panic, \<open>Some None\<close> for a refused packet. The length of an IPv6 packet is
  added up in 16 bits; the source address is read from the buffer whatever that length is.
\<close>

definition open_ipv4 :: "Device \<Rightarrow> pid \<Rightarrow> bytes \<Rightarrow> bytes option option" where
  "open_ipv4 D peer packet =
    (if length packet < 20 then Some None
     else
       let len = unat (get_be16 (take 2 (drop IPv4offsetTotalLength packet)))
       in if len > length packet \<or> len < 20 then Some None
          else
            let packet = take len packet;
                src = take 4 (drop IPv4offsetSrc packet)
            in case rt_LookupIPv4 (dv_routingTable D) src of
                 None \<Rightarrow> None
               | Some owner \<Rightarrow> Some (if owner \<noteq> Some peer then None else Some packet))"

definition open_ipv6 :: "Device \<Rightarrow> pid \<Rightarrow> bytes \<Rightarrow> bytes option option" where
  "open_ipv6 D peer packet =
    (if length packet < 40 then Some None
     else
       let len = unat (get_be16 (take 2 (drop IPv6offsetPayloadLength packet)) + 40)
       in if len > length packet then Some None
          else
            let src = take 16 (drop IPv6offsetSrc packet)
            in case rt_LookupIPv6 (dv_routingTable D) src of
                 None \<Rightarrow> None
               | Some owner \<Rightarrow> Some (if owner \<noteq> Some peer then None else Some (take len packet)))"

definition open_packet :: "Device \<Rightarrow> pid \<Rightarrow> bytes \<Rightarrow> bytes option option" where
  "open_packet D peer packet =
    (if drop_bit 4 (packet ! 0) = 4 then open_ipv4 D peer packet
     else if drop_bit 4 (packet ! 0) = 6 then open_ipv6 D peer packet
     else Some None)"

text \<open>A first packet under the next key pair makes it the current one.\<close>

definition confirm_key :: "Device \<Rightarrow> pid \<Rightarrow> kid \<Rightarrow> Device option" where
  "confirm_key D peer k =
    (let kp = keyPairs_of D peer
     in if ks_next kp = Some k then
          let D = TimerHandshakeComplete D peer
          in case (if ks_previous kp \<noteq> None then DeleteKeyPair D (ks_previous kp) else Some D) of
               None \<Rightarrow> None
             | Some D \<Rightarrow> Some (set_keyPairs D peer
                 \<lparr>ks_current = ks_next kp, ks_previous = ks_current kp, ks_next = None\<rparr>)
        else Some D)"

definition deliver :: "bool \<Rightarrow> Device \<Rightarrow> pid \<Rightarrow> eid \<Rightarrow> Device option" where
  "deliver ios D peer elem =
    (case open_packet D peer (qi_packet (st_in D elem)) of
      None \<Rightarrow> None
    | Some None \<Rightarrow> Some D
    | Some (Some packet) \<Rightarrow>
        Some (device_PutMessageBuffer
          ((upd_in D elem (\<lambda>e. e\<lparr>qi_packet := packet\<rparr>))\<lparr>st_tun := st_tun D @ [tun_Write ios packet]\<rparr>)
          (qi_buffer (st_in D elem))))"

definition receive_element :: "bool \<Rightarrow> Device \<Rightarrow> pid \<Rightarrow> eid \<Rightarrow> time \<Rightarrow> Device option" where
  "receive_element ios D peer elem now =
    (case qi_keyPair (st_in D elem) of
      None \<Rightarrow> None
    | Some k \<Rightarrow>
        let (flt, ok) = ValidateCounter (kp_replayFilter (st_keyPair D k)) (qi_counter (st_in D elem));
            D = upd_keyPair D k (\<lambda>kp. kp\<lparr>kp_replayFilter := flt\<rparr>)
        in if \<not> ok then Some D
           else do {
             D \<leftarrow> TimerAnyAuthenticatedPacketTraversal D peer now;
             D \<leftarrow> TimerAnyAuthenticatedPacketReceived D peer;
             let D = KeepKeyFreshReceiving D peer now;
             D \<leftarrow> confirm_key D peer k;
             if length (qi_packet (st_in D elem)) = 0 then Some D
             else do {
               D \<leftarrow> TimerDataReceived D peer now;
               deliver ios D peer elem
             }
           })"

datatype receiver_pc = Next_inbound | Lock_inbound eid

fun RoutineSequentialReceiver ::
  "bool \<Rightarrow> Device \<Rightarrow> pid \<Rightarrow> receiver_pc \<Rightarrow> time \<Rightarrow> (Device \<times> receiver_pc) option" where
  "RoutineSequentialReceiver ios D peer Next_inbound now =
    (case chan_recv (p_inbound (st_peer D peer)) of
      None \<Rightarrow> None
    | Some (elem, q) \<Rightarrow> Some (upd_peer D peer (\<lambda>p. p\<lparr>p_inbound := q\<rparr>), Lock_inbound elem))"
| "RoutineSequentialReceiver ios D peer (Lock_inbound elem) now =
    (if qi_locked (st_in D elem) then None
     else
       let D = upd_in D elem (\<lambda>e. e\<lparr>qi_locked := True\<rparr>)
       in if qi_IsDropped (st_in D) elem then Some (D, Next_inbound)
          else map_option (\<lambda>D. (D, Next_inbound)) (receive_element ios D peer elem now))"

end
