(* ===== verification/Inbound.thy ===== *)
theory Inbound
  imports Receive
begin

text \<open>
  The inbound routines of a peer running together: any interleaving of arriving datagrams, the
  decryption worker and the sequential receiver, with every other part of the program acting in
  between. What reaches the TUN device.
\<close>

section \<open>The system\<close>

text \<open>
  The last fields only record: every datagram that arrived, the counters each key pair's filter
  was asked about, and what was written to the TUN device, with the routes at that time.
\<close>

record delivery =
  dl_key :: kid
  dl_counter :: u64
  dl_content :: bytes
  dl_routes :: "pid RoutingTable"

record in_system =
  is_dev :: Device
  is_buffer :: nat
  is_receiver :: receiver_pc
  is_datagrams :: "bytes set"
  is_seen :: "kid \<Rightarrow> u64 list"
  is_delivered :: "delivery list"
  is_written :: "bytes list"

datatype in_event = Datagram bytes UDPAddr time | Decrypt_step | Receive_step time

definition asked :: "Device \<Rightarrow> receiver_pc \<Rightarrow> (kid \<times> u64) option" where
  "asked D pc =
    (case pc of
      Next_inbound \<Rightarrow> None
    | Lock_inbound e \<Rightarrow>
        if qi_dropped (st_in D e) then None
        else map_option (\<lambda>k. (k, qi_counter (st_in D e))) (qi_keyPair (st_in D e)))"

definition delivery_of :: "Device \<Rightarrow> receiver_pc \<Rightarrow> delivery list" where
  "delivery_of D pc =
    (case pc of
      Next_inbound \<Rightarrow> []
    | Lock_inbound e \<Rightarrow>
        (case qi_keyPair (st_in D e) of
          None \<Rightarrow> []
        | Some k \<Rightarrow> [\<lparr>dl_key = k, dl_counter = qi_counter (st_in D e), dl_content = qi_packet (st_in D e),
            dl_routes = dv_routingTable D\<rparr>]))"

fun in_step :: "crypto \<Rightarrow> bool \<Rightarrow> pid \<Rightarrow> in_event \<Rightarrow> in_system \<Rightarrow> in_system option" where
  "in_step C ios p (Datagram packet raddr now) s =
    (case handleUDP (is_dev s) (is_buffer s) packet raddr now of
      None \<Rightarrow> None
    | Some (D, b) \<Rightarrow> Some (s\<lparr>is_dev := D, is_buffer := b, is_datagrams := insert packet (is_datagrams s)\<rparr>))"
| "in_step C ios p Decrypt_step s =
    map_option (\<lambda>D. s\<lparr>is_dev := D\<rparr>) (RoutineDecryption C (is_dev s))"
| "in_step C ios p (Receive_step now) s =
    (case RoutineSequentialReceiver ios (is_dev s) p (is_receiver s) now of
      None \<Rightarrow> None
    | Some (D, pc) \<Rightarrow>
        let written = drop (length (st_tun (is_dev s))) (st_tun D);
            seen = (case asked (is_dev s) (is_receiver s) of
                None \<Rightarrow> is_seen s
              | Some (k, n) \<Rightarrow> (is_seen s)(k := is_seen s k @ [n]))
        in Some (s\<lparr>is_dev := D, is_receiver := pc, is_seen := seen,
             is_delivered := is_delivered s @ (if written = [] then [] else delivery_of (is_dev s) (is_receiver s)),
             is_written := is_written s @ written\<rparr>))"

text \<open>
  What every other part of the program keeps: the elements and queues of the inbound flow, the
  receiving keys and filters of the key pairs, and that the index table names only key pairs
  that were made. A new key pair has a fresh filter.
\<close>

definition indices_made :: "Device \<Rightarrow> bool" where
  "indices_made D \<longleftrightarrow> (\<forall>i k. ie_keyPair (it_Lookup (dv_indices D) i) = Some k \<longrightarrow> k < st_nextKeyPair D)"

definition in_others :: "pid \<Rightarrow> Device \<Rightarrow> Device \<Rightarrow> bool" where
  "in_others p D D' \<longleftrightarrow>
    st_in D' = st_in D \<and> dv_decryption D' = dv_decryption D \<and> st_tun D' = st_tun D \<and>
    p_inbound (st_peer D' p) = p_inbound (st_peer D p) \<and>
    st_nextElem D \<le> st_nextElem D' \<and> st_nextKeyPair D \<le> st_nextKeyPair D' \<and>
    (\<forall>k < st_nextKeyPair D. kp_receive (st_keyPair D' k) = kp_receive (st_keyPair D k) \<and>
      kp_replayFilter (st_keyPair D' k) = kp_replayFilter (st_keyPair D k)) \<and>
    (\<forall>k. st_nextKeyPair D \<le> k \<longrightarrow> k < st_nextKeyPair D' \<longrightarrow>
      kp_replayFilter (st_keyPair D' k) = rf_Init zero_filter) \<and>
    (indices_made D \<longrightarrow> indices_made D')"

definition in_start :: "pid \<Rightarrow> Device \<Rightarrow> bool" where
  "in_start p D \<longleftrightarrow>
    0 < chan_cap (p_inbound (st_peer D p)) \<and> chan_buf (p_inbound (st_peer D p)) = [] \<and>
    0 < chan_cap (dv_decryption D) \<and> chan_buf (dv_decryption D) = [] \<and>
    (\<forall>k < st_nextKeyPair D. kp_replayFilter (st_keyPair D k) = rf_Init zero_filter) \<and> indices_made D"

definition in_init :: "Device \<Rightarrow> in_system" where
  "in_init D =
    (let (D', b) = GetMessageBuffer D
     in \<lparr>is_dev = D', is_buffer = b, is_receiver = Next_inbound, is_datagrams = {}, is_seen = (\<lambda>_. []),
          is_delivered = [], is_written = []\<rparr>)"

inductive in_reachable :: "crypto \<Rightarrow> bool \<Rightarrow> pid \<Rightarrow> in_system \<Rightarrow> bool"
  for C ios p where
  start: "in_start p D \<Longrightarrow> in_reachable C ios p (in_init D)"
| step: "in_reachable C ios p s \<Longrightarrow> in_step C ios p ev s = Some s' \<Longrightarrow> in_reachable C ios p s'"
| other: "in_reachable C ios p s \<Longrightarrow> in_others p (is_dev s) D \<Longrightarrow> in_reachable C ios p (s\<lparr>is_dev := D\<rparr>)"

section \<open>Authentic contents and fresh counters\<close>

text \<open>A datagram that opens under a key pair with a counter to a content.\<close>

definition opens :: "crypto \<Rightarrow> KeyPair \<Rightarrow> u64 \<Rightarrow> bytes \<Rightarrow> bytes \<Rightarrow> bool" where
  "opens C kp n packet content \<longleftrightarrow>
    get_le32 packet = MessageTransportType \<and> n = get_le64 (take 8 (drop 8 packet)) \<and>
    aead_open C (kp_receive kp) (transport_nonce n) (drop 16 packet) [] = Some content"

definition opened_elem :: "crypto \<Rightarrow> Device \<Rightarrow> bytes set \<Rightarrow> eid \<Rightarrow> bool" where
  "opened_elem C D ds e \<longleftrightarrow> (\<exists>k. qi_keyPair (st_in D e) = Some k \<and> k < st_nextKeyPair D \<and>
    (\<exists>d \<in> ds. opens C (st_keyPair D k) (qi_counter (st_in D e)) d (qi_packet (st_in D e))))"

definition raw_elem :: "Device \<Rightarrow> bytes set \<Rightarrow> eid \<Rightarrow> bool" where
  "raw_elem D ds e \<longleftrightarrow> qi_locked (st_in D e) \<and> e < st_nextElem D \<and>
    (\<exists>k. qi_keyPair (st_in D e) = Some k \<and> k < st_nextKeyPair D) \<and>
    qi_packet (st_in D e) \<in> ds \<and> get_le32 (qi_packet (st_in D e)) = MessageTransportType \<and>
    16 \<le> length (qi_packet (st_in D e))"

definition in_flight :: "Device \<Rightarrow> pid \<Rightarrow> receiver_pc \<Rightarrow> eid set" where
  "in_flight D p pc = set (chan_buf (p_inbound (st_peer D p))) \<union>
    (case pc of Next_inbound \<Rightarrow> {} | Lock_inbound e \<Rightarrow> {e})"

definition flow_inv :: "crypto \<Rightarrow> pid \<Rightarrow> Device \<Rightarrow> receiver_pc \<Rightarrow> bytes set \<Rightarrow> bool" where
  "flow_inv C p D pc ds \<longleftrightarrow>
    dec_inv (dv_decryption D, st_in D) \<and> seq_inv (p_inbound (st_peer D p), ()) \<and>
    (\<forall>e \<in> set (chan_buf (dv_decryption D)). raw_elem D ds e) \<and>
    (\<forall>e \<in> in_flight D p pc. e < st_nextElem D \<and>
      (\<not> qi_locked (st_in D e) \<longrightarrow> \<not> qi_dropped (st_in D e) \<longrightarrow> opened_elem C D ds e)) \<and>
    indices_made D"

definition accepted :: "u64 list \<Rightarrow> u64 list" where
  "accepted cs = map fst (filter snd (zip cs (snd (checks ValidateCounter (rf_Init zero_filter) cs))))"

definition filters_inv :: "Device \<Rightarrow> (kid \<Rightarrow> u64 list) \<Rightarrow> bool" where
  "filters_inv D seen \<longleftrightarrow>
    (\<forall>k < st_nextKeyPair D. kp_replayFilter (st_keyPair D k) =
      fst (checks ValidateCounter (rf_Init zero_filter) (seen k))) \<and>
    (\<forall>k \<ge> st_nextKeyPair D. seen k = [])"

text \<open>The source of an opened packet is routed to the peer.\<close>

definition source_allowed :: "pid RoutingTable \<Rightarrow> pid \<Rightarrow> bytes \<Rightarrow> bool" where
  "source_allowed table p content \<longleftrightarrow>
    (drop_bit 4 (content ! 0) = 4 \<and> rt_LookupIPv4 table (take 4 (drop 12 content)) = Some (Some p)) \<or>
    (drop_bit 4 (content ! 0) = 6 \<and> rt_LookupIPv6 table (take 16 (drop 8 content)) = Some (Some p))"

definition delivery_ok ::
  "crypto \<Rightarrow> bool \<Rightarrow> pid \<Rightarrow> Device \<Rightarrow> bytes set \<Rightarrow> delivery \<Rightarrow> bytes \<Rightarrow> bool" where
  "delivery_ok C ios p D ds d written \<longleftrightarrow>
    dl_key d < st_nextKeyPair D \<and> source_allowed (dl_routes d) p (dl_content d) \<and>
    (\<exists>len. written = tun_Write ios (take len (dl_content d))) \<and>
    (\<exists>packet \<in> ds. opens C (st_keyPair D (dl_key d)) (dl_counter d) packet (dl_content d))"

definition delivered_inv :: "crypto \<Rightarrow> bool \<Rightarrow> pid \<Rightarrow> in_system \<Rightarrow> bool" where
  "delivered_inv C ios p s \<longleftrightarrow>
    list_all2 (delivery_ok C ios p (is_dev s) (is_datagrams s)) (is_delivered s) (is_written s) \<and>
    (\<forall>k. subseq (map dl_counter (filter (\<lambda>d. dl_key d = k) (is_delivered s))) (accepted (is_seen s k)))"

definition in_inv :: "crypto \<Rightarrow> bool \<Rightarrow> pid \<Rightarrow> in_system \<Rightarrow> bool" where
  "in_inv C ios p s \<longleftrightarrow>
    flow_inv C p (is_dev s) (is_receiver s) (is_datagrams s) \<and>
    filters_inv (is_dev s) (is_seen s) \<and> delivered_inv C ios p s"

section \<open>Counters\<close>

lemma checks_snoc:
  "checks step s (cs @ [c]) =
    (fst (step (fst (checks step s cs)) c), snd (checks step s cs) @ [snd (step (fst (checks step s cs)) c)])"
  by (induction cs arbitrary: s) (simp_all add: split_beta Let_def)

lemma accepted_snoc:
  "accepted (cs @ [c]) = accepted cs @
    (if snd (ValidateCounter (fst (checks ValidateCounter (rf_Init zero_filter) cs)) c) then [c] else [])"
  by (simp add: accepted_def checks_snoc)

lemma distinct_accepted: "distinct (accepted cs)"
  unfolding accepted_def by (rule replay.accepted_once)

lemma le64_get_le64:
  assumes "length bs = 8"
  shows "le64 (get_le64 bs) = bs"
proof -
  have "le_dec bs < 18446744073709551616" using le_dec_bound [of bs] assms by simp
  then have "unat (get_le64 bs) = le_dec bs"
    using assms by (simp add: get_le64_def unat_of_nat)
  with le_enc_le_dec [of bs] assms show ?thesis by (simp add: le64_def)
qed

section \<open>The rest of the program\<close>

definition in_same :: "pid \<Rightarrow> Device \<Rightarrow> Device \<Rightarrow> bool" where
  "in_same p D D' \<longleftrightarrow> in_others p D D' \<and> dv_routingTable D' = dv_routingTable D"

lemma in_others_refl [simp]: "in_others p D D"
  by (simp add: in_others_def)

lemma in_others_trans: "in_others p D1 D2 \<Longrightarrow> in_others p D2 D3 \<Longrightarrow> in_others p D1 D3"
  unfolding in_others_def
proof (elim conjE, intro conjI allI impI)
  fix k
  assume "\<forall>k. st_nextKeyPair D1 \<le> k \<longrightarrow> k < st_nextKeyPair D2 \<longrightarrow>
      kp_replayFilter (st_keyPair D2 k) = rf_Init zero_filter"
    "\<forall>k. st_nextKeyPair D2 \<le> k \<longrightarrow> k < st_nextKeyPair D3 \<longrightarrow>
      kp_replayFilter (st_keyPair D3 k) = rf_Init zero_filter"
    "\<forall>k < st_nextKeyPair D2. kp_receive (st_keyPair D3 k) = kp_receive (st_keyPair D2 k) \<and>
      kp_replayFilter (st_keyPair D3 k) = kp_replayFilter (st_keyPair D2 k)"
    "st_nextKeyPair D1 \<le> k" "k < st_nextKeyPair D3"
  then show "kp_replayFilter (st_keyPair D3 k) = rf_Init zero_filter"
    by (cases "k < st_nextKeyPair D2") auto
qed auto

lemma in_same_refl [simp]: "in_same p D D"
  by (simp add: in_same_def)

lemma in_same_trans: "in_same p D1 D2 \<Longrightarrow> in_same p D2 D3 \<Longrightarrow> in_same p D1 D3"
  by (auto simp: in_same_def intro: in_others_trans)

lemma in_same_upd [simp]:
  "in_same p D (upd_signal D q f)" "in_same p D (upd_timer D q g)" "in_same p D (begin_handshake D q)"
  "in_same p D (TimerHandshakeComplete D q)" "in_same p D (set_keyPairs D q ks)"
  by (simp_all add: in_same_def in_others_def begin_handshake_def TimerHandshakeComplete_def upd_signal_def
      upd_timer_def set_keyPairs_def upd_peer_def indices_made_def)

lemma in_same_after:
  "in_same p D D' \<Longrightarrow> in_same p D (upd_timer D' q g)" "in_same p D D' \<Longrightarrow> in_same p D (set_keyPairs D' q ks)"
  "in_same p D D' \<Longrightarrow> in_same p D (begin_handshake D' q)"
  by (blast intro: in_same_trans in_same_upd)+

lemma in_same_delete: "in_same p D (D\<lparr>dv_indices := it_Delete (dv_indices D) i\<rparr>)"
  by (auto simp: in_same_def in_others_def indices_made_def it_Delete_def it_Lookup_def zero_entry_def
      split: option.splits if_splits)

lemma in_same_timers:
  "TimerAnyAuthenticatedPacketTraversal D q now = Some D' \<Longrightarrow> in_same p D D'"
  "TimerAnyAuthenticatedPacketReceived D q = Some D' \<Longrightarrow> in_same p D D'"
  "TimerDataReceived D q now = Some D' \<Longrightarrow> in_same p D D'"
  "in_same p D (KeepKeyFreshReceiving D q now)"
  by (auto simp: TimerAnyAuthenticatedPacketTraversal_def TimerAnyAuthenticatedPacketReceived_def
      TimerDataReceived_def KeepKeyFreshReceiving_def Let_def intro: in_same_after
      split: if_splits option.splits)

lemma in_same_confirm:
  assumes "confirm_key D q k = Some D'"
  shows "in_same p D D'"
proof -
  let ?D = "TimerHandshakeComplete D q"
  have "in_same p D D1"
    if "(if ks_previous (keyPairs_of D q) \<noteq> None then DeleteKeyPair ?D (ks_previous (keyPairs_of D q))
      else Some ?D) = Some D1" for D1
    using that in_same_trans [OF in_same_upd(4) in_same_delete]
    by (auto simp: DeleteKeyPair_def split: if_splits option.splits)
  with assms show ?thesis
    by (auto simp: confirm_key_def Let_def intro!: in_same_after split: if_splits option.splits)
qed

lemma st_in_same: "in_same p D D' \<Longrightarrow> st_in D' = st_in D \<and> st_tun D' = st_tun D \<and> dv_routingTable D' = dv_routingTable D"
  by (simp add: in_same_def in_others_def)

lemma receive_element_effect:
  assumes "receive_element ios D p e now = Some D'" "qi_keyPair (st_in D e) = Some k"
    "ValidateCounter (kp_replayFilter (st_keyPair D k)) (qi_counter (st_in D e)) = (flt, ok)"
  obtains D1 where "in_same p (upd_keyPair D k (\<lambda>kp. kp\<lparr>kp_replayFilter := flt\<rparr>)) D1"
    "D' = D1 \<or> (ok \<and> deliver ios D1 p e = Some D')"
proof -
  let ?D = "upd_keyPair D k (\<lambda>kp. kp\<lparr>kp_replayFilter := flt\<rparr>)"
  show ?thesis
  proof (cases ok)
    case False
    with assms have "D' = ?D" by (simp add: receive_element_def)
    then show ?thesis by (intro that [of ?D]) simp_all
  next
    case True
    with assms obtain D1 D2 D3 where run: "TimerAnyAuthenticatedPacketTraversal ?D p now = Some D1"
      "TimerAnyAuthenticatedPacketReceived D1 p = Some D2"
      "confirm_key (KeepKeyFreshReceiving D2 p now) p k = Some D3"
      and last: "(if length (qi_packet (st_in D3 e)) = 0 then Some D3
        else TimerDataReceived D3 p now \<bind> (\<lambda>D. deliver ios D p e)) = Some D'"
      by (auto simp: receive_element_def Let_def split: Option.bind_splits)
    have D3: "in_same p ?D D3"
      using in_same_trans [OF in_same_trans [OF in_same_timers(1) [OF run(1)] in_same_timers(2) [OF run(2)]]
          in_same_trans [OF in_same_timers(4) in_same_confirm [OF run(3)]]] by simp
    show ?thesis
    proof (cases "length (qi_packet (st_in D3 e)) = 0")
      case True
      with last D3 show ?thesis by (intro that [of D3]) simp_all
    next
      case False
      with last obtain D4 where D4: "TimerDataReceived D3 p now = Some D4" "deliver ios D4 p e = Some D'"
        by (auto split: Option.bind_splits)
      with in_same_trans [OF D3 in_same_timers(3)] True show ?thesis by (intro that [of D4]) simp_all
    qed
  qed
qed

lemma open_packet_allowed:
  assumes "open_packet D p packet = Some (Some written)"
  shows "source_allowed (dv_routingTable D) p packet \<and> (\<exists>len. written = take len packet)"
proof -
  consider (v4) "drop_bit 4 (packet ! 0) = 4" "open_ipv4 D p packet = Some (Some written)"
    | (v6) "drop_bit 4 (packet ! 0) = 6" "open_ipv6 D p packet = Some (Some written)"
    using assms by (auto simp: open_packet_def split: if_splits)
  then show ?thesis
  proof cases
    case v4
    let ?len = "unat (get_be16 (take 2 (drop IPv4offsetTotalLength packet)))"
    have "20 \<le> ?len" "written = take ?len packet"
      "rt_LookupIPv4 (dv_routingTable D) (take 4 (drop IPv4offsetSrc (take ?len packet))) = Some (Some p)"
      using v4(2) by (auto simp: open_ipv4_def Let_def split: if_splits option.splits)
    moreover from this(1) have "min 4 (?len - 12) = 4" by (simp add: min_def)
    ultimately show ?thesis
      using v4(1) by (auto simp: source_allowed_def offset_consts drop_take min.commute)
  next
    case v6
    then show ?thesis
      by (auto simp: source_allowed_def open_ipv6_def Let_def offset_consts split: if_splits option.splits)
  qed
qed

lemma deliver_effect:
  assumes "deliver ios D p e = Some D'"
  shows "(D' = D) \<or> (\<exists>len f. source_allowed (dv_routingTable D) p (qi_packet (st_in D e)) \<and>
    D' = (upd_in D e (\<lambda>x. x\<lparr>qi_packet := f\<rparr>))
      \<lparr>st_tun := st_tun D @ [tun_Write ios (take len (qi_packet (st_in D e)))], st_pool := st_pool D'\<rparr>)"
proof (cases "\<exists>written. open_packet D p (qi_packet (st_in D e)) = Some (Some written)")
  case True
  then obtain written where w: "open_packet D p (qi_packet (st_in D e)) = Some (Some written)" by blast
  from open_packet_allowed [OF w] obtain len where len: "source_allowed (dv_routingTable D) p (qi_packet (st_in D e))"
    "written = take len (qi_packet (st_in D e))" by blast
  have "D' = (upd_in D e (\<lambda>x. x\<lparr>qi_packet := written\<rparr>))
      \<lparr>st_tun := st_tun D @ [tun_Write ios written], st_pool := st_pool D'\<rparr>"
    using assms w by (auto simp: deliver_def device_PutMessageBuffer_def upd_in_def)
  with len show ?thesis by metis
next
  case False
  with assms show ?thesis by (auto simp: deliver_def split: option.splits)
qed

section \<open>Steps of the flow\<close>

lemma opened_elem_other:
  assumes "opened_elem C D ds e" "ds \<subseteq> ds'" "st_in D' e = st_in D e" "st_nextKeyPair D \<le> st_nextKeyPair D'"
    "\<And>k. k < st_nextKeyPair D \<Longrightarrow> kp_receive (st_keyPair D' k) = kp_receive (st_keyPair D k)"
  shows "opened_elem C D' ds' e"
  using assms by (fastforce simp: opened_elem_def opens_def)

lemma flow_inv_others:
  assumes "flow_inv C p D pc ds" "in_others p D D'" "ds \<subseteq> ds'"
  shows "flow_inv C p D' pc ds'"
proof -
  note o = assms(2) [unfolded in_others_def]
  have "opened_elem C D ds e \<Longrightarrow> opened_elem C D' ds' e" for e
    by (rule opened_elem_other [of C D ds]) (use o assms(3) in auto)
  moreover have "raw_elem D ds e \<Longrightarrow> raw_elem D' ds' e" for e
    using o assms(3) by (fastforce simp: raw_elem_def)
  moreover have "in_flight D' p pc = in_flight D p pc"
    using o by (simp add: in_flight_def)
  moreover have "e < st_nextElem D \<Longrightarrow> e < st_nextElem D'" for e
    using o by linarith
  ultimately show ?thesis
    using assms(1) o unfolding flow_inv_def by simp (metis order.strict_trans2)
qed

lemma filters_inv_others: "filters_inv D seen \<Longrightarrow> in_others p D D' \<Longrightarrow> filters_inv D' seen"
  unfolding filters_inv_def
proof (intro conjI allI impI)
  fix k
  assume inv: "(\<forall>k < st_nextKeyPair D. kp_replayFilter (st_keyPair D k) =
      fst (checks ValidateCounter (rf_Init zero_filter) (seen k))) \<and> (\<forall>k \<ge> st_nextKeyPair D. seen k = [])"
    and o: "in_others p D D'" and k: "k < st_nextKeyPair D'"
  show "kp_replayFilter (st_keyPair D' k) = fst (checks ValidateCounter (rf_Init zero_filter) (seen k))"
    using inv o k by (cases "k < st_nextKeyPair D") (simp_all add: in_others_def)
qed (auto simp: in_others_def)

text \<open>Adding to a sequential queue changes elements only by dropping them.\<close>

lemma addToInboundQueue_drops:
  assumes "addToInboundQueue q x st = Some (q', st')"
  shows "\<exists>S. st' = (\<lambda>e. if e \<in> S then (st e)\<lparr>qi_dropped := True\<rparr> else st e)"
proof -
  have "r = (\<lambda>st old. Some (qi_Drop st old)) \<longrightarrow>
      (\<exists>S. snd z = (\<lambda>e. if e \<in> S then (g e)\<lparr>qi_dropped := True\<rparr> else g e))"
    if "add_dropping_oldest r p y g = Some z"
    for r :: "'a inbound_store \<Rightarrow> eid \<Rightarrow> 'a inbound_store option" and p y g z
    using that
  proof (rule add_dropping_oldest.raw_induct [where P = "\<lambda>r p y g z. r = (\<lambda>st old. Some (qi_Drop st old)) \<longrightarrow>
      (\<exists>S. snd z = (\<lambda>e. if e \<in> S then (g e)\<lparr>qi_dropped := True\<rparr> else g e))", rotated], intro impI)
    fix f and r :: "'a inbound_store \<Rightarrow> eid \<Rightarrow> 'a inbound_store option" and p y g z
    assume ih: "\<And>r p y g z. f r p y g = Some z \<Longrightarrow> r = (\<lambda>st old. Some (qi_Drop st old)) \<longrightarrow>
        (\<exists>S. snd z = (\<lambda>e. if e \<in> S then (g e)\<lparr>qi_dropped := True\<rparr> else g e))"
      and run: "(case chan_send p y of
          Some queue' \<Rightarrow> Some (queue', g)
        | None \<Rightarrow> (case chan_recv p of
            Some (old, queue') \<Rightarrow>
              (case r g old of None \<Rightarrow> None | Some h' \<Rightarrow> f r queue' y h')
          | None \<Rightarrow> f r p y g)) = Some z"
      and r: "r = (\<lambda>st old. Some (qi_Drop st old))"
    show "\<exists>S. snd z = (\<lambda>e. if e \<in> S then (g e)\<lparr>qi_dropped := True\<rparr> else g e)"
    proof (cases "chan_send p y")
      case (Some q1)
      with run show ?thesis by (auto intro: exI [of _ "{}"])
    next
      case None
      show ?thesis
      proof (cases "chan_recv p")
        case None
        with run \<open>chan_send p y = None\<close> ih r show ?thesis by auto
      next
        case (Some oq)
        with run None r have "f r (snd oq) y (qi_Drop g (fst oq)) = Some z" by (auto split: prod.splits)
        with ih r obtain S where "snd z = (\<lambda>e. if e \<in> S then (qi_Drop g (fst oq) e)\<lparr>qi_dropped := True\<rparr>
            else qi_Drop g (fst oq) e)" by blast
        then show ?thesis by (intro exI [of _ "insert (fst oq) S"]) (auto simp: qi_Drop_def)
      qed
    qed
  qed
  with assms show ?thesis unfolding addToInboundQueue_def by fastforce
qed


lemma flow_inv_change:
  assumes inv: "flow_inv C p D pc ds"
    and grow: "ds \<subseteq> ds'" "st_nextKeyPair D' = st_nextKeyPair D" "st_nextElem D \<le> st_nextElem D'" "indices_made D'"
      "\<And>k. kp_receive (st_keyPair D' k) = kp_receive (st_keyPair D k)"
    and queues: "dec_inv (dv_decryption D', st_in D')" "seq_inv (p_inbound (st_peer D' p), ())"
    and waiting: "\<And>e. e \<in> set (chan_buf (dv_decryption D')) \<Longrightarrow> raw_elem D' ds' e \<or>
      e \<in> set (chan_buf (dv_decryption D)) \<and> qi_packet (st_in D' e) = qi_packet (st_in D e) \<and>
      qi_keyPair (st_in D' e) = qi_keyPair (st_in D e)"
    and flight: "\<And>e. e \<in> in_flight D' p pc' \<Longrightarrow> e \<in> in_flight D p pc \<or> e < st_nextElem D'"
    and opened: "\<And>e. e \<in> in_flight D' p pc' \<Longrightarrow> \<not> qi_locked (st_in D' e) \<Longrightarrow> \<not> qi_dropped (st_in D' e) \<Longrightarrow>
      opened_elem C D' ds' e \<or> st_in D' e = st_in D e \<and> e \<in> in_flight D p pc"
  shows "flow_inv C p D' pc' ds'"
proof -
  have "opened_elem C D ds e \<Longrightarrow> st_in D' e = st_in D e \<Longrightarrow> opened_elem C D' ds' e" for e
    by (rule opened_elem_other [of C D ds]) (use grow in auto)
  then have "opened_elem C D' ds' e"
    if "e \<in> in_flight D' p pc'" "\<not> qi_locked (st_in D' e)" "\<not> qi_dropped (st_in D' e)" for e
    using opened [OF that] that inv by (auto simp: flow_inv_def)
  moreover have "e < st_nextElem D'" if "e \<in> in_flight D' p pc'" for e
    using flight [OF that] inv order.strict_trans2 [OF _ grow(3), of e] by (auto simp: flow_inv_def)
  moreover have "raw_elem D' ds' e" if e: "e \<in> set (chan_buf (dv_decryption D'))" for e
  proof -
    have "qi_locked (st_in D' e)" using queues(1) e by (simp add: dec_inv_def items_of_def)
    with waiting [OF e] inv grow(1,2) order.strict_trans2 [OF _ grow(3), of e] show ?thesis
      by (auto simp: flow_inv_def raw_elem_def)
  qed
  ultimately show ?thesis using queues grow(4) by (simp add: flow_inv_def)
qed

text \<open>The oldest element of the queue after the attempt to open its packet.\<close>

definition opened_to :: "crypto \<Rightarrow> Device \<Rightarrow> eid \<Rightarrow> kid \<Rightarrow> kid QueueInboundElement" where
  "opened_to C D e k =
    (let packet = qi_packet (st_in D e); n = get_le64 (take 8 (drop 8 packet))
     in case aead_open C (kp_receive (st_keyPair D k)) (transport_nonce n) (drop 16 packet) [] of
          None \<Rightarrow> (st_in D e)\<lparr>qi_counter := n, qi_packet := [], qi_dropped := True, qi_locked := False\<rparr>
        | Some plain \<Rightarrow> (st_in D e)\<lparr>qi_counter := n, qi_packet := plain, qi_locked := False\<rparr>)"

lemma decrypted_head:
  assumes inv: "flow_inv C p D pc ds" and q: "chan_recv (dv_decryption D) = Some (e, q)"
  shows "raw_elem D ds e" "e \<notin> set (chan_buf q)" "set (chan_buf q) \<subseteq> set (chan_buf (dv_decryption D))"
    "(\<And>f. f \<in> set (chan_buf q) \<Longrightarrow> st f = st_in D f) \<Longrightarrow> dec_inv (q, st)"
  using inv q by (auto simp: flow_inv_def dec_inv_def items_of_def seq_inv_def chan_ok_def chan_recv_def split: list.splits)

lemma RoutineDecryption_opens:
  assumes run: "RoutineDecryption C D = Some D'" and q: "chan_recv (dv_decryption D) = Some (e, q)"
    and live: "\<not> qi_dropped (st_in D e)" and raw: "raw_elem D ds e" and k: "qi_keyPair (st_in D e) = Some k"
  shows "D' = D\<lparr>dv_decryption := q, st_in := (st_in D)(e := opened_to C D e k)\<rparr>"
proof -
  have pk: "16 \<le> length (qi_packet (st_in D e))" "qi_locked (st_in D e)" using raw by (auto simp: raw_elem_def)
  then have "replicate 4 0 @ take 8 (drop 8 (qi_packet (st_in D e))) =
      transport_nonce (get_le64 (take 8 (drop 8 (qi_packet (st_in D e)))))"
    by (simp add: transport_nonce_def le64_get_le64)
  with run q live k pk show ?thesis
    by (auto simp: RoutineDecryption_def qi_IsDropped_def qi_Drop_def qi_Unlock_def upd_in_def Let_def opened_to_def
        MessageTransportOffsetCounter_def MessageTransportOffsetContent_def split: option.splits if_splits)
qed

lemma opened_to_opens:
  assumes "raw_elem D ds e" "qi_keyPair (st_in D e) = Some k" "\<not> qi_dropped (opened_to C D e k)"
  shows "opened_elem C (D\<lparr>dv_decryption := q, st_in := (st_in D)(e := opened_to C D e k)\<rparr>) ds e"
proof -
  let ?pk = "qi_packet (st_in D e)" and ?x = "opened_to C D e k"
  have "qi_keyPair ?x = Some k" "aead_open C (kp_receive (st_keyPair D k)) (transport_nonce (qi_counter ?x)) (drop 16 ?pk) [] =
      Some (qi_packet ?x)" "qi_counter ?x = get_le64 (take 8 (drop 8 ?pk))"
    using assms(2,3) by (auto simp: opened_to_def Let_def split: option.splits)
  with assms(1,2) show ?thesis by (auto simp: opened_elem_def raw_elem_def opens_def intro!: bexI [of _ ?pk])
qed

lemma RoutineDecryption_flow:
  assumes inv: "flow_inv C p D pc ds" and run: "RoutineDecryption C D = Some D'"
  shows "flow_inv C p D' pc ds \<and> st_tun D' = st_tun D \<and> dv_routingTable D' = dv_routingTable D \<and>
    st_keyPair D' = st_keyPair D \<and> st_nextKeyPair D' = st_nextKeyPair D"
proof -
  obtain e q where q: "chan_recv (dv_decryption D) = Some (e, q)"
    using run by (auto simp: RoutineDecryption_def split: option.splits)
  note head = decrypted_head [OF inv q]
  have rest: "seq_inv (p_inbound (st_peer D p), ())" "indices_made D" using inv by (simp_all add: flow_inv_def)
  show ?thesis
  proof (cases "qi_dropped (st_in D e)")
    case True
    with run q have D': "D' = D\<lparr>dv_decryption := q\<rparr>"
      by (simp add: RoutineDecryption_def qi_IsDropped_def)
    have "flow_inv C p (D\<lparr>dv_decryption := q\<rparr>) pc ds"
      by (rule flow_inv_change [OF inv]) (use rest head(3,4) in \<open>auto simp: in_flight_def indices_made_def\<close>)
    then show ?thesis by (simp add: D')
  next
    case False
    obtain k where k: "qi_keyPair (st_in D e) = Some k" using head(1) unfolding raw_elem_def by blast
    note D' = RoutineDecryption_opens [OF run q False head(1) k]
    have "flow_inv C p D' pc ds" unfolding D'
    proof (rule flow_inv_change [OF inv], goal_cases)
      case 6 then show ?case using head(2,4) by (simp, intro head(4)) auto
    next
      case (8 f) then show ?case using head(2,3) by auto
    next
      case (10 f) then show ?case
        using opened_to_opens [OF head(1) k, of C q] by (cases "f = e") (auto simp: in_flight_def)
    qed (use rest in \<open>auto simp: in_flight_def indices_made_def\<close>)
    then show ?thesis by (simp add: D')
  qed
qed

lemma flow_inv_receiver:
  assumes inv: "flow_inv C p D pc ds" and e: "e \<in> in_flight D p pc" "\<not> qi_locked (st_in D e)"
    and pc': "in_flight D p pc' \<subseteq> in_flight D p pc"
  shows "flow_inv C p (upd_in D e (\<lambda>x. x\<lparr>qi_locked := True\<rparr>)) pc' ds"
proof (rule flow_inv_change [OF inv])
  have dec: "dec_inv (dv_decryption D, st_in D)" using inv by (simp add: flow_inv_def)
  then have "e \<notin> set (chan_buf (dv_decryption D))" using e(2) by (auto simp: dec_inv_def items_of_def)
  with dec show "dec_inv (dv_decryption (upd_in D e (\<lambda>x. x\<lparr>qi_locked := True\<rparr>)),
      st_in (upd_in D e (\<lambda>x. x\<lparr>qi_locked := True\<rparr>)))"
    by (auto simp: upd_in_def dec_inv_def items_of_def seq_inv_def)
qed (use inv pc' in \<open>auto simp: flow_inv_def upd_in_def in_flight_def indices_made_def split: if_splits\<close>)

lemma flow_inv_delivered:
  assumes inv: "flow_inv C p D pc ds" and e: "qi_locked (st_in D e)" "e \<notin> set (chan_buf (dv_decryption D))"
  shows "flow_inv C p ((upd_in D e (\<lambda>x. x\<lparr>qi_packet := f\<rparr>))\<lparr>st_tun := tun, st_pool := pool\<rparr>) pc ds"
proof (rule flow_inv_change [OF inv])
qed (use inv e in \<open>auto simp: flow_inv_def upd_in_def in_flight_def indices_made_def dec_inv_def items_of_def
      seq_inv_def split: if_splits\<close>)


lemma GetMessageBuffer_eq:
  "\<exists>pool n. fst (GetMessageBuffer D) = D\<lparr>st_pool := pool, st_nextBuffer := n\<rparr>"
proof (cases "st_pool D")
  case Nil
  then have "fst (GetMessageBuffer D) = D\<lparr>st_pool := st_pool D, st_nextBuffer := Suc (st_nextBuffer D)\<rparr>"
    by (simp add: GetMessageBuffer_def)
  then show ?thesis by blast
next
  case (Cons b rest)
  then have "fst (GetMessageBuffer D) = D\<lparr>st_pool := rest, st_nextBuffer := st_nextBuffer D\<rparr>"
    by (simp add: GetMessageBuffer_def)
  then show ?thesis by blast
qed

lemma queue_transport_cases:
  assumes "queue_transport D buffer packet now = Some (D', b)" "D' \<noteq> D"
  obtains k q1 st1 p q2 st2 pool n where
    "ie_keyPair (it_Lookup (dv_indices D) (get_le32 (drop 4 packet))) = Some k"
    "addToDecryptionQueue (dv_decryption D) (st_nextElem D) ((st_in D)(st_nextElem D :=
      \<lparr>qi_dropped = False, qi_locked = True, qi_buffer = buffer, qi_packet = packet, qi_counter = 0,
       qi_keyPair = Some k\<rparr>)) = Some (q1, st1)"
    "addToInboundQueue (p_inbound (st_peer D p)) (st_nextElem D) st1 = Some (q2, st2)"
    "D' = (upd_peer D p (\<lambda>r. r\<lparr>p_inbound := q2\<rparr>))\<lparr>st_nextElem := Suc (st_nextElem D), dv_decryption := q1,
      st_in := st2, st_pool := pool, st_nextBuffer := n\<rparr>"
proof -
  let ?entry = "it_Lookup (dv_indices D) (get_le32 (drop 4 packet))"
  obtain k where k: "ie_keyPair ?entry = Some k"
    "\<not> kp_created (st_keyPair D k) + RejectAfterTime < now" "\<not> length packet < unat MessageTransportType"
    using assms by (auto simp: queue_transport_def Let_def MessageTransportOffsetReceiver_def
        split: if_splits option.splits)
  let ?D = "fst (new_inbound D buffer packet k)"
  have e: "snd (new_inbound D buffer packet k) = st_nextElem D" by (simp add: new_inbound_def Let_def)
  have eq: "queue_transport D buffer packet now =
      (case addToDecryptionQueue (dv_decryption D) (st_nextElem D) (st_in ?D) of
         None \<Rightarrow> None
       | Some (q1, st1) \<Rightarrow>
           (case ie_peer ?entry of
             None \<Rightarrow> None
           | Some p \<Rightarrow>
               (case addToInboundQueue (p_inbound (st_peer D p)) (st_nextElem D) st1 of
                 None \<Rightarrow> None
               | Some (q2, st2) \<Rightarrow> Some (GetMessageBuffer
                   ((upd_peer (?D\<lparr>dv_decryption := q1, st_in := st1\<rparr>) p (\<lambda>r. r\<lparr>p_inbound := q2\<rparr>))\<lparr>st_in := st2\<rparr>)))))"
    using k by (auto simp: queue_transport_def Let_def MessageTransportOffsetReceiver_def new_inbound_def
        upd_peer_def split: option.splits)
  obtain q1 st1 p q2 st2 where add:
    "addToDecryptionQueue (dv_decryption D) (st_nextElem D) (st_in ?D) = Some (q1, st1)"
    "addToInboundQueue (p_inbound (st_peer D p)) (st_nextElem D) st1 = Some (q2, st2)"
    and D': "D' = fst (GetMessageBuffer
        ((upd_peer (?D\<lparr>dv_decryption := q1, st_in := st1\<rparr>) p (\<lambda>r. r\<lparr>p_inbound := q2\<rparr>))\<lparr>st_in := st2\<rparr>))"
    using assms(1) unfolding eq by (auto split: option.splits prod.splits)
  obtain pool n where "D' = ((upd_peer (?D\<lparr>dv_decryption := q1, st_in := st1\<rparr>) p
      (\<lambda>r. r\<lparr>p_inbound := q2\<rparr>))\<lparr>st_in := st2\<rparr>)\<lparr>st_pool := pool, st_nextBuffer := n\<rparr>"
    using GetMessageBuffer_eq D' by metis
  with k(1) add show ?thesis
    by (intro that [where k = k and ?q1.0 = q1 and ?st1.0 = st1 and p = p and ?q2.0 = q2 and ?st2.0 = st2
        and pool = pool and n = n]) (simp_all add: new_inbound_def Let_def upd_peer_def)
qed

text \<open>The device after a datagram was queued as the new element \<open>x\<close>: older elements may have been dropped.\<close>

definition arrived :: "pid \<Rightarrow> Device \<Rightarrow> kid QueueInboundElement \<Rightarrow> Device \<Rightarrow> bool" where
  "arrived p D x D' \<longleftrightarrow> (let e = st_nextElem D; st = (st_in D)(e := x) in
    st_nextElem D' = Suc e \<and> st_tun D' = st_tun D \<and> dv_routingTable D' = dv_routingTable D \<and>
    st_keyPair D' = st_keyPair D \<and> st_nextKeyPair D' = st_nextKeyPair D \<and> dv_indices D' = dv_indices D \<and>
    dec_inv (dv_decryption D', st_in D') \<and> seq_inv (p_inbound (st_peer D' p), ()) \<and>
    set (chan_buf (dv_decryption D')) \<subseteq> insert e (set (chan_buf (dv_decryption D))) \<and>
    set (chan_buf (p_inbound (st_peer D' p))) \<subseteq> insert e (set (chan_buf (p_inbound (st_peer D p)))) \<and>
    qi_locked (st_in D' e) \<and>
    (\<forall>f. qi_packet (st_in D' f) = qi_packet (st f) \<and> qi_keyPair (st_in D' f) = qi_keyPair (st f) \<and>
      (\<not> qi_dropped (st_in D' f) \<longrightarrow> st_in D' f = st f)))"

lemma flow_inv_arrived:
  assumes inv: "flow_inv C p D pc ds" and arr: "arrived p D x D'"
    and x: "qi_packet x = packet" "qi_keyPair x = Some k" "k < st_nextKeyPair D"
    and packet: "16 \<le> length packet" "get_le32 packet = MessageTransportType"
  shows "flow_inv C p D' pc (insert packet ds)"
proof -
  let ?e = "st_nextElem D"
  note arr' = arr [unfolded arrived_def Let_def]
  have flight: "f \<in> insert ?e (in_flight D p pc)" if "f \<in> in_flight D' p pc" for f
    using that arr' by (auto simp: in_flight_def)
  have raw: "raw_elem D' (insert packet ds) f \<or> f \<in> set (chan_buf (dv_decryption D)) \<and>
      qi_packet (st_in D' f) = qi_packet (st_in D f) \<and> qi_keyPair (st_in D' f) = qi_keyPair (st_in D f)"
    if "f \<in> set (chan_buf (dv_decryption D'))" for f
  proof (cases "f = ?e")
    case True
    with arr' x packet show ?thesis by (simp add: raw_elem_def)
  next
    case False
    with arr' that show ?thesis by auto
  qed
  have opened: "opened_elem C D' (insert packet ds) f \<or> st_in D' f = st_in D f \<and> f \<in> in_flight D p pc"
    if "f \<in> in_flight D' p pc" "\<not> qi_locked (st_in D' f)" "\<not> qi_dropped (st_in D' f)" for f
  proof -
    have "f \<noteq> ?e" using that(2) arr' by blast
    with that(3) flight [OF that(1)] arr' show ?thesis by auto
  qed
  show ?thesis
  proof (rule flow_inv_change [OF inv _ _ _ _ _ _ _ raw _ opened])
    show "f \<in> in_flight D p pc \<or> f < st_nextElem D'" if "f \<in> in_flight D' p pc" for f
      using flight [OF that] arr' by auto
  qed (use inv arr' in \<open>auto simp: flow_inv_def indices_made_def\<close>)
qed

lemma decryption_added:
  assumes inv: "dec_inv (q, st)" "e \<notin> set (chan_buf q)" and x: "qi_locked x" and add: "addToDecryptionQueue q e (st(e := x)) = Some (q1, st1)"
  shows "dec_inv (q1, st1)" "set (chan_buf q1) \<subseteq> insert e (set (chan_buf q))" "st1 e = x"
    "st1 f = (st(e := x)) f \<or> st1 f = (st f)\<lparr>qi_dropped := True, qi_locked := False\<rparr>"
proof -
  have start: "dec_inv (q, st(e := x))" "dec_fits (q, st(e := x)) e"
    using inv x by (auto simp: dec_inv_def dec_fits_def items_of_def seq_inv_def)
  define n where "n = Suc (length (chan_buf q)) - chan_cap q"
  have eff: "dec_inv (q1, st1)" "chan_buf q1 = drop n (chan_buf q @ [e])"
    "\<And>f. st1 f = (if f \<in> set (take n (chan_buf q)) then ((st(e := x)) f)\<lparr>qi_dropped := True, qi_locked := False\<rparr>
      else (st(e := x)) f)"
    using decryption_contract [OF start] add unfolding n_def by (auto simp del: drop_append take_append fun_upd_apply)
  show "dec_inv (q1, st1)" by (fact eff(1))
  show "set (chan_buf q1) \<subseteq> insert e (set (chan_buf q))"
    using set_drop_subset [of n "chan_buf q @ [e]"] eff(2) by auto
  show "st1 e = x" using eff(3) [of e] inv(2) in_set_takeD [of e n] by auto
  show "st1 f = (st(e := x)) f \<or> st1 f = (st f)\<lparr>qi_dropped := True, qi_locked := False\<rparr>"
    using eff(3) [of f] inv(2) in_set_takeD [of e n] by auto
qed

lemma inbound_added:
  assumes "seq_inv (q, ())" "addToInboundQueue q e st = Some (q', st')"
  shows "seq_inv (q', ())" "set (chan_buf q') \<subseteq> insert e (set (chan_buf q))"
proof -
  have "q' = pushed q e"
    using assms(2) add_pushed [OF assms(1), of "\<lambda>st old. Some (qi_Drop st old)" st
        "if length (chan_buf q) = chan_cap q then qi_Drop st (hd (chan_buf q)) else st" e]
    unfolding addToInboundQueue_def by simp
  then show "seq_inv (q', ())" "set (chan_buf q') \<subseteq> insert e (set (chan_buf q))"
    using seq_inv_pushed [OF assms(1)] by (auto dest: set_pushed)
qed

lemma queue_transport_arrived:
  assumes inv: "flow_inv C p D pc ds" and run: "queue_transport D buffer packet now = Some (D', b)" "D' \<noteq> D"
  obtains k where "k < st_nextKeyPair D" "arrived p D \<lparr>qi_dropped = False, qi_locked = True, qi_buffer = buffer,
    qi_packet = packet, qi_counter = 0, qi_keyPair = Some k\<rparr> D'"
proof -
  let ?e = "st_nextElem D"
  obtain k q1 st1 p' q2 st2 pool n where
    k: "ie_keyPair (it_Lookup (dv_indices D) (get_le32 (drop 4 packet))) = Some k"
    and add: "addToDecryptionQueue (dv_decryption D) ?e ((st_in D)(?e :=
      \<lparr>qi_dropped = False, qi_locked = True, qi_buffer = buffer, qi_packet = packet, qi_counter = 0,
       qi_keyPair = Some k\<rparr>)) = Some (q1, st1)"
    "addToInboundQueue (p_inbound (st_peer D p')) ?e st1 = Some (q2, st2)"
    and D': "D' = (upd_peer D p' (\<lambda>r. r\<lparr>p_inbound := q2\<rparr>))\<lparr>st_nextElem := Suc ?e, dv_decryption := q1,
      st_in := st2, st_pool := pool, st_nextBuffer := n\<rparr>"
    by (rule queue_transport_cases [OF run])
  let ?x = "\<lparr>qi_dropped = False, qi_locked = True, qi_buffer = buffer, qi_packet = packet, qi_counter = 0, qi_keyPair = Some k\<rparr>"
  have dec: "dec_inv (dv_decryption D, st_in D)" "?e \<notin> set (chan_buf (dv_decryption D))" "seq_inv (p_inbound (st_peer D p), ())"
    "k < st_nextKeyPair D"
    using inv k by (auto simp: flow_inv_def raw_elem_def indices_made_def)
  note q1 = decryption_added [OF dec(1,2) _ add(1), simplified]
  obtain S where S: "st2 = (\<lambda>f. if f \<in> S then (st1 f)\<lparr>qi_dropped := True\<rparr> else st1 f)"
    using addToInboundQueue_drops [OF add(2)] by blast
  have "dec_inv (q1, st2)" using q1(1) by (auto simp: S dec_inv_def items_of_def seq_inv_def)
  moreover have "seq_inv (p_inbound (st_peer D' p), ())"
    "set (chan_buf (p_inbound (st_peer D' p))) \<subseteq> insert ?e (set (chan_buf (p_inbound (st_peer D p))))"
    using dec(3) inbound_added [of "p_inbound (st_peer D p')", OF _ add(2)] by (auto simp: D' upd_peer_def)
  moreover have "qi_packet (st2 f) = qi_packet (((st_in D)(?e := ?x)) f) \<and> qi_keyPair (st2 f) = qi_keyPair (((st_in D)(?e := ?x)) f) \<and>
      (\<not> qi_dropped (st2 f) \<longrightarrow> st2 f = ((st_in D)(?e := ?x)) f)" for f
    using q1(3) q1(4) [of f] by (cases "f = ?e") (auto simp: S)
  ultimately have "arrived p D ?x D'"
    using q1(2,3) by (simp add: arrived_def D') (simp add: S upd_peer_def)
  with dec(4) that show ?thesis by blast
qed

lemma queue_transport_flow:
  assumes inv: "flow_inv C p D pc ds" and run: "queue_transport D buffer packet now = Some (D', b)"
    and packet: "16 \<le> length packet" "get_le32 packet = MessageTransportType"
  shows "flow_inv C p D' pc (insert packet ds) \<and> st_tun D' = st_tun D \<and> dv_routingTable D' = dv_routingTable D \<and>
    st_keyPair D' = st_keyPair D \<and> st_nextKeyPair D' = st_nextKeyPair D"
proof (cases "D' = D")
  case True
  with flow_inv_others [OF inv, of D "insert packet ds"] show ?thesis by auto
next
  case False
  from queue_transport_arrived [OF inv run False] obtain k where k: "k < st_nextKeyPair D" "arrived p D \<lparr>qi_dropped = False,
      qi_locked = True, qi_buffer = buffer, qi_packet = packet, qi_counter = 0, qi_keyPair = Some k\<rparr> D'" .
  with flow_inv_arrived [OF inv k(2) _ _ k(1) packet] show ?thesis by (simp add: arrived_def Let_def)
qed

lemma handleUDP_flow:
  assumes inv: "flow_inv C p D pc ds" and run: "handleUDP D buffer packet raddr now = Some (D', b)"
  shows "flow_inv C p D' pc (insert packet ds) \<and> st_tun D' = st_tun D \<and> dv_routingTable D' = dv_routingTable D \<and>
    st_keyPair D' = st_keyPair D \<and> st_nextKeyPair D' = st_nextKeyPair D"
proof (cases "MinMessageSize \<le> length packet \<and> get_le32 packet = MessageTransportType")
  case True
  then have "queue_transport D buffer packet now = Some (D', b)" "16 \<le> length packet"
    using run by (simp_all add: handleUDP_def size_consts)
  with queue_transport_flow [OF inv] True show ?thesis by blast
next
  case False
  have "\<exists>q pool n. D' = D\<lparr>dv_handshakeQueue := q, st_pool := pool, st_nextBuffer := n\<rparr>"
  proof (cases "D' = D")
    case True
    then show ?thesis by (intro exI [of _ "dv_handshakeQueue D"] exI [of _ "st_pool D"] exI [of _ "st_nextBuffer D"]) simp
  next
    case changed: False
    with run False obtain q pool where "GetMessageBuffer (D\<lparr>dv_handshakeQueue := q, st_pool := pool\<rparr>) = (D', b)"
      by (auto simp: handleUDP_def Let_def split: if_splits option.splits)
    with GetMessageBuffer_eq [of "D\<lparr>dv_handshakeQueue := q, st_pool := pool\<rparr>"] show ?thesis by auto
  qed
  then obtain q pool n where D': "D' = D\<lparr>dv_handshakeQueue := q, st_pool := pool, st_nextBuffer := n\<rparr>" by blast
  have "in_others p D D'" by (simp add: D' in_others_def indices_made_def)
  from flow_inv_others [OF inv this, of "insert packet ds"] show ?thesis by (auto simp: D')
qed

section \<open>The invariant holds\<close>

lemma deliveries_kept:
  assumes "list_all2 (delivery_ok C ios p D ds) xs ys" "ds \<subseteq> ds'" "st_nextKeyPair D \<le> st_nextKeyPair D'"
    "\<And>k. k < st_nextKeyPair D \<Longrightarrow> kp_receive (st_keyPair D' k) = kp_receive (st_keyPair D k)"
  shows "list_all2 (delivery_ok C ios p D' ds') xs ys"
  using assms(1)
proof (rule list_all2_mono)
  show "delivery_ok C ios p D ds d w \<Longrightarrow> delivery_ok C ios p D' ds' d w" for d w
    using assms(2-4) order.strict_trans2 [OF _ assms(3), of "dl_key d"] by (auto simp: delivery_ok_def opens_def)
qed

lemma delivered_inv_change:
  assumes "delivered_inv C ios p s"
    "is_written s' = is_written s" "is_delivered s' = is_delivered s" "is_seen s' = is_seen s"
    "is_datagrams s \<subseteq> is_datagrams s'" "st_nextKeyPair (is_dev s) \<le> st_nextKeyPair (is_dev s')"
    "\<And>k. k < st_nextKeyPair (is_dev s) \<Longrightarrow> kp_receive (st_keyPair (is_dev s') k) = kp_receive (st_keyPair (is_dev s) k)"
  shows "delivered_inv C ios p s'"
  using assms deliveries_kept [OF _ assms(5-7)] by (simp add: delivered_inv_def)

lemma in_inv_others:
  assumes "in_inv C ios p s" "in_others p (is_dev s) D"
  shows "in_inv C ios p (s\<lparr>is_dev := D\<rparr>)"
proof -
  have "delivered_inv C ios p (s\<lparr>is_dev := D\<rparr>)"
    by (rule delivered_inv_change [of C ios p s]) (use assms in \<open>auto simp: in_inv_def in_others_def\<close>)
  with assms flow_inv_others [of C p "is_dev s" _ _ D "is_datagrams s"] filters_inv_others show ?thesis
    by (auto simp: in_inv_def)
qed

lemma in_inv_quiet:
  assumes "in_inv C ios p s" "is_written s' = is_written s" "is_delivered s' = is_delivered s" "is_seen s' = is_seen s"
    "is_datagrams s \<subseteq> is_datagrams s'" "st_keyPair (is_dev s') = st_keyPair (is_dev s)"
    "st_nextKeyPair (is_dev s') = st_nextKeyPair (is_dev s)"
    "flow_inv C p (is_dev s') (is_receiver s') (is_datagrams s')"
  shows "in_inv C ios p s'"
  using assms delivered_inv_change [of C ios p s s'] by (simp add: in_inv_def filters_inv_def)

text \<open>The filter takes the counter of an element, and the rest of the program what follows from it.\<close>

lemma counter_checked:
  assumes flow: "flow_inv C p D pc ds" and filters: "filters_inv D seen" and k: "k < st_nextKeyPair D"
    and check: "ValidateCounter (kp_replayFilter (st_keyPair D k)) n = (flt, ok)"
    and D2: "in_same p (upd_keyPair D k (\<lambda>kp. kp\<lparr>kp_replayFilter := flt\<rparr>)) D2"
  shows "flow_inv C p D2 pc ds" "filters_inv D2 (seen(k := seen k @ [n]))"
    "accepted ((seen(k := seen k @ [n])) i) = accepted (seen i) @ (if i = k \<and> ok then [n] else [])"
    "st_in D2 = st_in D" "st_tun D2 = st_tun D" "dv_routingTable D2 = dv_routingTable D" "dv_decryption D2 = dv_decryption D"
    "st_nextKeyPair D \<le> st_nextKeyPair D2" "j < st_nextKeyPair D \<Longrightarrow> kp_receive (st_keyPair D2 j) = kp_receive (st_keyPair D j)"
proof -
  let ?D1 = "upd_keyPair D k (\<lambda>kp. kp\<lparr>kp_replayFilter := flt\<rparr>)"
  have "flow_inv C p ?D1 pc ds"
    by (rule flow_inv_change [OF flow]) (use flow in \<open>auto simp: flow_inv_def upd_keyPair_def in_flight_def indices_made_def\<close>)
  then show "flow_inv C p D2 pc ds" using flow_inv_others [of C p ?D1 pc ds D2 ds] D2 by (simp add: in_same_def)
  have now: "ValidateCounter (fst (checks ValidateCounter (rf_Init zero_filter) (seen k))) n = (flt, ok)"
    using check k filters by (simp add: filters_inv_def)
  then show "accepted ((seen(k := seen k @ [n])) i) = accepted (seen i) @ (if i = k \<and> ok then [n] else [])"
    by (simp add: accepted_snoc)
  have "filters_inv ?D1 (seen(k := seen k @ [n]))"
    using filters now k by (auto simp: filters_inv_def upd_keyPair_def checks_snoc)
  then show "filters_inv D2 (seen(k := seen k @ [n]))"
    using filters_inv_others D2 by (auto simp: in_same_def)
  show "st_in D2 = st_in D" "st_tun D2 = st_tun D" "dv_routingTable D2 = dv_routingTable D" "dv_decryption D2 = dv_decryption D"
    "st_nextKeyPair D \<le> st_nextKeyPair D2" "j < st_nextKeyPair D \<Longrightarrow> kp_receive (st_keyPair D2 j) = kp_receive (st_keyPair D j)"
    using D2 by (auto simp: in_same_def in_others_def upd_keyPair_def)
qed

text \<open>What the receiver does with the record of the system after an element that was decrypted.\<close>

definition received :: "in_system \<Rightarrow> Device \<Rightarrow> eid \<Rightarrow> kid \<Rightarrow> Device \<Rightarrow> in_system" where
  "received s D e k D' = s\<lparr>is_dev := D', is_receiver := Next_inbound,
    is_seen := (is_seen s)(k := is_seen s k @ [qi_counter (st_in D e)]),
    is_delivered := is_delivered s @ (if drop (length (st_tun D)) (st_tun D') = [] then [] else
      [\<lparr>dl_key = k, dl_counter = qi_counter (st_in D e), dl_content = qi_packet (st_in D e), dl_routes = dv_routingTable D\<rparr>]),
    is_written := is_written s @ drop (length (st_tun D)) (st_tun D')\<rparr>"

lemma receive_element_inv:
  assumes inv: "in_inv C ios p s" and flow: "flow_inv C p D Next_inbound (is_datagrams s)"
    and D: "st_keyPair D = st_keyPair (is_dev s)" "st_nextKeyPair D = st_nextKeyPair (is_dev s)"
    and e: "qi_locked (st_in D e)" "e \<notin> set (chan_buf (dv_decryption D))" "qi_keyPair (st_in D e) = Some k"
      "k < st_nextKeyPair D" "packet \<in> is_datagrams s"
      "opens C (st_keyPair D k) (qi_counter (st_in D e)) packet (qi_packet (st_in D e))"
    and run: "receive_element ios D p e now = Some D'"
  shows "in_inv C ios p (received s D e k D')"
proof -
  let ?n = "qi_counter (st_in D e)" and ?pk = "qi_packet (st_in D e)" and ?s = "received s D e k D'"
  obtain flt ok where check: "ValidateCounter (kp_replayFilter (st_keyPair D k)) ?n = (flt, ok)"
    by (metis surj_pair)
  obtain D2 where D2: "in_same p (upd_keyPair D k (\<lambda>kp. kp\<lparr>kp_replayFilter := flt\<rparr>)) D2"
    "D' = D2 \<or> (ok \<and> deliver ios D2 p e = Some D')"
    by (rule receive_element_effect [OF run e(3) check])
  have "filters_inv D (is_seen s)" using inv D by (simp add: in_inv_def filters_inv_def)
  note after = counter_checked [OF flow this e(4) check D2(1)]
  have seen: "is_seen ?s = (is_seen s)(k := is_seen s k @ [?n])" by (simp add: received_def)
  have del: "list_all2 (delivery_ok C ios p D2 (is_datagrams s)) (is_delivered s) (is_written s)"
    and order: "subseq (map dl_counter (filter (\<lambda>d. dl_key d = i) (is_delivered s))) (accepted (is_seen s i))" for i
    using inv deliveries_kept [OF _ subset_refl, of C ios p "is_dev s" _ _ _ D2] after(8,9) D
    by (auto simp: in_inv_def delivered_inv_def)
  consider (none) "D' = D2" | (sent) len f where "ok" "source_allowed (dv_routingTable D) p ?pk"
    "D' = (upd_in D2 e (\<lambda>x. x\<lparr>qi_packet := f\<rparr>))
      \<lparr>st_tun := st_tun D @ [tun_Write ios (take len ?pk)], st_pool := st_pool D'\<rparr>"
    using D2(2) deliver_effect [of ios D2 p e D'] after(4-6) by auto
  then show ?thesis
  proof cases
    case none
    have "subseq (map dl_counter (filter (\<lambda>d. dl_key d = i) (is_delivered s))) (accepted (is_seen ?s i))" for i
      unfolding seen after(3) using order [of i] by (rule subseq_rev_drop_many)
    with del after(1,2) show ?thesis
      unfolding in_inv_def delivered_inv_def seen by (simp add: received_def none after(5))
  next
    case sent
    have flow3: "flow_inv C p D' Next_inbound (is_datagrams s)"
      by (subst sent(3), rule flow_inv_delivered [OF after(1)]) (use e after(4,7) in auto)
    have keys3: "st_keyPair D' = st_keyPair D2" "st_nextKeyPair D' = st_nextKeyPair D2"
      "st_tun D' = st_tun D @ [tun_Write ios (take len ?pk)]"
      by (subst sent(3), simp add: upd_in_def)+
    let ?d = "\<lparr>dl_key = k, dl_counter = ?n, dl_content = ?pk, dl_routes = dv_routingTable D\<rparr>"
    have "delivery_ok C ios p D2 (is_datagrams s) ?d (tun_Write ios (take len ?pk))"
      using e(4-6) sent(2) after(8,9) by (auto simp: delivery_ok_def opens_def)
    with del have "list_all2 (delivery_ok C ios p D2 (is_datagrams s)) (is_delivered s @ [?d])
        (is_written s @ [tun_Write ios (take len ?pk)])"
      by (intro list_all2_appendI) simp_all
    moreover have "delivery_ok C ios p D' = delivery_ok C ios p D2"
      by (simp add: delivery_ok_def fun_eq_iff keys3(1,2))
    moreover have "subseq (map dl_counter (filter (\<lambda>d. dl_key d = i) (is_delivered s @ [?d]))) (accepted (is_seen ?s i))" for i
      unfolding seen after(3) using order [of i] sent(1) by (auto intro: list_emb_append_mono)
    moreover have "filters_inv D' (is_seen ?s)"
      using after(2) unfolding seen by (simp add: filters_inv_def keys3)
    ultimately show ?thesis
      using flow3 by (simp add: in_inv_def delivered_inv_def) (simp add: received_def keys3(3))
  qed
qed

lemma in_step_next:
  assumes inv: "in_inv C ios p s" and pc: "is_receiver s = Next_inbound"
    and step: "in_step C ios p (Receive_step now) s = Some s'"
  shows "in_inv C ios p s'"
proof -
  let ?D = "is_dev s"
  obtain e q where q: "chan_recv (p_inbound (st_peer ?D p)) = Some (e, q)"
    using step pc by (auto split: option.splits)
  let ?D' = "upd_peer ?D p (\<lambda>r. r\<lparr>p_inbound := q\<rparr>)"
  have s': "s' = s\<lparr>is_dev := ?D', is_receiver := Lock_inbound e\<rparr>"
    using step pc q by (auto simp: asked_def upd_peer_def)
  have flow: "flow_inv C p ?D Next_inbound (is_datagrams s)" using inv pc by (simp add: in_inv_def)
  have "flow_inv C p ?D' (Lock_inbound e) (is_datagrams s)"
    by (rule flow_inv_change [OF flow])
      (use flow q in \<open>auto simp: flow_inv_def upd_peer_def in_flight_def indices_made_def chan_recv_def
        seq_inv_def chan_ok_def split: list.splits\<close>)
  then show ?thesis
    by (intro in_inv_quiet [OF inv]) (simp_all add: s' upd_peer_def)
qed

lemma in_step_lock:
  assumes inv: "in_inv C ios p s" and pc: "is_receiver s = Lock_inbound e"
    and step: "in_step C ios p (Receive_step now) s = Some s'"
  shows "in_inv C ios p s'"
proof -
  let ?D = "is_dev s" and ?D1 = "upd_in (is_dev s) e (\<lambda>x. x\<lparr>qi_locked := True\<rparr>)"
  have unlocked: "\<not> qi_locked (st_in ?D e)" using step pc by (auto split: if_splits)
  have flow: "flow_inv C p ?D (Lock_inbound e) (is_datagrams s)" using inv pc by (simp add: in_inv_def)
  have flow1: "flow_inv C p ?D1 Next_inbound (is_datagrams s)"
    by (rule flow_inv_receiver [OF flow]) (use unlocked in \<open>auto simp: in_flight_def\<close>)
  show ?thesis
  proof (cases "qi_dropped (st_in ?D e)")
    case True
    have s': "s' = s\<lparr>is_dev := ?D1, is_receiver := Next_inbound\<rparr>"
      using step pc unlocked True by (auto simp: asked_def upd_in_def qi_IsDropped_def)
    with flow1 show ?thesis by (intro in_inv_quiet [OF inv]) (simp_all add: s' upd_in_def)
  next
    case False
    with flow unlocked have "opened_elem C ?D (is_datagrams s) e" by (simp add: flow_inv_def in_flight_def)
    then obtain k packet where k: "qi_keyPair (st_in ?D e) = Some k" "k < st_nextKeyPair ?D" "packet \<in> is_datagrams s"
      "opens C (st_keyPair ?D k) (qi_counter (st_in ?D e)) packet (qi_packet (st_in ?D e))"
      unfolding opened_elem_def by blast
    obtain D' where D': "receive_element ios ?D1 p e now = Some D'"
      using step pc unlocked False by (auto simp: upd_in_def qi_IsDropped_def split: option.splits)
    have s': "s' = received s ?D1 e k D'"
      using step pc unlocked False D' k(1)
      by (auto simp: received_def asked_def delivery_of_def upd_in_def qi_IsDropped_def Let_def)
    from unlocked have out: "e \<notin> set (chan_buf (dv_decryption ?D))"
      using flow by (auto simp: flow_inv_def dec_inv_def items_of_def)
    show ?thesis unfolding s'
      by (rule receive_element_inv [OF inv flow1 _ _ _ _ _ _ k(3) _ D'])
        (use k out in \<open>simp_all add: upd_in_def\<close>)
  qed
qed

lemma in_step_receive:
  assumes "in_inv C ios p s" "in_step C ios p (Receive_step now) s = Some s'"
  shows "in_inv C ios p s'"
  using assms in_step_next in_step_lock by (cases "is_receiver s") blast+

lemma in_reachable_inv: "in_reachable C ios p s \<Longrightarrow> in_inv C ios p s"
proof (induction rule: in_reachable.induct)
  case (start D)
  obtain D' b where D': "GetMessageBuffer D = (D', b)" by (metis surj_pair)
  then obtain pool n where pool: "D' = D\<lparr>st_pool := pool, st_nextBuffer := n\<rparr>"
    using GetMessageBuffer_eq [of D] by auto
  from start show ?case
    by (auto simp: in_init_def D' pool in_start_def in_inv_def flow_inv_def filters_inv_def delivered_inv_def
        dec_inv_def seq_inv_def chan_ok_def items_of_def in_flight_def indices_made_def)
next
  case (step s ev s')
  show ?case
  proof (cases ev)
    case (Datagram packet raddr now)
    with step.hyps obtain D b where D: "handleUDP (is_dev s) (is_buffer s) packet raddr now = Some (D, b)"
      and s': "s' = s\<lparr>is_dev := D, is_buffer := b, is_datagrams := insert packet (is_datagrams s)\<rparr>"
      by (auto split: option.splits)
    from handleUDP_flow [OF _ D] step.IH show ?thesis
      by (intro in_inv_quiet [OF step.IH]) (auto simp: in_inv_def s')
  next
    case Decrypt_step
    with step.hyps obtain D where D: "RoutineDecryption C (is_dev s) = Some D" and s': "s' = s\<lparr>is_dev := D\<rparr>"
      by auto
    from RoutineDecryption_flow [OF _ D] step.IH show ?thesis
      by (intro in_inv_quiet [OF step.IH]) (auto simp: in_inv_def s')
  next
    case (Receive_step now)
    with step.hyps in_step_receive [OF step.IH] show ?thesis by blast
  qed
qed (rule in_inv_others)


section \<open>Properties\<close>

lemma distinct_by_class:
  "(\<And>k. distinct (map f (filter (\<lambda>d. g d = k) xs))) \<Longrightarrow> distinct (map (\<lambda>d. (g d, f d)) xs)"
proof (induction xs)
  case (Cons x xs)
  have "distinct (map f (filter (\<lambda>d. g d = k) xs))" for k
    using Cons.prems [of k] by (auto split: if_splits)
  moreover have "(g x, f x) \<notin> (\<lambda>d. (g d, f d)) ` set xs"
    using Cons.prems [of "g x"] by auto
  ultimately show ?case using Cons.IH by simp
qed simp

text \<open>
  C4: whatever datagrams arrive, and however the inbound routines interleave with each other and
  with the rest of the program, every packet the receiver of a peer writes to the TUN device is
  cut from a content that some datagram opens to under one of the key pairs, its source address
  is routed to that peer, and no counter of a key pair is delivered twice.
\<close>

theorem delivered_packets_authentic:
  assumes "in_reachable C ios p s"
  shows "length (is_written s) = length (is_delivered s) \<and>
    (\<forall>j < length (is_delivered s). let d = is_delivered s ! j in
      source_allowed (dl_routes d) p (dl_content d) \<and>
      (\<exists>len. is_written s ! j = tun_Write ios (take len (dl_content d))) \<and>
      (\<exists>packet \<in> is_datagrams s. opens C (st_keyPair (is_dev s) (dl_key d)) (dl_counter d) packet (dl_content d))) \<and>
    distinct (map (\<lambda>d. (dl_key d, dl_counter d)) (is_delivered s))"
proof -
  have del: "delivered_inv C ios p s"
    using in_reachable_inv [OF assms] by (simp add: in_inv_def)
  then have "distinct (map dl_counter (filter (\<lambda>d. dl_key d = k) (is_delivered s)))" for k
    unfolding delivered_inv_def by (meson subseq_distinct distinct_accepted)
  then have "distinct (map (\<lambda>d. (dl_key d, dl_counter d)) (is_delivered s))"
    by (rule distinct_by_class)
  moreover have "list_all2 (delivery_ok C ios p (is_dev s) (is_datagrams s)) (is_delivered s) (is_written s)"
    using del by (simp add: delivered_inv_def)
  ultimately show ?thesis by (simp add: list_all2_conv_all_nth delivery_ok_def Let_def)
qed

text \<open>A peer with one key pair, known under the index 7, to which every address is routed.\<close>

definition lenient_crypto :: crypto where
  "lenient_crypto = toy_crypto\<lparr>aead_refuses := (\<lambda>_ _ _ _. False)\<rparr>"

definition listening_device :: Device where
  "listening_device = zero_device\<lparr>dv_decryption := make_chan QueueInboundSize, st_nextKeyPair := 1,
    dv_routingTable := \<lparr>rt_IPv4 = the (Insert Nil_Trie [0, 0, 0, 0] 0 (Some 0)), rt_IPv6 = Nil_Trie\<rparr>,
    dv_indices := [7 \<mapsto> \<lparr>ie_peer = Some 0, ie_handshake = None, ie_keyPair = Some 0\<rparr>],
    st_keyPair := (\<lambda>k. (st_keyPair zero_device k)\<lparr>kp_created := noon, kp_replayFilter := rf_Init zero_filter\<rparr>),
    st_peer := (\<lambda>_. zero_peer\<lparr>p_hasDevice := True, p_timer := new_timers 0, p_signal := new_signals,
      p_keyPairs := \<lparr>ks_current = Some 0, ks_previous = None, ks_next = None\<rparr>,
      p_inbound := make_chan QueueInboundSize\<rparr>)\<rparr>"

definition ping_content :: bytes where
  "ping_content = [69, 0, 0, 20] @ replicate 8 0 @ [10, 0, 0, 2, 10, 0, 0, 1]"

definition ping_packet :: bytes where
  "ping_packet = transport_header 7 0 @ aead_seal toy_crypto [] (transport_nonce 0) ping_content []"

definition ping_events :: "in_event list" where
  "ping_events = [Datagram ping_packet \<lparr>ua_IP = [10, 0, 0, 9], ua_Port = 1\<rparr> noon, Decrypt_step,
    Receive_step noon, Receive_step noon]"

fun in_run :: "crypto \<Rightarrow> bool \<Rightarrow> pid \<Rightarrow> in_event list \<Rightarrow> in_system \<Rightarrow> in_system option" where
  "in_run C ios p [] s = Some s"
| "in_run C ios p (ev # evs) s = (case in_step C ios p ev s of None \<Rightarrow> None | Some s' \<Rightarrow> in_run C ios p evs s')"

lemma in_run_reachable:
  "in_reachable C ios p s \<Longrightarrow> in_run C ios p evs s = Some s' \<Longrightarrow> in_reachable C ios p s'"
  by (induction evs arbitrary: s) (auto split: option.splits intro: in_reachable.step)

lemma listening_start: "in_start 0 listening_device"
  by (simp add: in_start_def listening_device_def make_chan_def size_consts indices_made_def it_Lookup_def
      zero_entry_def)

text \<open>The datagram arrives twice and is delivered once.\<close>

lemma ping_run:
  "map_option (\<lambda>s. is_written s = [ping_content] \<and> map dl_counter (is_delivered s) = [0] \<and> is_seen s 0 = [0, 0])
    (in_run lenient_crypto False 0 (ping_events @ ping_events) (in_init listening_device)) = Some True"
  by code_simp

theorem delivered_packets_authentic_witness:
  "\<exists>s :: in_system. is_written s = [ping_content] \<and>
    source_allowed (dl_routes (is_delivered s ! 0)) 0 (dl_content (is_delivered s ! 0)) \<and>
    distinct (map (\<lambda>d. (dl_key d, dl_counter d)) (is_delivered s))"
proof -
  obtain s where run: "in_run lenient_crypto False 0 (ping_events @ ping_events) (in_init listening_device) = Some s"
    and s: "is_written s = [ping_content]" "map dl_counter (is_delivered s) = [0]"
    using ping_run by auto
  have "in_reachable lenient_crypto False 0 s"
    using in_run_reachable [OF in_reachable.start [OF listening_start] run] .
  from delivered_packets_authentic [OF this] s show ?thesis
    by (intro exI [of _ s]) (auto simp: Let_def)
qed
end
