(* ===== verification/Transport.thy ===== *)
theory Transport
  imports Outbound Inbound
begin

text \<open>
  The two flows joined: a packet sealed by the outbound flow of one device comes out of the
  inbound flow of another, and what a single datagram does to the workers of the inbound flow.
\<close>

section \<open>Packets\<close>

text \<open>A message with room for its two codes is always stamped.\<close>

lemma AddMacs_total: "32 \<le> length msg \<Longrightarrow> \<exists>g packet. AddMacs C st msg now = Some (g, packet)"
  by (auto simp: AddMacs_def Size128_def Let_def)

lemma get_be16_take [simp]: "get_be16 (take 2 bs) = get_be16 bs"
  by (simp add: get_be16_def)

lemma transport_packet_fields:
  "get_le32 (transport_packet C kp n content) = MessageTransportType"
  "get_le32 (drop 4 (transport_packet C kp n content)) = kp_remoteIndex kp"
  "take 8 (drop 8 (transport_packet C kp n content)) = le64 n"
  "drop 16 (transport_packet C kp n content) = aead_seal C (kp_send kp) (transport_nonce n) content []"
  by (simp_all add: transport_packet_def transport_header_def)

lemma pad_content_prefix: "\<exists>zs. pad_content mtu packet = packet @ zs"
proof (cases "length packet mod PaddingMultiple > 0")
  case True
  then show ?thesis using pad_loop_prefix [of "PaddingMultiple - length packet mod PaddingMultiple" mtu packet]
    by (simp add: pad_content_def)
next
  case False
  then show ?thesis by (simp add: pad_content_def)
qed

section \<open>The timers of a peer that was made\<close>

abbreviation timers_ready :: "Device \<Rightarrow> pid \<Rightarrow> bool" where
  "timers_ready D p \<equiv> timers_made (timers_of D p)"

lemma timers_of_other [simp]:
  "timers_of (TimerHandshakeComplete D q) p = timers_of D p" "timers_of (set_keyPairs D q ks) p = timers_of D p"
  "timers_of (upd_keyPair D k g) p = timers_of D p" "timers_of (upd_in D e h) p = timers_of D p"
  "timers_of (D\<lparr>dv_indices := ix\<rparr>) p = timers_of D p"
  by (simp_all add: timers_of_def upd_signal_def TimerHandshakeComplete_def
      set_keyPairs_def upd_keyPair_def upd_in_def upd_peer_def)

lemma timers_run:
  assumes "timers_ready D p"
  shows "\<exists>D'. TimerAnyAuthenticatedPacketTraversal D p now = Some D' \<and> timers_ready D' p"
    "\<exists>D'. TimerAnyAuthenticatedPacketReceived D p = Some D' \<and> timers_ready D' p"
    "\<exists>D'. TimerDataReceived D p now = Some D' \<and> timers_ready D' p"
    "timers_ready (KeepKeyFreshReceiving D p now) p"
    "\<exists>D'. confirm_key D p k = Some D' \<and> timers_ready D' p"
proof -
  have step: "\<exists>D'. traffic_step D p ev = Some D' \<and> timers_ready D' p" for ev
    using traffic_step_timers [OF assms, of ev] by blast
  show "\<exists>D'. TimerAnyAuthenticatedPacketTraversal D p now = Some D' \<and> timers_ready D' p"
    using step [of "Traversed now"] by simp
  show "\<exists>D'. TimerAnyAuthenticatedPacketReceived D p = Some D' \<and> timers_ready D' p"
    using step [of Authenticated] by simp
  show "\<exists>D'. TimerDataReceived D p now = Some D' \<and> timers_ready D' p"
    using step [of "Received now"] by simp
  show "timers_ready (KeepKeyFreshReceiving D p now) p"
    using step [of "Freshened_receiving now"] by simp
  show "\<exists>D'. confirm_key D p k = Some D' \<and> timers_ready D' p"
    using assms by (simp add: confirm_key_def Let_def DeleteKeyPair_def split: option.split)
qed

section \<open>The receiver delivers\<close>

lemma receive_element_delivers:
  assumes e: "qi_keyPair (st_in D e) = Some k" "qi_packet (st_in D e) \<noteq> []"
    and fresh: "snd (ValidateCounter (kp_replayFilter (st_keyPair D k)) (qi_counter (st_in D e)))"
    and made: "timers_ready D p"
    and opened: "\<And>D'. dv_routingTable D' = dv_routingTable D \<Longrightarrow>
      open_packet D' p (qi_packet (st_in D e)) = Some (Some packet)"
  shows "\<exists>D'. receive_element ios D p e now = Some D' \<and> st_tun D' = st_tun D @ [tun_Write ios packet]"
proof -
  obtain flt where flt: "ValidateCounter (kp_replayFilter (st_keyPair D k)) (qi_counter (st_in D e)) = (flt, True)"
    using fresh by (metis prod.collapse)
  let ?D = "upd_keyPair D k (\<lambda>kp. kp\<lparr>kp_replayFilter := flt\<rparr>)"
  have "timers_ready ?D p" using made by simp
  then obtain D1 where D1: "TimerAnyAuthenticatedPacketTraversal ?D p now = Some D1" "timers_ready D1 p"
    using timers_run(1) by blast
  then obtain D2 where D2: "TimerAnyAuthenticatedPacketReceived D1 p = Some D2" "timers_ready D2 p"
    using timers_run(2) by blast
  then obtain D3 where D3: "confirm_key (KeepKeyFreshReceiving D2 p now) p k = Some D3" "timers_ready D3 p"
    using timers_run(5) [OF timers_run(4)] by blast
  then obtain D4 where D4: "TimerDataReceived D3 p now = Some D4"
    using timers_run(3) by blast
  have "in_same p ?D D3"
    using in_same_trans [OF in_same_trans [OF in_same_timers(1) [OF D1(1)] in_same_timers(2) [OF D2(1)]]
        in_same_trans [OF in_same_timers(4) in_same_confirm [OF D3(1)]]] by simp
  from st_in_same [OF this] st_in_same [OF in_same_timers(3) [OF D4, of p]]
  have same: "st_in D3 = st_in D" "st_in D4 = st_in D" "st_tun D4 = st_tun D" "dv_routingTable D4 = dv_routingTable D"
    by (simp_all add: upd_keyPair_def)
  have "receive_element ios D p e now = deliver ios D4 p e"
    using e flt D1(1) D2(1) D3(1) D4 same(1) by (simp add: receive_element_def)
  then show ?thesis
    using opened [OF same(4)] same by (simp add: deliver_def device_PutMessageBuffer_def upd_in_def)
qed

text \<open>An IPv4 packet of its own length, padded, from a source of the peer.\<close>

definition ipv4_from :: "Device \<Rightarrow> pid \<Rightarrow> bytes \<Rightarrow> bool" where
  "ipv4_from D p packet \<longleftrightarrow> 20 \<le> length packet \<and> drop_bit 4 (packet ! 0) = 4 \<and>
    unat (get_be16 (drop 2 packet)) = length packet \<and>
    rt_LookupIPv4 (dv_routingTable D) (take 4 (drop 12 packet)) = Some (Some p)"

lemma open_padded:
  assumes "ipv4_from D p packet" "dv_routingTable D' = dv_routingTable D"
  shows "open_packet D' p (packet @ zs) = Some (Some packet)"
proof -
  have "get_be16 (drop 2 packet @ zs) = get_be16 (drop 2 packet)"
    using assms(1) by (simp add: get_be16_def ipv4_from_def)
  moreover have "packet \<noteq> []" using assms(1) by (auto simp: ipv4_from_def)
  ultimately show ?thesis
    using assms by (simp add: ipv4_from_def open_packet_def open_ipv4_def offset_consts Let_def nth_append)
qed

section \<open>The round trip\<close>

text \<open>The flow into a peer is idle: its queues are empty and the receiver waits.\<close>

definition idle :: "in_system \<Rightarrow> pid \<Rightarrow> bool" where
  "idle s p \<longleftrightarrow> is_receiver s = Next_inbound \<and>
    0 < chan_cap (dv_decryption (is_dev s)) \<and> chan_buf (dv_decryption (is_dev s)) = [] \<and>
    0 < chan_cap (p_inbound (st_peer (is_dev s) p)) \<and> chan_buf (p_inbound (st_peer (is_dev s) p)) = [] \<and>
    timers_ready (is_dev s) p"

text \<open>The key pair the receiver files under the index a sender writes, and that it still takes.\<close>

definition matches :: "Device \<Rightarrow> pid \<Rightarrow> kid \<Rightarrow> KeyPair \<Rightarrow> time \<Rightarrow> bool" where
  "matches D p k kp now \<longleftrightarrow>
    ie_peer (it_Lookup (dv_indices D) (kp_remoteIndex kp)) = Some p \<and>
    ie_keyPair (it_Lookup (dv_indices D) (kp_remoteIndex kp)) = Some k \<and>
    kp_receive (st_keyPair D k) = kp_send kp \<and> now \<le> kp_created (st_keyPair D k) + RejectAfterTime"

lemma queue_idle:
  assumes "idle s p" "matches (is_dev s) p k kp now" "16 \<le> length packet"
    "get_le32 (drop 4 packet) = kp_remoteIndex kp"
  shows "\<exists>D b. queue_transport (is_dev s) buffer packet now = Some (D, b) \<and>
    st_tun D = st_tun (is_dev s) \<and> dv_routingTable D = dv_routingTable (is_dev s) \<and>
    st_keyPair D = st_keyPair (is_dev s) \<and> timers_ready D p \<and>
    chan_buf (dv_decryption D) = [st_nextElem (is_dev s)] \<and>
    chan_buf (p_inbound (st_peer D p)) = [st_nextElem (is_dev s)] \<and>
    st_in D (st_nextElem (is_dev s)) = \<lparr>qi_dropped = False, qi_locked = True, qi_buffer = buffer,
      qi_packet = packet, qi_counter = 0, qi_keyPair = Some k\<rparr>"
proof -
  let ?D = "is_dev s"
  let ?e = "st_nextElem ?D"
  let ?x = "\<lparr>qi_dropped = False, qi_locked = True, qi_buffer = buffer, qi_packet = packet,
    qi_counter = 0, qi_keyPair = Some k\<rparr>"
  let ?q1 = "(dv_decryption ?D)\<lparr>chan_buf := [?e]\<rparr>" and ?q2 = "(p_inbound (st_peer ?D p))\<lparr>chan_buf := [?e]\<rparr>"
  let ?st = "(st_in ?D)(?e := ?x)"
  let ?D1 = "?D\<lparr>st_nextElem := Suc ?e, dv_decryption := ?q1,
    st_peer := (st_peer ?D)(p := (st_peer ?D p)\<lparr>p_inbound := ?q2\<rparr>), st_in := ?st\<rparr>"
  have add: "addToDecryptionQueue (dv_decryption ?D) ?e ?st = Some (?q1, ?st)"
    "addToInboundQueue (p_inbound (st_peer ?D p)) ?e ?st = Some (?q2, ?st)"
    using assms(1) by (simp_all add: addToDecryptionQueue_def addToInboundQueue_def add_room idle_def)
  have "queue_transport ?D buffer packet now = Some (GetMessageBuffer ?D1)"
    using assms(2-4) add
    by (simp add: queue_transport_def matches_def size_consts type_consts new_inbound_def Let_def upd_peer_def)
  moreover obtain pool n where "fst (GetMessageBuffer ?D1) = ?D1\<lparr>st_pool := pool, st_nextBuffer := n\<rparr>"
    using GetMessageBuffer_eq by blast
  ultimately show ?thesis
    using assms(1) by (cases "GetMessageBuffer ?D1") (simp add: idle_def timers_of_def upd_peer_def)
qed

lemma sealed_packet_arrives:
  assumes C: "aead_ok C" "sizes_ok C"
    and idle: "idle s p" and key: "matches (is_dev s) p k kp now"
    and packet: "ipv4_from (is_dev s) p packet"
    and accepts: "\<not> aead_refuses C 0 (length (pad_content mtu packet)) 16 (length (pad_content mtu packet) + 16)"
    and fresh: "snd (ValidateCounter (kp_replayFilter (st_keyPair (is_dev s) k)) n)"
  shows "\<exists>s'. in_run C ios p [Datagram (transport_packet C kp n (pad_content mtu packet)) raddr now,
      Decrypt_step, Receive_step now1, Receive_step now2] s = Some s' \<and>
    is_written s' = is_written s @ [tun_Write ios packet]"
proof -
  let ?content = "pad_content mtu packet"
  let ?pk = "transport_packet C kp n ?content"
  let ?e = "st_nextElem (is_dev s)"
  obtain zs where zs: "?content = packet @ zs" using pad_content_prefix by blast
  have len: "length ?pk = length ?content + 32" "20 \<le> length ?content"
    using C(2) packet zs by (simp_all add: transport_packet_def transport_header_def crypto_simps ipv4_from_def)
  obtain D b where D: "queue_transport (is_dev s) (is_buffer s) ?pk now = Some (D, b)"
    and D_same: "st_tun D = st_tun (is_dev s)" "dv_routingTable D = dv_routingTable (is_dev s)"
      "st_keyPair D = st_keyPair (is_dev s)" "timers_ready D p"
    and D_queues: "chan_buf (dv_decryption D) = [?e]" "chan_buf (p_inbound (st_peer D p)) = [?e]"
    and D_elem: "st_in D ?e = \<lparr>qi_dropped = False, qi_locked = True, qi_buffer = is_buffer s,
      qi_packet = ?pk, qi_counter = 0, qi_keyPair = Some k\<rparr>"
    using queue_idle [OF idle key, where packet = ?pk and buffer = "is_buffer s"] len(1) transport_packet_fields(2)
    by auto
  have handled: "handleUDP (is_dev s) (is_buffer s) ?pk raddr now = Some (D, b)"
    using D len by (simp add: handleUDP_def size_consts transport_packet_fields)
  let ?x = "(st_in D ?e)\<lparr>qi_counter := n, qi_packet := ?content, qi_locked := False\<rparr>"
  let ?D2 = "D\<lparr>dv_decryption := (dv_decryption D)\<lparr>chan_buf := []\<rparr>, st_in := (st_in D)(?e := ?x)\<rparr>"
  have opened: "aead_open C (kp_receive (st_keyPair D k)) (replicate 4 0 @ le64 n)
      (aead_seal C (kp_send kp) (transport_nonce n) ?content []) [] = Some ?content"
    using C(1) key by (simp add: crypto_simps D_same matches_def transport_nonce_def)
  have decrypted: "RoutineDecryption C D = Some ?D2"
    using opened accepts len C(2) D_queues D_elem transport_packet_fields [of C kp n ?content]
    by (simp add: RoutineDecryption_def chan_recv_def qi_IsDropped_def qi_Unlock_def upd_in_def Let_def
        size_consts crypto_simps)
  let ?D3 = "upd_peer ?D2 p (\<lambda>r. r\<lparr>p_inbound := (p_inbound (st_peer ?D2 p))\<lparr>chan_buf := []\<rparr>\<rparr>)"
  let ?D4 = "upd_in ?D3 ?e (\<lambda>x. x\<lparr>qi_locked := True\<rparr>)"
  have made: "timers_ready ?D4 p" using D_same(4) by (simp add: timers_of_def upd_in_def upd_peer_def)
  have elem: "qi_keyPair (st_in ?D4 ?e) = Some k" "qi_packet (st_in ?D4 ?e) = packet @ zs"
    "qi_counter (st_in ?D4 ?e) = n" "st_keyPair ?D4 = st_keyPair (is_dev s)"
    "dv_routingTable ?D4 = dv_routingTable (is_dev s)" "st_tun ?D4 = st_tun (is_dev s)"
    using D_elem D_same zs by (simp_all add: upd_in_def upd_peer_def)
  obtain D5 where D5: "receive_element ios ?D4 p ?e now2 = Some D5" "st_tun D5 = st_tun (is_dev s) @ [tun_Write ios packet]"
    using receive_element_delivers [of ?D4 ?e k p packet ios now2] elem made fresh open_padded [OF packet] zs len(2)
    by fastforce
  show ?thesis
    using handled decrypted D5 D_queues D_elem D_same idle
    by (simp add: chan_recv_def upd_in_def upd_peer_def qi_IsDropped_def idle_def Let_def split: option.splits prod.splits)
qed


definition pinging_key :: KeyPair where
  "pinging_key = (st_keyPair zero_device 0)\<lparr>kp_remoteIndex := 7\<rparr>"

lemma lenient_ok: "aead_ok lenient_crypto" "sizes_ok lenient_crypto"
  using toy_crypto_ok by (simp_all add: lenient_crypto_def crypto_ok_def aead_ok_def sizes_ok_def)


section \<open>What one datagram does to the workers\<close>

text \<open>
  C35: the decryption worker opens a content to the start of the buffer that holds it, 16 bytes
  before its own place. A cipher library that refuses overlapping buffers, as its documentation
  asks callers to avoid, panics on every packet of more than 48 bytes that reaches the worker,
  authentic or not: only keepalives and contents of up to 16 bytes are ever decrypted.
\<close>

theorem long_packet_stops_decryption:
  assumes "overlap_refused C" "dv_decryption D = \<lparr>chan_cap = cap, chan_buf = e # es\<rparr>" "\<not> qi_dropped (st_in D e)"
    "48 < length (qi_packet (st_in D e))"
  shows "RoutineDecryption C D = None"
proof -
  have "aead_refuses C 0 (length (qi_packet (st_in D e)) - 32) 16 (length (qi_packet (st_in D e)) - 16)"
    by (rule assms(1) [unfolded overlap_refused_def, rule_format]) (use assms(4) in \<open>auto simp: overlaps_def less_diff_conv\<close>)
  with assms(2-4) show ?thesis
    by (simp add: RoutineDecryption_def chan_recv_def qi_IsDropped_def Let_def size_consts split: option.splits)
qed

definition noise_datagram :: bytes where
  "noise_datagram = [4, 0, 0, 0, 7, 0, 0, 0] @ replicate 41 0"

theorem long_packet_stops_decryption_witness:
  "\<exists>D b. handleUDP listening_device 0 noise_datagram \<lparr>ua_IP = [10, 0, 0, 9], ua_Port = 1\<rparr> noon = Some (D, b) \<and>
    RoutineDecryption toy_crypto D = None"
proof -
  have "map_option (\<lambda>(D, b). dv_decryption D = \<lparr>chan_cap = QueueInboundSize, chan_buf = [0]\<rparr> \<and>
      \<not> qi_dropped (st_in D 0) \<and> 48 < length (qi_packet (st_in D 0)))
    (handleUDP listening_device 0 noise_datagram \<lparr>ua_IP = [10, 0, 0, 9], ua_Port = 1\<rparr> noon) = Some True"
    by code_simp
  then obtain D b where D: "handleUDP listening_device 0 noise_datagram \<lparr>ua_IP = [10, 0, 0, 9], ua_Port = 1\<rparr> noon = Some (D, b)"
    "dv_decryption D = \<lparr>chan_cap = QueueInboundSize, chan_buf = [0]\<rparr>" "\<not> qi_dropped (st_in D 0)"
    "48 < length (qi_packet (st_in D 0))"
    by auto
  from long_packet_stops_decryption [OF toy_in_place_ok(2) D(2-4)] D(1) show ?thesis by blast
qed


text \<open>
  C33: a single unauthenticated datagram ends the handshake worker: a message of the right type
  and length whose first code is wrong is queued, and the worker returns when it meets it,
  where it would have to go on to the next message. It handles no message after that.
\<close>

theorem forged_message_ends_handshake_worker:
  assumes "chan_buf (dv_handshakeQueue D) = []" "0 < chan_cap (dv_handshakeQueue D)"
    "get_le32 packet = MessageInitiationType \<or> get_le32 packet = MessageResponseType"
    "handshake_size_ok (get_le32 packet) (length packet)" "CheckMAC1 C (dv_mac D) packet = Some False"
  shows "\<exists>D1 b D2. handleUDP D buffer packet raddr now = Some (D1, b) \<and>
    RoutineHandshake C N endpoint D1 True tn = Some (D2, False) \<and>
    (\<forall>D3 tn'. RoutineHandshake C N endpoint D3 False tn' = None)"
proof -
  let ?elem = "\<lparr>qh_msgType = get_le32 packet, qh_packet = packet, qh_buffer = buffer, qh_source = raddr\<rparr>"
  let ?D = "D\<lparr>dv_handshakeQueue := (dv_handshakeQueue D)\<lparr>chan_buf := [?elem]\<rparr>, st_pool := st_pool D\<rparr>"
  have "addToHandshakeQueue (dv_handshakeQueue D) ?elem (st_pool D) =
      Some ((dv_handshakeQueue D)\<lparr>chan_buf := [?elem]\<rparr>, st_pool D)"
    using assms(1,2) by (simp add: addToHandshakeQueue_def add_room)
  then have handled: "handleUDP D buffer packet raddr now = Some (GetMessageBuffer ?D)"
    using assms(3,4) by (auto simp: handleUDP_def handshake_size_ok_def size_consts type_consts Let_def)
  obtain pool n where D1: "fst (GetMessageBuffer ?D) = ?D\<lparr>st_pool := pool, st_nextBuffer := n\<rparr>"
    using GetMessageBuffer_eq by blast
  have "\<exists>D2. RoutineHandshake C N endpoint (?D\<lparr>st_pool := pool, st_nextBuffer := n\<rparr>) True tn = Some (D2, False)"
    using assms(3,5)
    by (auto simp: RoutineHandshake_def chan_recv_def handle_handshake_def admit_def type_consts)
  then show ?thesis
    using handled D1 by (metis RoutineHandshake_def prod.collapse)
qed

theorem forged_message_ends_handshake_worker_witness:
  "\<exists>D1 b D2. handleUDP (zero_device\<lparr>dv_handshakeQueue := make_chan 1\<rparr>) 0
      ([2, 0, 0, 0] @ replicate 88 0) \<lparr>ua_IP = [10, 0, 0, 9], ua_Port = 1\<rparr> noon = Some (D1, b) \<and>
    RoutineHandshake toy_crypto no_net [] D1 True
      \<lparr>tn_now = noon, tn_later = noon, tn_rnd = ([], False), tn_rnd2 = ([], False), tn_draws = [], tn_ok = True\<rparr> =
        Some (D2, False)"
proof -
  have "CheckMAC1 toy_crypto (dv_mac zero_device) ([2, 0, 0, 0] @ replicate 88 0) = Some False" by code_simp
  moreover have "get_le32 ([2, 0, 0, 0] @ replicate 88 0) = MessageResponseType" by code_simp
  ultimately show ?thesis
    using forged_message_ends_handshake_worker [of "zero_device\<lparr>dv_handshakeQueue := make_chan 1\<rparr>"
        "[2, 0, 0, 0] @ replicate 88 0" toy_crypto 0 "\<lparr>ua_IP = [10, 0, 0, 9], ua_Port = 1\<rparr>" noon no_net "[]"
        "\<lparr>tn_now = noon, tn_later = noon, tn_rnd = ([], False), tn_rnd2 = ([], False), tn_draws = [], tn_ok = True\<rparr>"]
    by (auto simp: make_chan_def handshake_size_ok_def size_consts type_consts)
qed

text \<open>
  C37: the length of an IPv6 packet is added up in 16 bits: a header that announces a payload of
  65496 bytes or more passes the length check, and the packet is delivered cut to what is left
  of the sum, its 40 bytes of header included, instead of being refused.
\<close>

theorem ipv6_length_wraps:
  assumes "40 \<le> length packet" "drop_bit 4 (packet ! 0) = 6" "65496 \<le> unat (get_be16 (drop 4 packet))"
    "rt_LookupIPv6 (dv_routingTable D) (take 16 (drop 8 packet)) = Some (Some p)"
  shows "open_packet D p packet = Some (Some (take (unat (get_be16 (drop 4 packet)) - 65496) packet)) \<and>
    unat (get_be16 (drop 4 packet)) - 65496 < 40"
proof -
  let ?n = "get_be16 (drop 4 packet)"
  have bound: "unat ?n < 65536" using unsigned_less [of ?n, where ?'a = nat] by simp
  have "unat (?n + 40) = unat ?n - 65496"
    using assms(3) bound by (simp add: unat_word_ariths mod_if)
  moreover have "unat ?n - 65496 < 40" using bound by linarith
  moreover from this have "\<not> length packet < unat ?n - 65496" using assms(1) by linarith
  ultimately show ?thesis
    using assms by (simp add: open_packet_def open_ipv6_def offset_consts Let_def)
qed

definition long_header :: bytes where
  "long_header = [96, 0, 0, 0, 255, 222] @ replicate 34 0"

theorem ipv6_length_wraps_witness:
  "open_packet (zero_device\<lparr>dv_routingTable := \<lparr>rt_IPv4 = Nil_Trie,
      rt_IPv6 = the (Insert Nil_Trie (replicate 16 0) 0 (Some 0))\<rparr>\<rparr>) 0 long_header = Some (Some (take 6 long_header))"
proof -
  have "Lookup (the (Insert Nil_Trie (replicate 16 0) 0 (Some (0 :: nat)))) (replicate 16 0) = Some (Some 0)"
    by code_simp
  then show ?thesis
    using ipv6_length_wraps [of long_header "zero_device\<lparr>dv_routingTable := \<lparr>rt_IPv4 = Nil_Trie,
        rt_IPv6 = the (Insert Nil_Trie (replicate 16 0) 0 (Some 0))\<rparr>\<rparr>" 0]
    by (simp add: long_header_def rt_LookupIPv6_def get_be16_def)
qed
end
