(* ===== verification/Inbound_Progress.thy ===== *)
theory Inbound_Progress
  imports Transport
begin

text \<open>
  The inbound routines never panic on what arrives: from a device that serves a peer, whatever
  the datagrams, every routine of the flow either waits or goes on, and the flow comes to rest.
\<close>

section \<open>A device that serves a peer\<close>

text \<open>
  Its timers are made, its routing table is well formed, the handshake queue takes elements and
  every key pair in the index table belongs to the peer, as in a device with one peer.
\<close>

definition serving :: "Device \<Rightarrow> pid \<Rightarrow> bool" where
  "serving D p \<longleftrightarrow> timers_ready D p \<and> rt_ok (dv_routingTable D) \<and> seq_inv (dv_handshakeQueue D, ()) \<and>
    (\<forall>i. ie_keyPair (it_Lookup (dv_indices D) i) \<noteq> None \<longrightarrow> ie_peer (it_Lookup (dv_indices D) i) = Some p)"

definition same_tables :: "Device \<Rightarrow> Device \<Rightarrow> bool" where
  "same_tables D D' \<longleftrightarrow> dv_routingTable D' = dv_routingTable D \<and> dv_handshakeQueue D' = dv_handshakeQueue D \<and>
    dv_indices D' = dv_indices D"

lemma serving_kept: "serving D p \<Longrightarrow> same_tables D D' \<Longrightarrow> timers_ready D' p \<Longrightarrow> serving D' p"
  by (simp add: serving_def same_tables_def)

lemma same_tables_upd [simp]:
  "same_tables D (upd_signal D q f)" "same_tables D (upd_timer D q g)" "same_tables D (begin_handshake D q)"
  "same_tables D (TimerHandshakeComplete D q)" "same_tables D (set_keyPairs D q ks)"
  "same_tables D (upd_peer D q r)" "same_tables D (upd_in D e h)" "same_tables D (upd_keyPair D k m)"
  by (simp_all add: same_tables_def begin_handshake_def TimerHandshakeComplete_def upd_signal_def
      upd_timer_def set_keyPairs_def upd_peer_def upd_in_def upd_keyPair_def)

lemma same_tables_after: "same_tables D D' \<Longrightarrow> same_tables D (upd_timer D' q g)"
  by (simp add: same_tables_def upd_timer_def upd_peer_def)

lemma same_tables_timers:
  "TimerAnyAuthenticatedPacketTraversal D q now = Some D' \<Longrightarrow> same_tables D D'"
  "TimerAnyAuthenticatedPacketReceived D q = Some D' \<Longrightarrow> same_tables D D'"
  "TimerDataReceived D q now = Some D' \<Longrightarrow> same_tables D D'"
  "same_tables D (KeepKeyFreshReceiving D q now)"
  by (auto simp: TimerAnyAuthenticatedPacketTraversal_def TimerAnyAuthenticatedPacketReceived_def
      TimerDataReceived_def KeepKeyFreshReceiving_def Let_def same_tables_after split: if_splits option.splits)
    (simp_all add: same_tables_def)

lemma serving_timers:
  assumes "serving D p"
  shows "\<exists>D'. TimerAnyAuthenticatedPacketTraversal D p now = Some D' \<and> serving D' p"
    "\<exists>D'. TimerAnyAuthenticatedPacketReceived D p = Some D' \<and> serving D' p"
    "\<exists>D'. TimerDataReceived D p now = Some D' \<and> serving D' p"
    "serving (KeepKeyFreshReceiving D p now) p"
proof -
  have made: "timers_ready D p" using assms by (simp add: serving_def)
  note run = timers_run [OF made] and kept = serving_kept [OF assms] same_tables_timers
  show "\<exists>D'. TimerAnyAuthenticatedPacketTraversal D p now = Some D' \<and> serving D' p"
    using run(1) kept(1,2) by blast
  show "\<exists>D'. TimerAnyAuthenticatedPacketReceived D p = Some D' \<and> serving D' p"
    using run(2) kept(1,3) by blast
  show "\<exists>D'. TimerDataReceived D p now = Some D' \<and> serving D' p"
    using run(3) kept(1,4) by blast
  show "serving (KeepKeyFreshReceiving D p now) p"
    using run(4) kept(1,5) by blast
qed

lemma serving_delete: "serving D p \<Longrightarrow> serving (D\<lparr>dv_indices := it_Delete (dv_indices D) i\<rparr>) p"
  by (auto simp: serving_def timers_of_def it_Delete_def it_Lookup_def zero_entry_def split: option.splits if_splits)

lemma serving_confirm:
  assumes "serving D p"
  shows "\<exists>D'. confirm_key D p k = Some D' \<and> serving D' p"
proof -
  have "serving (TimerHandshakeComplete D p) p"
    by (rule serving_kept [OF assms]) (use assms in \<open>simp_all add: serving_def\<close>)
  note after = this serving_delete [OF this]
  have "serving (set_keyPairs D' p ks) p" if "serving D' p" for D' ks
    by (rule serving_kept [OF that]) (use that in \<open>simp_all add: serving_def\<close>)
  with after assms show ?thesis
    by (auto simp: confirm_key_def Let_def DeleteKeyPair_def split: option.splits)
qed

section \<open>Nothing panics\<close>

lemma rt_total:
  assumes "rt_ok table"
  shows "length a = 4 \<Longrightarrow> \<exists>r. rt_LookupIPv4 table a = Some r" "length a = 16 \<Longrightarrow> \<exists>r. rt_LookupIPv6 table a = Some r"
  using rt_Lookup_lpm [OF assms, of a] by (auto simp: rt_Lookup_def)

lemma open_ipv4_total:
  assumes "rt_ok (dv_routingTable D)"
  shows "open_ipv4 D p packet \<noteq> None"
proof -
  define len where "len = unat (get_be16 (drop IPv4offsetTotalLength packet))"
  show ?thesis
  proof (cases "20 \<le> length packet \<and> len \<le> length packet \<and> 20 \<le> len")
    case True
    then have "length (take 4 (drop IPv4offsetSrc (take len packet))) = 4" by (auto simp: offset_consts)
    with rt_total(1) [OF assms] True show ?thesis
      by (auto simp: open_ipv4_def len_def [symmetric] Let_def split: option.split)
  next
    case False
    then show ?thesis by (auto simp: open_ipv4_def len_def [symmetric] Let_def)
  qed
qed

lemma open_ipv6_total:
  assumes "rt_ok (dv_routingTable D)"
  shows "open_ipv6 D p packet \<noteq> None"
proof (cases "40 \<le> length packet")
  case True
  then have "length (take 16 (drop IPv6offsetSrc packet)) = 16" by (simp add: offset_consts)
  from rt_total(2) [OF assms this] obtain r where "rt_LookupIPv6 (dv_routingTable D) (take 16 (drop IPv6offsetSrc packet)) = Some r"
    by blast
  then show ?thesis by (simp add: open_ipv6_def Let_def)
qed (simp add: open_ipv6_def)

lemma serving_deliver:
  assumes "serving D p"
  shows "\<exists>D'. deliver ios D p e = Some D' \<and> serving D' p"
proof -
  have "open_packet D p (qi_packet (st_in D e)) \<noteq> None"
    using open_ipv4_total open_ipv6_total assms by (auto simp: open_packet_def serving_def)
  then show ?thesis
    using assms by (auto simp: deliver_def serving_def timers_of_def device_PutMessageBuffer_def upd_in_def split: option.splits)
qed

lemma serving_receive:
  assumes "serving D p" "qi_keyPair (st_in D e) = Some k"
  shows "\<exists>D'. receive_element ios D p e now = Some D' \<and> serving D' p"
proof -
  obtain flt ok where check: "ValidateCounter (kp_replayFilter (st_keyPair D k)) (qi_counter (st_in D e)) = (flt, ok)"
    by (metis surj_pair)
  let ?D = "upd_keyPair D k (\<lambda>kp. kp\<lparr>kp_replayFilter := flt\<rparr>)"
  have D: "serving ?D p"
    by (rule serving_kept [OF assms(1)]) (use assms(1) in \<open>simp_all add: serving_def\<close>)
  obtain D1 where D1: "TimerAnyAuthenticatedPacketTraversal ?D p now = Some D1" "serving D1 p"
    using serving_timers(1) [OF D] by blast
  obtain D2 where D2: "TimerAnyAuthenticatedPacketReceived D1 p = Some D2" "serving D2 p"
    using serving_timers(2) [OF D1(2)] by blast
  obtain D3 where D3: "confirm_key (KeepKeyFreshReceiving D2 p now) p k = Some D3" "serving D3 p"
    using serving_confirm [OF serving_timers(4) [OF D2(2)]] by blast
  obtain D4 where D4: "TimerDataReceived D3 p now = Some D4" "serving D4 p"
    using serving_timers(3) [OF D3(2)] by blast
  from serving_deliver [OF D4(2)] obtain D5 where "deliver ios D4 p e = Some D5" "serving D5 p" by blast
  with D D1 D2 D3 D4 assms(2) check show ?thesis by (simp add: receive_element_def Let_def)
qed


section \<open>Who holds a lock\<close>

text \<open>
  The elements on their way to the receiver, each once. A locked one still waits for the
  decryption worker, and that worker will release it, as it skips dropped elements only.
\<close>

definition line_up :: "Device \<Rightarrow> pid \<Rightarrow> receiver_pc \<Rightarrow> eid list" where
  "line_up D p pc = (case pc of Next_inbound \<Rightarrow> [] | Lock_inbound e \<Rightarrow> [e]) @ chan_buf (p_inbound (st_peer D p))"

definition lock_inv :: "Device \<Rightarrow> pid \<Rightarrow> receiver_pc \<Rightarrow> bool" where
  "lock_inv D p pc \<longleftrightarrow> distinct (line_up D p pc) \<and>
    (\<forall>e \<in> set (line_up D p pc). qi_locked (st_in D e) \<longrightarrow>
      e \<in> set (chan_buf (dv_decryption D)) \<and> \<not> qi_dropped (st_in D e))"

lemma set_line_up: "set (line_up D p pc) = in_flight D p pc"
  by (auto simp: line_up_def in_flight_def split: receiver_pc.splits)

lemma lock_inv_same:
  assumes "lock_inv D p pc" "p_inbound (st_peer D' p) = p_inbound (st_peer D p)" "dv_decryption D' = dv_decryption D"
    "\<And>e. e \<in> in_flight D p pc \<Longrightarrow> st_in D' e = st_in D e"
  shows "lock_inv D' p pc"
  using assms by (auto simp: lock_inv_def set_line_up [symmetric] line_up_def)

lemma lock_inv_others: "lock_inv D p pc \<Longrightarrow> in_others p D D' \<Longrightarrow> lock_inv D' p pc"
  by (erule lock_inv_same) (simp_all add: in_others_def)

lemma addToInboundQueue_eq:
  assumes "seq_inv (q, ())"
  shows "addToInboundQueue q x st = Some (pushed q x,
    if length (chan_buf q) = chan_cap q then qi_Drop st (hd (chan_buf q)) else st)"
  unfolding addToInboundQueue_def by (rule add_pushed [OF assms]) simp_all

text \<open>A new element is queued for decryption and for the receiver.\<close>

lemma lock_inv_pushed:
  fixes D :: Device and x :: "kid QueueInboundElement"
  assumes lock: "lock_inv D p pc" and seq: "seq_inv (p_inbound (st_peer D p), ())" and x: "qi_locked x" "\<not> qi_dropped x"
    and new: "e \<notin> set (chan_buf (dv_decryption D))" "e \<notin> set (line_up D p pc)" and n: "n \<le> length (chan_buf (dv_decryption D))"
    and st1: "\<And>f. st1 f = (if f \<in> set (take n (chan_buf (dv_decryption D)))
      then (((st_in D)(e := x)) f)\<lparr>qi_dropped := True, qi_locked := False\<rparr> else ((st_in D)(e := x)) f)"
    and D': "chan_buf (dv_decryption D') = drop n (chan_buf (dv_decryption D) @ [e])"
      "st_in D' = (if length (chan_buf (p_inbound (st_peer D p))) = chan_cap (p_inbound (st_peer D p))
        then qi_Drop st1 (hd (chan_buf (p_inbound (st_peer D p)))) else st1)"
      "p_inbound (st_peer D' p) = pushed (p_inbound (st_peer D p)) e"
  shows "lock_inv D' p pc"
proof -
  let ?q = "dv_decryption D" and ?r = "p_inbound (st_peer D p)"
  define ps where "ps = (case pc of Next_inbound \<Rightarrow> [] | Lock_inbound e \<Rightarrow> [e])"
  have old: "line_up D p pc = ps @ chan_buf ?r" and line: "line_up D' p pc = ps @ chan_buf (pushed ?r e)"
    by (simp_all add: line_up_def ps_def D'(3))
  have dist: "distinct (ps @ chan_buf ?r @ [e])" using lock new(2) by (auto simp: lock_inv_def old)
  have "subseq (ps @ chan_buf (pushed ?r e)) (ps @ chan_buf ?r @ [e])"
    by (simp add: subseq_append' pushed_subseq [OF seq])
  with dist have "distinct (line_up D' p pc)" unfolding line by (blast intro: subseq_distinct)
  moreover have "f \<in> set (chan_buf (dv_decryption D')) \<and> \<not> qi_dropped (st_in D' f)"
    if f: "f \<in> set (line_up D' p pc)" "qi_locked (st_in D' f)" for f
  proof -
    have kept: "st_in D' f = st1 f"
      using pushed_lost [OF seq, of ps e "[]"] dist f(1) by (auto simp: line D'(2) qi_Drop_def)
    show ?thesis
    proof (cases "f = e")
      case True
      with x st1 [of f] new(1) n kept show ?thesis by (auto simp: D'(1) dest: in_set_takeD)
    next
      case False
      with f(1) have "f \<in> set (line_up D p pc)" by (auto simp: line old dest: set_pushed)
      moreover have "f \<notin> set (take n (chan_buf ?q))" "qi_locked (st_in D f)"
        using f(2) st1 [of f] False kept by (auto split: if_splits)
      moreover have "f \<in> set (chan_buf ?q) \<Longrightarrow> f \<in> set (take n (chan_buf ?q)) \<or> f \<in> set (drop n (chan_buf ?q))"
        by (metis Un_iff append_take_drop_id set_append)
      ultimately show ?thesis
        using lock st1 [of f] False kept n by (auto simp: lock_inv_def D'(1))
    qed
  qed
  ultimately show ?thesis by (simp add: lock_inv_def)
qed

lemma lock_inv_queued:
  assumes flow: "flow_inv C p D pc ds" and lock: "lock_inv D p pc" and x: "qi_locked x" "\<not> qi_dropped x"
  shows "\<exists>q1 st1 st2. addToDecryptionQueue (dv_decryption D) (st_nextElem D) ((st_in D)(st_nextElem D := x)) = Some (q1, st1) \<and>
    addToInboundQueue (p_inbound (st_peer D p)) (st_nextElem D) st1 =
      Some (pushed (p_inbound (st_peer D p)) (st_nextElem D), st2) \<and>
    (\<forall>D'. dv_decryption D' = q1 \<longrightarrow> st_in D' = st2 \<longrightarrow>
      p_inbound (st_peer D' p) = pushed (p_inbound (st_peer D p)) (st_nextElem D) \<longrightarrow> lock_inv D' p pc)"
proof -
  let ?e = "st_nextElem D" and ?q = "dv_decryption D" and ?r = "p_inbound (st_peer D p)"
  let ?st = "(st_in D)(?e := x)"
  define n where "n = Suc (length (chan_buf ?q)) - chan_cap ?q"
  have dec: "dec_inv (?q, st_in D)" and new: "?e \<notin> set (chan_buf ?q)" "?e \<notin> set (line_up D p pc)" and seq: "seq_inv (?r, ())"
    using flow by (auto simp: flow_inv_def raw_elem_def set_line_up)
  have "dec_inv (?q, ?st)" "dec_fits (?q, ?st) ?e"
    using dec new(1) x(1) by (auto simp: dec_inv_def dec_fits_def items_of_def seq_inv_def)
  from decryption_contract [OF this] obtain q1 st1 where q1: "addToDecryptionQueue ?q ?e ?st = Some (q1, st1)"
    "chan_buf q1 = drop n (chan_buf ?q @ [?e])"
    and st1: "\<And>f. st1 f = (if f \<in> set (take n (chan_buf ?q)) then (?st f)\<lparr>qi_dropped := True, qi_locked := False\<rparr> else ?st f)"
    unfolding n_def by (auto simp del: drop_append take_append fun_upd_apply)
  have n: "n \<le> length (chan_buf ?q)" using dec by (auto simp: n_def dec_inv_def seq_inv_def)
  have "lock_inv D' p pc" if "dv_decryption D' = q1" "st_in D' = (if length (chan_buf ?r) = chan_cap ?r then
      qi_Drop st1 (hd (chan_buf ?r)) else st1)" "p_inbound (st_peer D' p) = pushed ?r ?e" for D'
    using that q1(2) by (intro lock_inv_pushed [OF lock seq x new n st1]) simp_all
  with q1(1) addToInboundQueue_eq [OF seq] show ?thesis by blast
qed

lemma serving_GetMessageBuffer:
  assumes "serving D p" "lock_inv D p pc" "GetMessageBuffer D = (D', b)"
  shows "serving D' p \<and> lock_inv D' p pc"
proof -
  obtain pool n where D': "D' = D\<lparr>st_pool := pool, st_nextBuffer := n\<rparr>"
    using GetMessageBuffer_eq [of D] assms(3) by auto
  have "lock_inv D' p pc" by (rule lock_inv_same [OF assms(2)]) (simp_all add: D')
  moreover have "serving D' p"
    by (rule serving_kept [OF assms(1)]) (use assms(1) in \<open>simp_all add: D' same_tables_def serving_def timers_of_def\<close>)
  ultimately show ?thesis by simp
qed

lemma queue_transport_known:
  assumes "ie_keyPair (it_Lookup (dv_indices D) (get_le32 (drop 4 packet))) = Some k"
    "ie_peer (it_Lookup (dv_indices D) (get_le32 (drop 4 packet))) = Some p"
    "\<not> length packet < unat MessageTransportType" "\<not> kp_created (st_keyPair D k) + RejectAfterTime < now"
    "new_inbound D buffer packet k = (D0, e)"
    "addToDecryptionQueue (dv_decryption D0) e (st_in D0) = Some (q1, st1)"
    "addToInboundQueue (p_inbound (st_peer D0 p)) e st1 = Some (q2, st2)"
  shows "queue_transport D buffer packet now = Some (GetMessageBuffer
      ((upd_peer (D0\<lparr>dv_decryption := q1, st_in := st1\<rparr>) p (\<lambda>r. r\<lparr>p_inbound := q2\<rparr>))\<lparr>st_in := st2\<rparr>))"
  using assms by (simp add: queue_transport_def MessageTransportOffsetReceiver_def Let_def)

lemma queue_transport_serves:
  assumes flow: "flow_inv C p D pc ds" and serves: "serving D p" and lock: "lock_inv D p pc"
  shows "\<exists>D' b. queue_transport D buffer packet now = Some (D', b) \<and> serving D' p \<and> lock_inv D' p pc"
proof -
  let ?entry = "it_Lookup (dv_indices D) (get_le32 (drop 4 packet))"
  show ?thesis
  proof (cases "length packet < unat MessageTransportType \<or> ie_keyPair ?entry = None \<or>
      kp_created (st_keyPair D (the (ie_keyPair ?entry))) + RejectAfterTime < now")
    case True
    then have "queue_transport D buffer packet now = Some (D, buffer)"
      by (auto simp: queue_transport_def Let_def MessageTransportOffsetReceiver_def split: option.split)
    with serves lock show ?thesis by simp
  next
    case False
    then obtain k where k: "ie_keyPair ?entry = Some k" "ie_peer ?entry = Some p"
      using serves by (auto simp: serving_def)
    let ?x = "\<lparr>qi_dropped = False, qi_locked = True, qi_buffer = buffer, qi_packet = packet, qi_counter = 0, qi_keyPair = Some k\<rparr>"
    obtain q1 st1 st2 where add:
      "addToDecryptionQueue (dv_decryption D) (st_nextElem D) ((st_in D)(st_nextElem D := ?x)) = Some (q1, st1)"
      "addToInboundQueue (p_inbound (st_peer D p)) (st_nextElem D) st1 =
        Some (pushed (p_inbound (st_peer D p)) (st_nextElem D), st2)"
      and locks: "\<And>D'. dv_decryption D' = q1 \<Longrightarrow> st_in D' = st2 \<Longrightarrow>
        p_inbound (st_peer D' p) = pushed (p_inbound (st_peer D p)) (st_nextElem D) \<Longrightarrow> lock_inv D' p pc"
      using lock_inv_queued [OF flow lock, of ?x] by auto
    define D0 where "D0 = fst (new_inbound D buffer packet k)"
    have D0: "new_inbound D buffer packet k = (D0, st_nextElem D)" "st_in D0 = (st_in D)(st_nextElem D := ?x)"
      "dv_decryption D0 = dv_decryption D" "st_peer D0 = st_peer D" "same_tables D D0" "timers_of D0 p = timers_of D p"
      by (simp_all add: D0_def new_inbound_def Let_def same_tables_def timers_of_def)
    define D1 where "D1 = (upd_peer (D0\<lparr>dv_decryption := q1, st_in := st1\<rparr>) p
      (\<lambda>r. r\<lparr>p_inbound := pushed (p_inbound (st_peer D p)) (st_nextElem D)\<rparr>))\<lparr>st_in := st2\<rparr>"
    have live: "\<not> length packet < unat MessageTransportType" "\<not> kp_created (st_keyPair D k) + RejectAfterTime < now"
      using False k(1) by simp_all
    have run: "queue_transport D buffer packet now = Some (GetMessageBuffer D1)"
      unfolding D1_def by (rule queue_transport_known [OF k live D0(1)]) (unfold D0(2-4), (rule add)+)
    have "lock_inv D1 p pc" by (rule locks) (simp_all add: D1_def upd_peer_def)
    moreover have "serving D1 p"
    proof (rule serving_kept [OF serves])
      show "same_tables D D1" using D0(5) by (simp add: D1_def same_tables_def upd_peer_def)
      show "timers_ready D1 p" using serves D0(6) by (simp add: D1_def serving_def timers_of_def upd_peer_def)
    qed
    ultimately show ?thesis
      using run serving_GetMessageBuffer [of D1 p pc] by (cases "GetMessageBuffer D1") simp
  qed
qed

lemma handleUDP_serves:
  assumes flow: "flow_inv C p D pc ds" and serves: "serving D p" and lock: "lock_inv D p pc"
  shows "\<exists>D' b. handleUDP D buffer packet raddr now = Some (D', b) \<and> serving D' p \<and> lock_inv D' p pc"
proof (cases "MinMessageSize \<le> length packet \<and> get_le32 packet = MessageTransportType")
  case True
  with queue_transport_serves [OF assms] show ?thesis by (simp add: handleUDP_def)
next
  case False
  let ?elem = "\<lparr>qh_msgType = get_le32 packet, qh_packet = packet, qh_buffer = buffer, qh_source = raddr\<rparr>"
  have "seq_inv (dv_handshakeQueue D, st_pool D)" using serves by (simp add: serving_def seq_inv_def)
  from handshake_contract [OF this, of ?elem] obtain q pool where
    add: "addToHandshakeQueue (dv_handshakeQueue D) ?elem (st_pool D) = Some (q, pool)" "seq_inv (q, pool)"
    by blast
  let ?D = "D\<lparr>dv_handshakeQueue := q, st_pool := pool\<rparr>"
  have "lock_inv ?D p pc" by (rule lock_inv_same [OF lock]) simp_all
  moreover have "serving ?D p" using serves add(2) by (simp add: serving_def timers_of_def seq_inv_def)
  ultimately show ?thesis
    using False add(1) serves lock serving_GetMessageBuffer [of ?D p pc]
    by (cases "GetMessageBuffer ?D") (auto simp: handleUDP_def Let_def)
qed

section \<open>The workers\<close>

definition opens_in_place :: "crypto \<Rightarrow> bool" where
  "opens_in_place C \<longleftrightarrow> (\<forall>n. \<not> aead_refuses C 0 (n - TagSize) MessageTransportOffsetContent n)"

lemma RoutineDecryption_serves:
  assumes flow: "flow_inv C p D pc ds" and serves: "serving D p" and lock: "lock_inv D p pc"
    and accepts: "opens_in_place C" and some: "chan_buf (dv_decryption D) \<noteq> []"
  shows "\<exists>D'. RoutineDecryption C D = Some D' \<and> serving D' p \<and> lock_inv D' p pc \<and>
    Suc (length (chan_buf (dv_decryption D'))) = length (chan_buf (dv_decryption D)) \<and>
    p_inbound (st_peer D' p) = p_inbound (st_peer D p)"
proof -
  obtain e es where es: "chan_buf (dv_decryption D) = e # es" using some by (cases "chan_buf (dv_decryption D)") auto
  define q where "q = (dv_decryption D)\<lparr>chan_buf := es\<rparr>"
  with es have q: "chan_recv (dv_decryption D) = Some (e, q)" "chan_buf (dv_decryption D) = e # chan_buf q"
    by (simp_all add: chan_recv_def)
  note head = decrypted_head [OF flow q(1)]
  obtain k where k: "qi_keyPair (st_in D e) = Some k" using head(1) unfolding raw_elem_def by blast
  show ?thesis
  proof (cases "qi_dropped (st_in D e)")
    case True
    let ?D = "D\<lparr>dv_decryption := q\<rparr>"
    have "lock_inv ?D p pc"
      using lock True q(2) by (auto simp: lock_inv_def line_up_def)
    moreover have "serving ?D p" using serves by (simp add: serving_def timers_of_def)
    ultimately show ?thesis using q True by (simp add: RoutineDecryption_def qi_IsDropped_def)
  next
    case False
    have "\<not> aead_refuses C 0 (length (qi_packet (st_in D e)) - (16 + TagSize)) 16 (length (qi_packet (st_in D e)) - 16)"
      using accepts [unfolded opens_in_place_def, rule_format, of "length (qi_packet (st_in D e)) - 16"]
      by (simp add: MessageTransportOffsetContent_def)
    then have "RoutineDecryption C D \<noteq> None"
      using q(1) False k head(1)
      by (auto simp: RoutineDecryption_def qi_IsDropped_def qi_Drop_def qi_Unlock_def upd_in_def raw_elem_def
          MessageTransportOffsetContent_def Let_def split: option.split)
    then obtain D' where run: "RoutineDecryption C D = Some D'" by blast
    note D' = RoutineDecryption_opens [OF run q(1) False head(1) k]
    have "\<not> qi_locked (opened_to C D e k)" by (simp add: opened_to_def Let_def split: option.split)
    then have "lock_inv D' p pc" using lock q(2) by (auto simp: D' lock_inv_def line_up_def)
    moreover have "serving D' p" using serves by (simp add: D' serving_def timers_of_def)
    ultimately show ?thesis using run q(2) by (simp add: D')
  qed
qed

lemma receive_element_lock:
  assumes run: "receive_element ios D p e now = Some D'" and k: "qi_keyPair (st_in D e) = Some k"
    and lock: "lock_inv D p Next_inbound" and e: "e \<notin> set (line_up D p Next_inbound)"
  shows "lock_inv D' p Next_inbound \<and> dv_decryption D' = dv_decryption D \<and> p_inbound (st_peer D' p) = p_inbound (st_peer D p)"
proof -
  obtain flt ok where check: "ValidateCounter (kp_replayFilter (st_keyPair D k)) (qi_counter (st_in D e)) = (flt, ok)"
    by (metis surj_pair)
  obtain D1 where D1: "in_same p (upd_keyPair D k (\<lambda>kp. kp\<lparr>kp_replayFilter := flt\<rparr>)) D1"
    "D' = D1 \<or> (ok \<and> deliver ios D1 p e = Some D')"
    by (rule receive_element_effect [OF run k check])
  then have same: "st_in D1 = st_in D" "dv_decryption D1 = dv_decryption D" "p_inbound (st_peer D1 p) = p_inbound (st_peer D p)"
    by (simp_all add: in_same_def in_others_def upd_keyPair_def)
  have "dv_decryption D' = dv_decryption D1 \<and> st_peer D' = st_peer D1 \<and> (\<forall>f. f \<noteq> e \<longrightarrow> st_in D' f = st_in D1 f)"
    using D1(2) by (auto simp: deliver_def device_PutMessageBuffer_def upd_in_def split: option.splits)
  with same e have "lock_inv D' p Next_inbound" "dv_decryption D' = dv_decryption D" "p_inbound (st_peer D' p) = p_inbound (st_peer D p)"
    by (auto intro!: lock_inv_same [OF lock] simp: set_line_up [symmetric])
  then show ?thesis by simp
qed

text \<open>The turns the two workers still have to do.\<close>

definition work :: "Device \<Rightarrow> pid \<Rightarrow> receiver_pc \<Rightarrow> nat" where
  "work D p pc = length (chan_buf (dv_decryption D)) + 2 * length (chan_buf (p_inbound (st_peer D p))) +
    (case pc of Next_inbound \<Rightarrow> 0 | Lock_inbound _ \<Rightarrow> 1)"

definition receiver_waits :: "Device \<Rightarrow> pid \<Rightarrow> receiver_pc \<Rightarrow> bool" where
  "receiver_waits D p pc = (case pc of Next_inbound \<Rightarrow> chan_buf (p_inbound (st_peer D p)) = [] | Lock_inbound e \<Rightarrow> qi_locked (st_in D e))"

lemma receiver_takes:
  assumes serves: "serving D p" and lock: "lock_inv D p Next_inbound" and some: "chan_buf (p_inbound (st_peer D p)) \<noteq> []"
  shows "\<exists>D' e. RoutineSequentialReceiver ios D p Next_inbound now = Some (D', Lock_inbound e) \<and> serving D' p \<and>
    lock_inv D' p (Lock_inbound e) \<and> Suc (work D' p (Lock_inbound e)) = work D p Next_inbound"
proof -
  obtain e es where es: "chan_buf (p_inbound (st_peer D p)) = e # es"
    using some by (cases "chan_buf (p_inbound (st_peer D p))") auto
  define q where "q = (p_inbound (st_peer D p))\<lparr>chan_buf := es\<rparr>"
  with es have q: "chan_recv (p_inbound (st_peer D p)) = Some (e, q)" "chan_buf q = es" by (simp_all add: chan_recv_def)
  let ?D = "upd_peer D p (\<lambda>r. r\<lparr>p_inbound := q\<rparr>)"
  have "serving ?D p"
    by (rule serving_kept [OF serves])
      (use serves in \<open>simp_all add: serving_def same_tables_def timers_of_def upd_peer_def\<close>)
  moreover have "lock_inv ?D p (Lock_inbound e)"
    using lock es q(2) by (simp add: lock_inv_def line_up_def upd_peer_def)
  moreover have "Suc (work ?D p (Lock_inbound e)) = work D p Next_inbound"
    using es q(2) by (simp add: work_def upd_peer_def)
  ultimately show ?thesis using q(1) by simp
qed

lemma receiver_handles:
  assumes flow: "flow_inv C p D (Lock_inbound e) ds" and serves: "serving D p" and lock: "lock_inv D p (Lock_inbound e)"
    and open_lock: "\<not> qi_locked (st_in D e)"
  shows "\<exists>D'. RoutineSequentialReceiver ios D p (Lock_inbound e) now = Some (D', Next_inbound) \<and> serving D' p \<and>
    lock_inv D' p Next_inbound \<and> Suc (work D' p Next_inbound) = work D p (Lock_inbound e)"
proof -
  let ?D = "upd_in D e (\<lambda>x. x\<lparr>qi_locked := True\<rparr>)"
  have once: "e \<notin> set (line_up ?D p Next_inbound)" using lock by (simp add: lock_inv_def line_up_def upd_in_def)
  then have next_lock: "lock_inv ?D p Next_inbound" using lock by (auto simp: lock_inv_def line_up_def upd_in_def)
  have next_serves: "serving ?D p"
    by (rule serving_kept [OF serves])
      (use serves in \<open>simp_all add: serving_def same_tables_def timers_of_def upd_in_def\<close>)
  have step: "Suc (work ?D p Next_inbound) = work D p (Lock_inbound e)" by (simp add: work_def upd_in_def)
  show ?thesis
  proof (cases "qi_dropped (st_in D e)")
    case True
    then have "RoutineSequentialReceiver ios D p (Lock_inbound e) now = Some (?D, Next_inbound)"
      using open_lock by (simp add: qi_IsDropped_def upd_in_def)
    with next_serves next_lock step show ?thesis by blast
  next
    case False
    with flow open_lock obtain k where "qi_keyPair (st_in D e) = Some k"
      by (auto simp: flow_inv_def in_flight_def opened_elem_def)
    then have k: "qi_keyPair (st_in ?D e) = Some k" by (simp add: upd_in_def)
    obtain D' where D': "receive_element ios ?D p e now = Some D'" "serving D' p"
      using serving_receive [OF next_serves k] by blast
    have "RoutineSequentialReceiver ios D p (Lock_inbound e) now = Some (D', Next_inbound)"
      using open_lock False D'(1) by (simp add: qi_IsDropped_def upd_in_def)
    moreover note receive_element_lock [OF D'(1) k next_lock once]
    ultimately show ?thesis using D'(2) step by (auto simp: work_def)
  qed
qed

lemma RoutineSequentialReceiver_serves:
  assumes flow: "flow_inv C p D pc ds" and serves: "serving D p" and lock: "lock_inv D p pc" and ready: "\<not> receiver_waits D p pc"
  shows "\<exists>D' pc'. RoutineSequentialReceiver ios D p pc now = Some (D', pc') \<and> serving D' p \<and> lock_inv D' p pc' \<and>
    Suc (work D' p pc') = work D p pc"
proof (cases pc)
  case Next_inbound
  with receiver_takes [OF serves, of ios now] lock ready show ?thesis by (auto simp: receiver_waits_def)
next
  case (Lock_inbound e)
  with receiver_handles [of C p D e ds ios now] flow serves lock ready show ?thesis by (auto simp: receiver_waits_def)
qed

section \<open>Every interleaving\<close>

text \<open>The runs of the flow in which the rest of the program leaves the device serving the peer.\<close>

inductive serving_reachable :: "crypto \<Rightarrow> bool \<Rightarrow> pid \<Rightarrow> in_system \<Rightarrow> bool"
  for C ios p where
  start: "in_start p D \<Longrightarrow> serving D p \<Longrightarrow> serving_reachable C ios p (in_init D)"
| step: "serving_reachable C ios p s \<Longrightarrow> in_step C ios p ev s = Some s' \<Longrightarrow> serving_reachable C ios p s'"
| other: "serving_reachable C ios p s \<Longrightarrow> in_others p (is_dev s) D \<Longrightarrow> serving D p \<Longrightarrow>
    serving_reachable C ios p (s\<lparr>is_dev := D\<rparr>)"

lemma serving_reachable_flow:
  assumes "serving_reachable C ios p s"
  shows "in_reachable C ios p s" "flow_inv C p (is_dev s) (is_receiver s) (is_datagrams s)"
proof -
  show "in_reachable C ios p s"
    using assms by induction (auto intro: in_reachable.intros)
  then show "flow_inv C p (is_dev s) (is_receiver s) (is_datagrams s)"
    using in_reachable_inv by (auto simp: in_inv_def)
qed

lemma receiver_waits_iff:
  assumes "flow_inv C p D pc ds" "serving D p" "lock_inv D p pc"
  shows "RoutineSequentialReceiver ios D p pc now = None \<longleftrightarrow> receiver_waits D p pc"
proof
  show "RoutineSequentialReceiver ios D p pc now = None \<Longrightarrow> receiver_waits D p pc"
    using RoutineSequentialReceiver_serves [OF assms, of ios now] by fastforce
  show "receiver_waits D p pc \<Longrightarrow> RoutineSequentialReceiver ios D p pc now = None"
    by (cases pc) (simp_all add: receiver_waits_def chan_recv_def)
qed

definition worker :: "in_event \<Rightarrow> bool" where
  "worker ev = (case ev of Datagram _ _ _ \<Rightarrow> False | _ \<Rightarrow> True)"

abbreviation served :: "in_system \<Rightarrow> pid \<Rightarrow> bool" where
  "served s p \<equiv> serving (is_dev s) p \<and> lock_inv (is_dev s) p (is_receiver s)"

abbreviation works :: "in_system \<Rightarrow> pid \<Rightarrow> nat" where
  "works s p \<equiv> work (is_dev s) p (is_receiver s)"

lemma in_step_serves:
  assumes flow: "flow_inv C p (is_dev s) (is_receiver s) (is_datagrams s)" and served: "served s p"
    and C: "opens_in_place C" and step: "in_step C ios p ev s = Some s'"
  shows "served s' p \<and> (worker ev \<longrightarrow> Suc (works s' p) = works s p)"
proof (cases ev)
  case (Datagram packet raddr now)
  from step Datagram obtain D b where "handleUDP (is_dev s) (is_buffer s) packet raddr now = Some (D, b)"
    "is_dev s' = D" "is_receiver s' = is_receiver s"
    by (auto split: option.splits)
  with handleUDP_serves [OF flow, of "is_buffer s" packet raddr now] served Datagram show ?thesis by (simp add: worker_def)
next
  case Decrypt_step
  with step obtain D where D: "RoutineDecryption C (is_dev s) = Some D" "s' = s\<lparr>is_dev := D\<rparr>" by auto
  then have "chan_buf (dv_decryption (is_dev s)) \<noteq> []" by (auto simp: RoutineDecryption_def chan_recv_def)
  with RoutineDecryption_serves [OF flow _ _ C] served D show ?thesis by (auto simp: work_def)
next
  case (Receive_step now)
  with step obtain D pc where D: "RoutineSequentialReceiver ios (is_dev s) p (is_receiver s) now = Some (D, pc)"
    "is_dev s' = D" "is_receiver s' = pc"
    by (auto simp: Let_def split: option.splits)
  then have "\<not> receiver_waits (is_dev s) p (is_receiver s)"
    using receiver_waits_iff [OF flow, of ios now] served by simp
  with RoutineSequentialReceiver_serves [OF flow, of ios now] served D show ?thesis by simp
qed

lemma serving_reachable_serves: "serving_reachable C ios p s \<Longrightarrow> opens_in_place C \<Longrightarrow> served s p"
proof (induction rule: serving_reachable.induct)
  case (start D)
  have "lock_inv D p Next_inbound" using start(1) by (simp add: lock_inv_def line_up_def in_start_def)
  with start(2) serving_GetMessageBuffer [of D p Next_inbound] show ?case
    by (cases "GetMessageBuffer D") (simp add: in_init_def)
next
  case (step s ev s')
  with in_step_serves [OF serving_reachable_flow(2) [OF step.hyps(1)]] show ?case by blast
next
  case (other s D)
  with lock_inv_others [of "is_dev s" p "is_receiver s" D] show ?case by simp
qed

lemma in_run_serves:
  "in_run C ios p evs s = Some s' \<Longrightarrow> serving_reachable C ios p s \<Longrightarrow> opens_in_place C \<Longrightarrow> list_all worker evs \<Longrightarrow>
    serving_reachable C ios p s' \<and> length evs + works s' p = works s p"
proof (induction evs arbitrary: s)
  case (Cons ev evs)
  then obtain s1 where s1: "in_step C ios p ev s = Some s1" "in_run C ios p evs s1 = Some s'"
    by (auto split: option.splits)
  then have "serving_reachable C ios p s1" using Cons.prems(2) by (blast intro: serving_reachable.step)
  with Cons.IH [OF s1(2)] Cons.prems(3,4)
    in_step_serves [OF serving_reachable_flow(2) [OF Cons.prems(2)] serving_reachable_serves [OF Cons.prems(2,3)] Cons.prems(3) s1(1)]
  show ?case by simp
qed simp

text \<open>As long as there is work one of the two workers can go on.\<close>

lemma some_worker_goes_on:
  assumes reach: "serving_reachable C ios p s" and C: "opens_in_place C" and "0 < works s p"
  shows "in_step C ios p Decrypt_step s \<noteq> None \<or> in_step C ios p (Receive_step now) s \<noteq> None"
proof (cases "chan_buf (dv_decryption (is_dev s)) = []")
  case True
  note flow = serving_reachable_flow(2) [OF reach] and served = serving_reachable_serves [OF reach C]
  have "\<not> receiver_waits (is_dev s) p (is_receiver s)"
    using served assms(3) True
    by (auto simp: receiver_waits_def lock_inv_def line_up_def work_def split: receiver_pc.splits)
  with receiver_waits_iff [OF flow conjunct1 [OF served] conjunct2 [OF served], of ios now] show ?thesis
    by (auto simp: Let_def split: option.splits)
next
  case False
  with RoutineDecryption_serves [OF serving_reachable_flow(2) [OF reach] _ _ C] serving_reachable_serves [OF reach C]
  show ?thesis by fastforce
qed

text \<open>
  Whatever datagrams came and however the routines interleave, the routine that listens takes
  every further datagram, the decryption worker stops only at an empty queue, and the receiver
  only at an empty queue or at the lock of an element that is still to be decrypted.
\<close>

lemma inbound_waits:
  assumes "serving_reachable C ios p s" "opens_in_place C"
  shows "in_step C ios p (Datagram packet raddr now) s \<noteq> None \<and>
    (in_step C ios p Decrypt_step s = None \<longleftrightarrow> chan_buf (dv_decryption (is_dev s)) = []) \<and>
    (in_step C ios p (Receive_step now) s = None \<longleftrightarrow>
      (case is_receiver s of
        Next_inbound \<Rightarrow> chan_buf (p_inbound (st_peer (is_dev s) p)) = []
      | Lock_inbound e \<Rightarrow> qi_locked (st_in (is_dev s) e) \<and> e \<in> set (chan_buf (dv_decryption (is_dev s)))))"
proof (intro conjI)
  note flow = serving_reachable_flow(2) [OF assms(1)]
  have served: "serving (is_dev s) p" "lock_inv (is_dev s) p (is_receiver s)"
    using serving_reachable_serves [OF assms] by simp_all
  show "in_step C ios p (Datagram packet raddr now) s \<noteq> None"
    using handleUDP_serves [OF flow served, of "is_buffer s" packet raddr now] by auto
  show "in_step C ios p Decrypt_step s = None \<longleftrightarrow> chan_buf (dv_decryption (is_dev s)) = []"
    using RoutineDecryption_serves [OF flow served assms(2)]
    by (cases "chan_buf (dv_decryption (is_dev s))") (auto simp: RoutineDecryption_def chan_recv_def)
  have "in_step C ios p (Receive_step now) s = None \<longleftrightarrow> receiver_waits (is_dev s) p (is_receiver s)"
    using receiver_waits_iff [OF flow served, of ios now] by (auto simp: Let_def split: option.splits)
  then show "in_step C ios p (Receive_step now) s = None \<longleftrightarrow>
      (case is_receiver s of
        Next_inbound \<Rightarrow> chan_buf (p_inbound (st_peer (is_dev s) p)) = []
      | Lock_inbound e \<Rightarrow> qi_locked (st_in (is_dev s) e) \<and> e \<in> set (chan_buf (dv_decryption (is_dev s))))"
    using served(2) by (auto simp: receiver_waits_def lock_inv_def line_up_def split: receiver_pc.splits)
qed

section \<open>Property\<close>


text \<open>A device under the two datagrams of a packet that comes twice and of one that does not open.\<close>

definition serving_device :: Device where
  "serving_device = listening_device\<lparr>dv_handshakeQueue := make_chan QueueHandshakeSize\<rparr>"

lemma serving_device_start: "in_start 0 serving_device" "serving serving_device 0"
proof -
  show "in_start 0 serving_device" using listening_start by (simp add: serving_device_def in_start_def indices_made_def)
  from rt_Insert_refines [OF empty_table_ok, of "[0, 0, 0, 0]" 0 "Some 0"] have "rt_ok (dv_routingTable listening_device)"
    by (auto simp: rt_Insert_def listening_device_def empty_table_def)
  then show "serving serving_device 0"
    by (simp add: serving_def serving_device_def)
      (simp add: listening_device_def timers_of_def timers_made_def new_timers_def seq_inv_def chan_ok_def make_chan_def size_consts
        it_Lookup_def zero_entry_def)
qed

lemma in_run_serving:
  "serving_reachable C ios p s \<Longrightarrow> in_run C ios p evs s = Some s' \<Longrightarrow> serving_reachable C ios p s'"
  by (induction evs arbitrary: s) (auto split: option.splits intro: serving_reachable.step)

definition ping_twice :: "in_event list" where
  "ping_twice = [Datagram ping_packet \<lparr>ua_IP = [10, 0, 0, 9], ua_Port = 1\<rparr> noon,
    Datagram ping_packet \<lparr>ua_IP = [10, 0, 0, 9], ua_Port = 1\<rparr> noon]"

lemma lenient_opens: "opens_in_place lenient_crypto"
  by (simp add: opens_in_place_def lenient_crypto_def)

lemma serving_run:
  assumes "map_option f (in_run lenient_crypto False 0 evs (in_init serving_device)) = Some x"
  obtains s where "serving_reachable lenient_crypto False 0 s" "f s = x"
proof -
  obtain s where "in_run lenient_crypto False 0 evs (in_init serving_device) = Some s" "f s = x"
    using assms by auto
  with in_run_serving [OF serving_reachable.start [OF serving_device_start]] that show ?thesis by blast
qed


end
