(* ===== verification/Handshake_Progress.thy ===== *)
theory Handshake_Progress
  imports Inbound_Progress
begin

text \<open>
  The handshake worker next to the inbound flow: none of the messages that reach it makes it
  panic, and its turns are among the steps the inbound flow allows the rest of the program.
\<close>

section \<open>What a turn keeps\<close>

definition entries_of :: "pid \<Rightarrow> (pid, kid) index_table \<Rightarrow> bool" where
  "entries_of p t \<longleftrightarrow> (\<forall>i. ie_keyPair (it_Lookup t i) \<noteq> None \<or> ie_handshake (it_Lookup t i) \<noteq> None \<longrightarrow>
    ie_peer (it_Lookup t i) = Some p)"

text \<open>
  A device that serves its one peer and can answer its handshakes: the peer was made by
  \<open>NewPeer\<close>, and every message in the handshake queue has the length of its type.
\<close>

definition responsive :: "Device \<Rightarrow> pid \<Rightarrow> bool" where
  "responsive D p \<longleftrightarrow> timers_ready D p \<and> rt_ok (dv_routingTable D) \<and> seq_inv (dv_handshakeQueue D, ()) \<and>
    entries_of p (dv_indices D) \<and> dv_peers D = Some p \<and> p_hasDevice (st_peer D p) \<and>
    (\<forall>e \<in> set (chan_buf (dv_handshakeQueue D)). handshake_size_ok (qh_msgType e) (length (qh_packet e)))"

lemma responsive_serves: "responsive D p \<Longrightarrow> serving D p"
  by (auto simp: responsive_def serving_def entries_of_def)

definition steady :: "pid \<Rightarrow> Device \<Rightarrow> Device \<Rightarrow> bool" where
  "steady p D D' \<longleftrightarrow> in_others p D D' \<and> (timers_ready D p \<longrightarrow> timers_ready D' p) \<and>
    dv_routingTable D' = dv_routingTable D \<and> dv_handshakeQueue D' = dv_handshakeQueue D \<and>
    (entries_of p (dv_indices D) \<longrightarrow> entries_of p (dv_indices D')) \<and> dv_peers D' = dv_peers D \<and>
    p_hasDevice (st_peer D' p) = p_hasDevice (st_peer D p)"

lemma steady_refl [simp]: "steady p D D"
  by (simp add: steady_def)

lemma steady_trans: "steady p D1 D2 \<Longrightarrow> steady p D2 D3 \<Longrightarrow> steady p D1 D3"
  by (auto simp: steady_def intro: in_others_trans)

lemma steady_responsive: "steady p D D' \<Longrightarrow> responsive D p \<Longrightarrow> responsive D' p"
  by (simp add: steady_def responsive_def)

text \<open>Changes of a peer that leave its inbound queue, its timers and its device alone.\<close>

lemma steady_peer:
  assumes "\<And>r. p_inbound (f r) = p_inbound r" "\<And>r. p_timer (f r) = p_timer r" "\<And>r. p_hasDevice (f r) = p_hasDevice r"
  shows "steady p D (upd_peer D q f)"
  using assms by (simp add: steady_def in_others_def indices_made_def upd_peer_def timers_of_def)

lemma steady_upd [simp]:
  "steady p D (set_handshake D q h)" "steady p D (set_keyPairs D q ks)" "steady p D (upd_signal D q f)"
  "steady p D (TimerHandshakeComplete D q)" "steady p D (upd_peer D q (\<lambda>r. r\<lparr>p_mac := m\<rparr>))"
  "steady p D (upd_peer D q (\<lambda>r. r\<lparr>p_endpoint := e\<rparr>))"
  by (simp_all add: set_handshake_def set_keyPairs_def upd_signal_def TimerHandshakeComplete_def steady_peer)

lemma steady_fields [simp]:
  "steady p D (D\<lparr>dv_mac := m\<rparr>)" "steady p D (D\<lparr>dv_ratelimiter := r\<rparr>)" "steady p D (D\<lparr>dv_underLoadUntil := u\<rparr>)"
  "steady p D (D\<lparr>st_sent := ss\<rparr>)"
  by (simp_all add: steady_def in_others_def indices_made_def timers_of_def)

lemma steady_timers:
  assumes "timers_ready D p"
  shows "\<exists>D'. TimerAnyAuthenticatedPacketTraversal D p now = Some D' \<and> steady p D D' \<and> dv_indices D' = dv_indices D"
    "\<exists>D'. TimerAnyAuthenticatedPacketReceived D p = Some D' \<and> steady p D D' \<and> dv_indices D' = dv_indices D"
    "\<exists>D'. TimerEphemeralKeyCreated D p now = Some D' \<and> steady p D D' \<and> dv_indices D' = dv_indices D"
proof -
  note timers = TimerAnyAuthenticatedPacketTraversal_def TimerAnyAuthenticatedPacketReceived_def TimerEphemeralKeyCreated_def
  have kept: "steady p D (upd_timer D p f)" if "timers_made (f (timers_of D p))" for f
    using that by (simp add: steady_def in_others_def indices_made_def) (simp add: upd_timer_def upd_peer_def)
  obtain a b c d where t: "tm_keepalivePersistent (timers_of D p) = Some a" "tm_keepalivePassive (timers_of D p) = Some b"
    "tm_newHandshake (timers_of D p) = Some c" "tm_zeroAllKeys (timers_of D p) = Some d"
    using assms by (auto simp: timers_made_def)
  note t' = t [unfolded timers_of_def]
  show "\<exists>D'. TimerAnyAuthenticatedPacketTraversal D p now = Some D' \<and> steady p D D' \<and> dv_indices D' = dv_indices D"
    "\<exists>D'. TimerAnyAuthenticatedPacketReceived D p = Some D' \<and> steady p D D' \<and> dv_indices D' = dv_indices D"
    "\<exists>D'. TimerEphemeralKeyCreated D p now = Some D' \<and> steady p D D' \<and> dv_indices D' = dv_indices D"
    using t by (auto simp: timers t' Let_def timers_made_def upd_timer_def [of _ p] upd_peer_def intro!: kept [unfolded upd_timer_def upd_peer_def])
qed

section \<open>The handshake\<close>

lemma steady_initiation: "ConsumeMessageInitiation C D msg now now2 = (D', r) \<Longrightarrow> steady p D D' \<and> (r = None \<or> r = dv_peers D)"
  by (auto simp: ConsumeMessageInitiation_def LookupPeer_def Let_def split: if_splits option.splits prod.splits)

lemma steady_response:
  assumes "ConsumeMessageResponse C D msg = (D', Some q)" "entries_of p (dv_indices D)"
  shows "steady p D D' \<and> q = p"
  using assms by (auto simp: ConsumeMessageResponse_def entries_of_def Let_def split: if_splits option.splits prod.splits)

lemma steady_refused: "ConsumeMessageResponse C D msg = (D', None) \<Longrightarrow> steady p D D'"
  by (auto simp: ConsumeMessageResponse_def Let_def split: if_splits option.splits prod.splits)

text \<open>The table changes only at the indices of the peer's handshakes.\<close>

lemma steady_indices:
  assumes "entries_of p (dv_indices D) \<Longrightarrow> entries_of p t"
    "\<And>i k. ie_keyPair (it_Lookup t i) = Some k \<Longrightarrow> ie_keyPair (it_Lookup (dv_indices D) i) = Some k"
  shows "steady p D (D\<lparr>dv_indices := t\<rparr>)"
  using assms by (simp add: steady_def in_others_def indices_made_def timers_of_def) blast

lemma entries_of_Delete: "entries_of p t \<Longrightarrow> entries_of p (it_Delete t i)"
  by (auto simp: entries_of_def it_Delete_def it_Lookup_def zero_entry_def split: option.splits if_splits)

lemma entries_of_Insert: "entries_of p t \<Longrightarrow> ie_peer e = Some p \<Longrightarrow> entries_of p (it_Insert t i e)"
  by (auto simp: entries_of_def it_Insert_def it_Lookup_def split: option.splits if_splits)

lemma NewIndex_quiet_table:
  "NewIndex t p ds = Some (t', i, err, ds') \<Longrightarrow> \<forall>d \<in> set ds. d_others d = id \<Longrightarrow>
    t' = t \<or> t' = it_Insert t i \<lparr>ie_peer = Some p, ie_handshake = Some p, ie_keyPair = None\<rparr>"
proof (induction ds)
  case (Cons d ds)
  then show ?case by (auto simp: NewIndex_Cons it_Insert_def Let_def simp del: NewIndex.simps split: if_splits)
qed simp

text \<open>The random source lets the search for an index end, without interference.\<close>

definition index_found :: "Device \<Rightarrow> pid \<Rightarrow> turn \<Rightarrow> bool" where
  "index_found D p tn \<longleftrightarrow> (\<forall>d \<in> set (tn_draws tn). d_others d = id) \<and>
    (\<forall>i. NewIndex (it_Delete (dv_indices D) i) p (tn_draws tn) \<noteq> None)"

lemma steady_NewIndex:
  assumes "NewIndex (it_Delete (dv_indices D) i) p ds = Some (t, j, err, ds')" "\<forall>d \<in> set ds. d_others d = id"
  shows "steady p D (D\<lparr>dv_indices := t\<rparr>)"
proof (rule steady_indices)
  note t = NewIndex_quiet_table [OF assms]
  then show "entries_of p (dv_indices D) \<Longrightarrow> entries_of p t"
    by (auto intro: entries_of_Insert entries_of_Delete)
  show "ie_keyPair (it_Lookup (dv_indices D) k) = Some v" if "ie_keyPair (it_Lookup t k) = Some v" for k v
    using t that by (auto simp: ix.look_put ix.look_del zero_entry_def split: if_splits)
qed

lemma steady_CreateMessageResponse:
  assumes "index_found D p tn"
  shows "\<exists>D' r. CreateMessageResponse C D p rnd (tn_draws tn) = Some (D', r) \<and> steady p D D'"
proof (cases "hs_state (handshake_of D p) \<noteq> HandshakeInitiationConsumed")
  case True
  then show ?thesis by (simp add: CreateMessageResponse_def)
next
  case False
  let ?t = "it_Delete (dv_indices D) (hs_localIndex (handshake_of D p))"
  obtain t j err ds where t: "NewIndex ?t p (tn_draws tn) = Some (t, j, err, ds)"
    using assms by (fastforce simp: index_found_def)
  have "steady p D (set_handshake (D\<lparr>dv_indices := t\<rparr>) p h)" for h
    using steady_trans [OF steady_NewIndex [OF t] steady_upd(1)] assms by (simp add: index_found_def)
  with False t show ?thesis
    by (auto simp: CreateMessageResponse_def Let_def split: prod.split)
qed

lemma steady_delete: "steady p D (D\<lparr>dv_indices := it_Delete (dv_indices D) i\<rparr>)"
  by (rule steady_indices) (auto simp: entries_of_Delete ix.look_del zero_entry_def split: if_splits)

lemma steady_new_key:
  assumes "kp_replayFilter kp = rf_Init zero_filter"
  shows "steady p D (D\<lparr>st_keyPair := (st_keyPair D)(st_nextKeyPair D := kp), st_nextKeyPair := Suc (st_nextKeyPair D),
    dv_indices := it_Insert (dv_indices D) i \<lparr>ie_peer = Some p, ie_handshake = None, ie_keyPair = Some (st_nextKeyPair D)\<rparr>\<rparr>)"
  using assms less_SucI
  by (auto simp: steady_def in_others_def indices_made_def timers_of_def ix.look_put less_Suc_eq intro: entries_of_Insert split: if_splits)

lemma steady_rotate: "\<exists>D'. rotate_initiator D p k = Some D' \<and> steady p D D'"
proof -
  have "\<exists>D1 kp. (if ks_previous (keyPairs_of D p) \<noteq> None
      then map_option (\<lambda>D'. (D', (keyPairs_of D p)\<lparr>ks_previous := None\<rparr>)) (DeleteKeyPair D (ks_previous (keyPairs_of D p)))
      else Some (D, keyPairs_of D p)) = Some (D1, kp) \<and> steady p D D1"
    using steady_delete by (auto simp: DeleteKeyPair_def)
  then obtain D1 kp where D1: "(if ks_previous (keyPairs_of D p) \<noteq> None
      then map_option (\<lambda>D'. (D', (keyPairs_of D p)\<lparr>ks_previous := None\<rparr>)) (DeleteKeyPair D (ks_previous (keyPairs_of D p)))
      else Some (D, keyPairs_of D p)) = Some (D1, kp)" "steady p D D1"
    by blast
  have "steady p D1 (upd_signal (set_keyPairs D1 p ks) p f)" for ks f
    by (rule steady_trans [OF steady_upd(2) steady_upd(3)])
  with D1 steady_trans [OF D1(2)] show ?thesis by (simp add: rotate_initiator_def Let_def)
qed

lemma steady_NewKeyPair: "\<exists>D' k. NewKeyPair C D p now = Some (D', k) \<and> steady p D D'"
proof (cases "derive_keys C (handshake_of D p)")
  case None
  then show ?thesis by (simp add: NewKeyPair_def)
next
  case (Some keys)
  then obtain init sk rk where keys: "derive_keys C (handshake_of D p) = Some (init, sk, rk)" by (metis prod_cases3)
  let ?D = "\<lambda>kp i. D\<lparr>st_keyPair := (st_keyPair D)(st_nextKeyPair D := kp), st_nextKeyPair := Suc (st_nextKeyPair D),
    dv_indices := it_Insert (dv_indices D) i \<lparr>ie_peer = Some p, ie_handshake = None, ie_keyPair = Some (st_nextKeyPair D)\<rparr>\<rparr>"
  have made: "steady p D (set_handshake (?D kp i) p h)" if "kp_replayFilter kp = rf_Init zero_filter" for kp i h
    using steady_trans [OF steady_new_key [OF that] steady_upd(1)] .
  have "\<exists>D'. rotate_initiator (set_handshake (?D kp i) p h) p k = Some D' \<and> steady p D D'"
    if "kp_replayFilter kp = rf_Init zero_filter" for kp i h k
    using steady_rotate steady_trans [OF made [OF that]] by blast
  moreover have "steady p D (rotate_responder (set_handshake (?D kp i) p h) p k)"
    if "kp_replayFilter kp = rf_Init zero_filter" for kp i h k
    unfolding rotate_responder_def by (rule steady_trans [OF made [OF that] steady_upd(2)])
  ultimately show ?thesis
    using keys by (fastforce simp: NewKeyPair_def Let_def)
qed

lemma steady_SendKeepAlive:
  assumes "p_hasDevice (st_peer D p)"
  shows "\<exists>D' b. SendKeepAlive D p = Some (D', b) \<and> steady p D D'"
proof -
  obtain pool n where buf: "fst (GetMessageBuffer D) = D\<lparr>st_pool := pool, st_nextBuffer := n\<rparr>"
    using GetMessageBuffer_eq by blast
  define D1 where "D1 = fst (NewOutboundElement D)"
  have D1: "steady p D D1"
    using buf by (cases "GetMessageBuffer D")
      (simp add: D1_def NewOutboundElement_def Let_def steady_def in_others_def indices_made_def timers_of_def)
  have "steady p D1 (upd_peer D1 p (\<lambda>r. r\<lparr>p_nonce := q\<rparr>))" for q by (rule steady_peer) simp_all
  with D1 assms show ?thesis
    by (cases "NewOutboundElement D") (auto simp: SendKeepAlive_def D1_def Let_def intro: steady_trans split: option.split)
qed

section \<open>A turn of the worker\<close>

lemma steady_ready: "steady p D D' \<Longrightarrow> timers_ready D p \<Longrightarrow> timers_ready D' p"
  by (simp add: steady_def)

lemma steady_process_response:
  assumes D: "responsive D p"
  shows "\<exists>D'. process_response C D elem tn = Some D' \<and> steady p D D'"
proof (cases "read_response (qh_packet elem)")
  case None
  then show ?thesis by (simp add: process_response_def)
next
  case msg: (Some msg)
  obtain D1 r where D1: "ConsumeMessageResponse C D msg = (D1, r)" by (metis surj_pair)
  have "timers_ready D p" "entries_of p (dv_indices D)" "p_hasDevice (st_peer D p)" using D by (simp_all add: responsive_def)
  note D = this
  show ?thesis
  proof (cases r)
    case None
    with msg D1 steady_refused [of C D msg D1 p] show ?thesis by (simp add: process_response_def)
  next
    case (Some q)
    have s1: "steady p D D1" "q = p" using steady_response [of C D msg D1 q p] D1 D(2) Some by simp_all
    obtain D2 where D2: "TimerEphemeralKeyCreated D1 p (tn_later tn) = Some D2" "steady p D1 D2"
      using steady_timers(3) [OF steady_ready [OF s1(1) D(1)]] by blast
    note s2 = steady_trans [OF s1(1) D2(2)]
    obtain D3 where D3: "TimerAnyAuthenticatedPacketTraversal D2 p (tn_later tn) = Some D3" "steady p D2 D3"
      using steady_timers(1) [OF steady_ready [OF s2 D(1)]] by blast
    note s3 = steady_trans [OF s2 D3(2)]
    obtain D4 where D4: "TimerAnyAuthenticatedPacketReceived D3 p = Some D4" "steady p D3 D4"
      using steady_timers(2) [OF steady_ready [OF s3 D(1)]] by blast
    note s4 = steady_trans [OF steady_trans [OF s3 D4(2)] steady_upd(4)]
    obtain D5 k where D5: "NewKeyPair C (TimerHandshakeComplete D4 p) p (tn_later tn) = Some (D5, k)"
      "steady p (TimerHandshakeComplete D4 p) D5"
      using steady_NewKeyPair by blast
    note s5 = steady_trans [OF s4 D5(2)]
    obtain D6 b where D6: "SendKeepAlive D5 p = Some (D6, b)" "steady p D5 D6"
      using steady_SendKeepAlive [of D5 p] s5 D(3) by (auto simp: steady_def)
    from msg D1 Some s1(2) D2(1) D3(1) D4(1) D5(1) D6(1) steady_trans [OF s5 D6(2)]
    show ?thesis by (simp add: process_response_def Let_def)
  qed
qed

lemma steady_answer:
  assumes D: "responsive D p" and found: "index_found D p tn"
  shows "\<exists>D' res. CreateMessageResponse C D p (tn_rnd tn) (tn_draws tn) = Some (D', res) \<and> steady p D D' \<and>
    (\<forall>r. res = Inr r \<longrightarrow> 32 \<le> length (write_response r))"
proof -
  obtain D' res where D': "CreateMessageResponse C D p (tn_rnd tn) (tn_draws tn) = Some (D', res)" "steady p D D'"
    using steady_CreateMessageResponse [OF found] by blast
  have "32 \<le> length (write_response r)" if "res = Inr r" for r
  proof -
    have "mr_MAC1 r = replicate 16 0 \<and> mr_MAC2 r = replicate 16 0"
      using D'(1) that by (auto simp: CreateMessageResponse_def Let_def split: if_splits option.splits prod.splits)
    then show ?thesis by (simp add: write_response_def response_arrays_def)
  qed
  with D' show ?thesis by blast
qed

lemma steady_SendBuffer: "SendBuffer D p packet ok = (D', err) \<Longrightarrow> steady p D D'"
  by (auto simp: SendBuffer_def split: option.splits if_splits)

text \<open>From the response that was made to its way out.\<close>

definition respond :: "crypto \<Rightarrow> Device \<Rightarrow> pid \<Rightarrow> MessageResponse \<Rightarrow> turn \<Rightarrow> Device option" where
  "respond C D p response tn = do {
     D \<leftarrow> TimerEphemeralKeyCreated D p (tn_later tn);
     (D, _) \<leftarrow> NewKeyPair C D p (tn_later tn);
     (mac, packet) \<leftarrow> AddMacs C (p_mac (st_peer D p)) (write_response response) (tn_later tn);
     let D = upd_peer D p (\<lambda>r. r\<lparr>p_mac := mac\<rparr>);
     let (D, err) = SendBuffer D p packet (tn_ok tn);
     if err then Some D else TimerAnyAuthenticatedPacketTraversal D p (tn_later tn)
   }"

lemma steady_respond:
  assumes D: "timers_ready D p" and r: "32 \<le> length (write_response r)"
  shows "\<exists>D'. respond C D p r tn = Some D' \<and> steady p D D'"
proof -
  obtain D1 where D1: "TimerEphemeralKeyCreated D p (tn_later tn) = Some D1" "steady p D D1"
    using steady_timers(3) [OF D] by blast
  obtain D2 k where D2: "NewKeyPair C D1 p (tn_later tn) = Some (D2, k)" "steady p D1 D2"
    using steady_NewKeyPair by blast
  obtain mac packet where mac: "AddMacs C (p_mac (st_peer D2 p)) (write_response r) (tn_later tn) = Some (mac, packet)"
    using AddMacs_total [OF r] by blast
  define D3 where "D3 = upd_peer D2 p (\<lambda>r. r\<lparr>p_mac := mac\<rparr>)"
  obtain D4 err where D4: "SendBuffer D3 p packet (tn_ok tn) = (D4, err)" by (metis surj_pair)
  have s4: "steady p D D4"
    using steady_trans [OF steady_trans [OF D1(2) D2(2)] steady_trans [OF steady_upd(5) steady_SendBuffer [OF D4, unfolded D3_def]]] .
  obtain D5 where D5: "TimerAnyAuthenticatedPacketTraversal D4 p (tn_later tn) = Some D5" "steady p D4 D5"
    using steady_timers(1) [OF steady_ready [OF s4 D]] by blast
  from D1(1) D2(1) mac D4 [unfolded D3_def] D5(1) s4 steady_trans [OF s4 D5(2)]
  show ?thesis by (auto simp: respond_def Let_def)
qed

lemma steady_process_initiation:
  assumes D: "responsive D p" and found: "index_found D p tn"
  shows "\<exists>D'. process_initiation C D elem tn = Some D' \<and> steady p D D'"
proof (cases "read_initiation (qh_packet elem)")
  case None
  then show ?thesis by (simp add: process_initiation_def)
next
  case msg: (Some msg)
  obtain D1 r where D1: "ConsumeMessageInitiation C D msg (tn_now tn) (tn_later tn) = (D1, r)" by (metis surj_pair)
  note s1 = steady_initiation [OF D1, of p]
  show ?thesis
  proof (cases r)
    case None
    with msg D1 s1 show ?thesis by (simp add: process_initiation_def)
  next
    case (Some q)
    then have q: "q = p" using s1 D by (simp add: responsive_def)
    have ready: "timers_ready D p" and ix1: "dv_indices D1 = dv_indices D"
      using D D1 by (auto simp: responsive_def ConsumeMessageInitiation_def Let_def set_handshake_def upd_peer_def
          split: if_splits option.splits prod.splits)
    obtain D2 where D2: "TimerAnyAuthenticatedPacketTraversal D1 p (tn_later tn) = Some D2" "steady p D1 D2" "dv_indices D2 = dv_indices D1"
      using steady_timers(1) [OF steady_ready [OF _ ready]] s1 by blast
    have s2: "steady p D D2" using steady_trans [OF _ D2(2)] s1 by blast
    obtain D3 where D3: "TimerAnyAuthenticatedPacketReceived D2 p = Some D3" "steady p D2 D3" "dv_indices D3 = dv_indices D2"
      using steady_timers(2) [OF steady_ready [OF s2 ready]] by blast
    define D4 where "D4 = upd_peer D3 p (\<lambda>r. r\<lparr>p_endpoint := Some (qh_source elem)\<rparr>)"
    have s4: "steady p D D4" unfolding D4_def by (rule steady_trans [OF steady_trans [OF s2 D3(2)] steady_upd(6)])
    have "index_found D4 p tn"
      using found by (simp add: index_found_def D4_def upd_peer_def D3(3) D2(3) ix1)
    from steady_answer [OF steady_responsive [OF s4 D] this] obtain D5 res where
      D5: "CreateMessageResponse C D4 p (tn_rnd tn) (tn_draws tn) = Some (D5, res)" "steady p D4 D5"
        "\<And>r. res = Inr r \<Longrightarrow> 32 \<le> length (write_response r)" by blast
    note s5 = steady_trans [OF s4 D5(2)]
    have "process_initiation C D elem tn = (case res of Inl _ \<Rightarrow> Some D5 | Inr response \<Rightarrow> respond C D5 p response tn)"
      using msg D1 Some q D2(1) D3(1) D5(1) [unfolded D4_def]
      by (simp add: process_initiation_def respond_def Let_def split: sum.split)
    then show ?thesis
      using s5 D5(3) steady_trans [OF s5] steady_respond [OF steady_ready [OF s5 ready]] by (cases res) fastforce+
  qed
qed

lemma steady_createUDPConn: "createUDPConn N D addr = (D', ok) \<Longrightarrow> steady p D D'"
  by (auto simp: createUDPConn_def steady_def in_others_def indices_made_def timers_of_def Let_def split: if_splits)

lemma steady_changeNetwork:
  assumes D: "responsive D p"
  shows "\<exists>D'. changeNetwork C N D endpoint now = Some D' \<and> steady p D D'"
proof (cases "parseEndpoint N endpoint")
  case None
  then show ?thesis by (simp add: changeNetwork_def SetOperation_def uapi_line_def set_endpoint_def)
next
  case (Some addr)
  define D1 where "D1 = upd_peer D p (\<lambda>q. q\<lparr>p_endpoint := Some addr\<rparr>)"
  obtain D2 ok where D2: "createUDPConn N D1 addr = (D2, ok)" by (metis surj_pair)
  have s2: "steady p D D2" using steady_trans [OF steady_upd(6) steady_createUDPConn [OF D2 [unfolded D1_def]]] .
  then have "p_hasDevice (st_peer D2 p)" "dv_peers D = Some p" using D by (simp_all add: steady_def responsive_def)
  with Some D2 s2 show ?thesis
    by (cases ok) (simp_all add: changeNetwork_def SetOperation_def uapi_line_def set_endpoint_def D1_def Let_def)
qed

lemma handshake_lengths:
  "handshake_size_ok ty n \<Longrightarrow> ty = MessageInitiationType \<or> ty = MessageResponseType \<Longrightarrow> 32 \<le> n"
  by (auto simp: handshake_size_ok_def size_consts type_consts split: if_splits)

lemma CreateReply_total: "32 \<le> length msg \<Longrightarrow> CreateReply C st msg recv src now rnd now2 rnd2 \<noteq> None"
  by (auto simp: CreateReply_def Size128_def Let_def split: prod.split bool.split)

lemma steady_send_cookie:
  assumes D: "responsive D p" and len: "32 \<le> length (qh_packet elem)"
  shows "\<exists>D' ok. send_cookie C N endpoint D elem tn = Some (D', ok) \<and> steady p D D'"
proof -
  obtain mac reply where reply: "CreateReply C (dv_mac D) (qh_packet elem) (get_le32 (drop 4 (qh_packet elem)))
      (qh_source elem) (tn_now tn) (tn_rnd tn) (tn_now tn) (tn_rnd2 tn) = Some (mac, reply)"
    using CreateReply_total [OF len] by (metis not_Some_eq surj_pair)
  let ?D = "D\<lparr>dv_mac := mac\<rparr>"
  have "responsive ?D p" by (rule steady_responsive [OF steady_fields(1) D])
  then obtain D' where "changeNetwork C N ?D endpoint (tn_later tn) = Some D'" "steady p ?D D'"
    using steady_changeNetwork by blast
  moreover from this(2) have "steady p D D'" by (rule steady_trans [OF steady_fields(1)])
  moreover have "steady p D (?D\<lparr>st_sent := ss\<rparr>)" for ss by (rule steady_trans [OF steady_fields(1) steady_fields(4)])
  ultimately show ?thesis using reply by (cases reply) (auto simp: send_cookie_def Let_def)
qed

lemma steady_IsUnderLoad: "IsUnderLoad D now = (D', b) \<Longrightarrow> steady p D D'"
  by (auto simp: IsUnderLoad_def split: if_splits)

lemma steady_admit:
  assumes D: "responsive D p" and len: "32 \<le> length (qh_packet elem)"
  shows "\<exists>D' ad. admit C N endpoint D elem tn = Some (D', ad) \<and> steady p D D'"
proof -
  obtain mac1 where mac1: "CheckMAC1 C (dv_mac D) (qh_packet elem) = Some mac1"
    using len by (simp add: CheckMAC1_def Size128_def Let_def)
  obtain D1 load where load: "IsUnderLoad D (tn_now tn) = (D1, load)" by (metis surj_pair)
  note s1 = steady_IsUnderLoad [OF load, of p]
  have "CheckMAC2 C (dv_mac D1) (qh_packet elem) (qh_source elem) (tn_now tn) \<noteq> None"
    using len by (auto simp: CheckMAC2_def Size128_def Let_def)
  then obtain mac2 where mac2: "CheckMAC2 C (dv_mac D1) (qh_packet elem) (qh_source elem) (tn_now tn) = Some mac2" by blast
  obtain D2 ok where D2: "send_cookie C N endpoint D1 elem tn = Some (D2, ok)" "steady p D1 D2"
    using steady_send_cookie [OF steady_responsive [OF s1 D] len] by blast
  have "steady p D (D1\<lparr>dv_ratelimiter := r\<rparr>)" for r by (rule steady_trans [OF s1 steady_fields(2)])
  with mac1 load s1 mac2 D2(1) steady_trans [OF s1 D2(2)] show ?thesis
    by (cases mac1; cases load; cases mac2) (auto simp: admit_def Let_def split: prod.split)
qed

lemma steady_consume_cookie: "consume_cookie C D packet tn = (D', ok) \<Longrightarrow> steady p D D'"
  by (auto simp: consume_cookie_def intro!: steady_peer split: option.splits)

lemma admit_indices: "admit C N endpoint D elem tn = Some (D', Process) \<Longrightarrow> dv_indices D' = dv_indices D"
  by (auto simp: admit_def IsUnderLoad_def Let_def split: option.splits bool.splits prod.splits if_splits)

lemma steady_handle_handshake:
  assumes D: "responsive D p" and size: "handshake_size_ok (qh_msgType elem) (length (qh_packet elem))"
    and found: "index_found D p tn"
  shows "\<exists>D' go. handle_handshake C N endpoint D elem tn = Some (D', go) \<and> steady p D D'"
proof (cases "qh_msgType elem = MessageInitiationType \<or> qh_msgType elem = MessageResponseType")
  case False
  then show ?thesis
    using steady_consume_cookie [of C D "qh_packet elem" tn _ _ p]
    by (cases "consume_cookie C D (qh_packet elem) tn") (auto simp: handle_handshake_def)
next
  case True
  note len = handshake_lengths [OF size True]
  obtain D1 ad where D1: "admit C N endpoint D elem tn = Some (D1, ad)" "steady p D D1"
    using steady_admit [OF D len] by blast
  have answers: "responsive D1 p" by (rule steady_responsive [OF D1(2) D])
  have type: "qh_msgType elem \<noteq> MessageCookieReplyType" using True by (auto simp: type_consts)
  have "\<exists>D'. (if qh_msgType elem = MessageInitiationType then process_initiation C D1 elem tn
      else process_response C D1 elem tn) = Some D' \<and> steady p D1 D'" if "ad = Process"
  proof -
    have "index_found D1 p tn" using found admit_indices D1(1) that by (simp add: index_found_def)
    then show ?thesis using steady_process_initiation [OF answers] steady_process_response [OF answers] by auto
  qed
  then show ?thesis
    using D1 True type steady_trans [OF D1(2)] by (cases ad) (fastforce simp: handle_handshake_def)+
qed

text \<open>A turn takes the oldest message; it panics on none.\<close>

lemma RoutineHandshake_answers:
  assumes D: "responsive D p" and some: "chan_buf (dv_handshakeQueue D) \<noteq> []" and found: "index_found D p tn"
  shows "\<exists>D' go. RoutineHandshake C N endpoint D True tn = Some (D', go) \<and> responsive D' p \<and> in_others p D D'"
proof -
  obtain e es where es: "chan_buf (dv_handshakeQueue D) = e # es" using some by (cases "chan_buf (dv_handshakeQueue D)") auto
  define q where "q = (dv_handshakeQueue D)\<lparr>chan_buf := es\<rparr>"
  with es have q: "chan_recv (dv_handshakeQueue D) = Some (e, q)" by (simp add: chan_recv_def)
  let ?D = "D\<lparr>dv_handshakeQueue := q\<rparr>"
  have D1: "responsive ?D p" "in_others p D ?D"
    using D es by (auto simp: responsive_def timers_of_def q_def seq_inv_def chan_ok_def in_others_def indices_made_def)
  have "handshake_size_ok (qh_msgType e) (length (qh_packet e))" using D es by (simp add: responsive_def)
  from steady_handle_handshake [OF D1(1) this, of tn C N endpoint] found obtain D' go where
    "handle_handshake C N endpoint ?D e tn = Some (D', go)" "steady p ?D D'" by (auto simp: index_found_def)
  then have "RoutineHandshake C N endpoint D True tn = Some (D', go)" "responsive D' p" "in_others p ?D D'"
    using q steady_responsive [OF _ D1(1)] by (simp_all add: RoutineHandshake_def steady_def)
  with in_others_trans [OF D1(2)] show ?thesis by blast
qed

section \<open>The three workers together\<close>

text \<open>What a turn of the inbound workers leaves to the handshakes.\<close>

definition frame :: "pid \<Rightarrow> Device \<Rightarrow> Device \<Rightarrow> bool" where
  "frame p D D' \<longleftrightarrow> dv_handshakeQueue D' = dv_handshakeQueue D \<and> dv_peers D' = dv_peers D \<and>
    p_hasDevice (st_peer D' p) = p_hasDevice (st_peer D p) \<and>
    (entries_of p (dv_indices D) \<longrightarrow> entries_of p (dv_indices D'))"

lemma frame_trans: "frame p D1 D2 \<Longrightarrow> frame p D2 D3 \<Longrightarrow> frame p D1 D3"
  by (simp add: frame_def)

lemma frame_steady: "steady p D D' \<Longrightarrow> frame p D D'"
  by (simp add: frame_def steady_def)

lemma frame_responsive: "frame p D D' \<Longrightarrow> responsive D p \<Longrightarrow> serving D' p \<Longrightarrow> responsive D' p"
  by (simp add: frame_def responsive_def serving_def)

lemma frame_timers:
  "TimerAnyAuthenticatedPacketTraversal D q now = Some D' \<Longrightarrow> frame p D D'"
  "TimerAnyAuthenticatedPacketReceived D q = Some D' \<Longrightarrow> frame p D D'"
  "TimerDataReceived D q now = Some D' \<Longrightarrow> frame p D D'"
  "frame p D (KeepKeyFreshReceiving D q now)"
  by (auto simp: frame_def TimerAnyAuthenticatedPacketTraversal_def TimerAnyAuthenticatedPacketReceived_def TimerDataReceived_def
      KeepKeyFreshReceiving_def begin_handshake_def upd_timer_def upd_signal_def upd_peer_def Let_def
      split: if_splits option.splits)

lemma frame_confirm: "confirm_key D q k = Some D' \<Longrightarrow> frame p D D'"
  by (auto simp: frame_def confirm_key_def DeleteKeyPair_def TimerHandshakeComplete_def set_keyPairs_def upd_signal_def
      upd_peer_def Let_def entries_of_Delete split: if_splits option.splits)

lemma frame_deliver: "deliver ios D p e = Some D' \<Longrightarrow> frame p D D'"
  by (auto simp: frame_def deliver_def device_PutMessageBuffer_def upd_in_def split: option.splits)

lemma frame_receive:
  assumes "receive_element ios D p e now = Some D'"
  shows "frame p D D'"
proof -
  obtain k flt ok where k: "qi_keyPair (st_in D e) = Some k"
    "ValidateCounter (kp_replayFilter (st_keyPair D k)) (qi_counter (st_in D e)) = (flt, ok)"
    using assms by (auto simp: receive_element_def split: option.splits prod.splits)
  let ?D = "upd_keyPair D k (\<lambda>kp. kp\<lparr>kp_replayFilter := flt\<rparr>)"
  have D0: "frame p D ?D" by (simp add: frame_def upd_keyPair_def)
  show ?thesis
  proof (cases ok)
    case False
    with assms k D0 show ?thesis by (simp add: receive_element_def)
  next
    case True
    with assms k obtain D1 D2 D3 where run: "TimerAnyAuthenticatedPacketTraversal ?D p now = Some D1"
      "TimerAnyAuthenticatedPacketReceived D1 p = Some D2" "confirm_key (KeepKeyFreshReceiving D2 p now) p k = Some D3"
      and last: "(if length (qi_packet (st_in D3 e)) = 0 then Some D3
        else TimerDataReceived D3 p now \<bind> (\<lambda>D. deliver ios D p e)) = Some D'"
      by (auto simp: receive_element_def Let_def split: Option.bind_splits)
    have D3: "frame p D D3"
      using frame_trans [OF frame_trans [OF D0 frame_timers(1) [OF run(1)]]
          frame_trans [OF frame_timers(2) [OF run(2)] frame_trans [OF frame_timers(4) frame_confirm [OF run(3)]]]] .
    show ?thesis
    proof (cases "length (qi_packet (st_in D3 e)) = 0")
      case True
      with last D3 show ?thesis by simp
    next
      case False
      with last obtain D4 where "TimerDataReceived D3 p now = Some D4" "deliver ios D4 p e = Some D'"
        by (auto split: Option.bind_splits)
      with frame_trans [OF D3 frame_trans [OF frame_timers(3) frame_deliver]] show ?thesis by blast
    qed
  qed
qed

lemma frame_receiver:
  assumes "RoutineSequentialReceiver ios D p pc now = Some (D', pc')"
  shows "frame p D D'"
proof (cases pc)
  case Next_inbound
  with assms show ?thesis by (auto simp: frame_def upd_peer_def split: option.splits)
next
  case (Lock_inbound e)
  have "frame p D (upd_in D e (\<lambda>x. x\<lparr>qi_locked := True\<rparr>))" by (simp add: frame_def upd_in_def)
  with assms Lock_inbound frame_receive frame_trans show ?thesis
    by (auto simp: Let_def split: if_splits)
qed

lemma frame_decryption: "RoutineDecryption C D = Some D' \<Longrightarrow> frame p D D'"
  by (auto simp: frame_def RoutineDecryption_def qi_Unlock_def upd_in_def Let_def split: option.splits if_splits)

text \<open>Only messages of the length of their type are queued for the handshake worker.\<close>

lemma responsive_GetMessageBuffer: "responsive D p \<Longrightarrow> GetMessageBuffer D = (D', b) \<Longrightarrow> responsive D' p"
  using GetMessageBuffer_eq [of D] by (auto simp: responsive_def timers_of_def)

lemma frame_queue_transport: "queue_transport D buffer packet now = Some (D', b) \<Longrightarrow> frame p D D'"
proof (cases "D' = D")
  case False
  assume "queue_transport D buffer packet now = Some (D', b)"
  from this False show ?thesis by (rule queue_transport_cases) (simp add: frame_def upd_peer_def)
qed (simp add: frame_def)

lemma responsive_handleUDP:
  assumes D: "responsive D p" and run: "handleUDP D buffer packet raddr now = Some (D', b)" and serves: "serving D' p"
  shows "responsive D' p"
proof (cases "MinMessageSize \<le> length packet \<and> get_le32 packet \<noteq> MessageTransportType \<and>
    handshake_size_ok (get_le32 packet) (length packet)")
  case False
  then have "D' = D \<or> queue_transport D buffer packet now = Some (D', b)"
    using run by (auto simp: handleUDP_def Let_def split: if_splits)
  with D serves frame_queue_transport frame_responsive show ?thesis by blast
next
  case True
  let ?elem = "\<lparr>qh_msgType = get_le32 packet, qh_packet = packet, qh_buffer = buffer, qh_source = raddr\<rparr>"
  have "seq_inv (dv_handshakeQueue D, st_pool D)" using D by (simp add: responsive_def seq_inv_def)
  from handshake_contract [OF this, of ?elem] obtain q pool where
    add: "addToHandshakeQueue (dv_handshakeQueue D) ?elem (st_pool D) = Some (q, pool)" "seq_inv (q, pool)"
      "chan_buf q = drop (Suc (length (chan_buf (dv_handshakeQueue D))) - chan_cap (dv_handshakeQueue D))
        (chan_buf (dv_handshakeQueue D) @ [?elem])" by blast
  have "set (chan_buf q) \<subseteq> insert ?elem (set (chan_buf (dv_handshakeQueue D)))"
    unfolding add(3) using set_drop_subset [of "Suc (length (chan_buf (dv_handshakeQueue D))) - chan_cap (dv_handshakeQueue D)"
        "chan_buf (dv_handshakeQueue D) @ [?elem]"] by (simp del: drop_append)
  then have "responsive (D\<lparr>dv_handshakeQueue := q, st_pool := pool\<rparr>) p"
    using D True add(2) by (auto simp: responsive_def timers_of_def seq_inv_def)
  moreover have "GetMessageBuffer (D\<lparr>dv_handshakeQueue := q, st_pool := pool\<rparr>) = (D', b)"
    using run True add(1) by (simp add: handleUDP_def Let_def)
  ultimately show ?thesis by (rule responsive_GetMessageBuffer)
qed

text \<open>
  The runs of the three workers and the listening routine in any order, the rest of the program
  in between. The handshake worker that has returned takes no more turns.
\<close>

inductive server_reachable :: "crypto \<Rightarrow> netenv \<Rightarrow> string \<Rightarrow> bool \<Rightarrow> pid \<Rightarrow> in_system \<Rightarrow> bool"
  for C N endpoint ios p where
  start: "in_start p D \<Longrightarrow> responsive D p \<Longrightarrow> server_reachable C N endpoint ios p (in_init D)"
| flow: "server_reachable C N endpoint ios p s \<Longrightarrow> in_step C ios p ev s = Some s' \<Longrightarrow> server_reachable C N endpoint ios p s'"
| handshake: "server_reachable C N endpoint ios p s \<Longrightarrow> index_found (is_dev s) p tn \<Longrightarrow>
    RoutineHandshake C N endpoint (is_dev s) True tn = Some (D, go) \<Longrightarrow> server_reachable C N endpoint ios p (s\<lparr>is_dev := D\<rparr>)"
| other: "server_reachable C N endpoint ios p s \<Longrightarrow> in_others p (is_dev s) D \<Longrightarrow> responsive D p \<Longrightarrow>
    server_reachable C N endpoint ios p (s\<lparr>is_dev := D\<rparr>)"

lemma responsive_in_step:
  assumes D: "responsive (is_dev s) p" and step: "in_step C ios p ev s = Some s'" and serves: "serving (is_dev s') p"
  shows "responsive (is_dev s') p"
proof (cases ev)
  case (Datagram packet raddr now)
  with responsive_handleUDP [OF D _ serves] step show ?thesis by (auto split: option.splits)
next
  case Decrypt_step
  then have "frame p (is_dev s) (is_dev s')" using step frame_decryption by auto
  then show ?thesis using frame_responsive D serves by blast
next
  case (Receive_step now)
  then have "frame p (is_dev s) (is_dev s')" using step frame_receiver by (auto simp: Let_def split: option.splits)
  then show ?thesis using frame_responsive D serves by blast
qed

lemma RoutineHandshake_idle:
  assumes "responsive D p" "chan_buf (dv_handshakeQueue D) = []" "RoutineHandshake C N endpoint D True tn = Some (D', go)"
  shows "D' = D"
  using assms by (auto simp: RoutineHandshake_def chan_recv_def split: if_splits)

lemma server_reachable_serves:
  "server_reachable C N endpoint ios p s \<Longrightarrow> opens_in_place C \<Longrightarrow> serving_reachable C ios p s \<and> responsive (is_dev s) p"
proof (induction rule: server_reachable.induct)
  case (start D)
  then have "serving_reachable C ios p (in_init D)" by (blast intro: serving_reachable.start responsive_serves)
  moreover have "responsive (is_dev (in_init D)) p"
    using start responsive_GetMessageBuffer [of D p] by (cases "GetMessageBuffer D") (simp add: in_init_def)
  ultimately show ?case by simp
next
  case (flow s ev s')
  then have next_state: "serving_reachable C ios p s'" by (blast intro: serving_reachable.step)
  with flow responsive_in_step serving_reachable_serves show ?case by blast
next
  case (handshake s tn D go)
  then have "responsive D p \<and> in_others p (is_dev s) D"
  proof (cases "chan_buf (dv_handshakeQueue (is_dev s)) = []")
    case True
    with RoutineHandshake_idle [of "is_dev s" p C N endpoint tn D go] handshake show ?thesis by simp
  next
    case False
    with RoutineHandshake_answers [of "is_dev s" p tn C N endpoint] handshake show ?thesis by auto
  qed
  with handshake show ?case by (auto intro: serving_reachable.other responsive_serves)
next
  case (other s D)
  then show ?case by (auto intro: serving_reachable.other responsive_serves)
qed

section \<open>Property\<close>


text \<open>A message with a wrong code is queued: the worker takes it, and returns.\<close>

definition responsive_device :: Device where
  "responsive_device = serving_device\<lparr>dv_peers := Some 0\<rparr>"

lemma responsive_device_start: "in_start 0 responsive_device" "responsive responsive_device 0"
proof -
  show "in_start 0 responsive_device"
    using serving_device_start(1) by (simp add: responsive_device_def in_start_def indices_made_def)
  have "p_hasDevice (st_peer responsive_device 0)" "chan_buf (dv_handshakeQueue responsive_device) = []" "entries_of 0 (dv_indices responsive_device)"
    by (simp_all add: responsive_device_def serving_device_def listening_device_def make_chan_def entries_of_def it_Lookup_def zero_entry_def)
  then show "responsive responsive_device 0"
    using serving_device_start(2) by (simp add: responsive_def serving_def responsive_device_def timers_of_def)
qed

definition wrong_code :: "in_event list" where
  "wrong_code = [Datagram ([2, 0, 0, 0] @ replicate 88 0) \<lparr>ua_IP = [10, 0, 0, 9], ua_Port = 1\<rparr> noon]"

definition one_turn :: turn where
  "one_turn = \<lparr>tn_now = noon, tn_later = noon, tn_rnd = ([], False), tn_rnd2 = ([], False), tn_draws = [quiet [9, 0, 0, 0]], tn_ok = True\<rparr>"

lemma in_run_server:
  "server_reachable C N endpoint ios p s \<Longrightarrow> in_run C ios p evs s = Some s' \<Longrightarrow> server_reachable C N endpoint ios p s'"
  by (induction evs arbitrary: s) (auto split: option.splits intro: server_reachable.flow)


end
