(* ===== verification/Key_Lifecycle.thy ===== *)
theory Key_Lifecycle
  imports Receive
begin

text \<open>
  The life of the key pairs of \<^verbatim>\<open>controller/keypair.go\<close> across the program: the handshake
  messages, the derivation of a key pair, its confirmation by the receiver and the timer that
  clears everything, in any order. What stays true of the index table, and of the sizes of keys.
\<close>

section \<open>Indices, handshakes and key pairs\<close>

text \<open>
  A table \<open>t\<close> with the index \<open>li p\<close> of the handshake of a peer, the key pairs \<open>ks p\<close> of a peer,
  the local index \<open>kl k\<close> of a key pair and the first name \<open>n\<close> not yet given to one.
\<close>

definition slots :: "KeyPairs \<Rightarrow> kid list" where
  "slots ks = concat (map (\<lambda>x. case x of None \<Rightarrow> [] | Some k \<Rightarrow> [k]) [ks_current ks, ks_previous ks, ks_next ks])"

definition pairs_indexed :: "(pid, kid) index_table \<Rightarrow> (kid \<Rightarrow> u32) \<Rightarrow> kid \<Rightarrow> bool" where
  "pairs_indexed t kl n \<longleftrightarrow> (\<forall>i k. ie_keyPair (it_Lookup t i) = Some k \<longrightarrow> k < n \<and> kl k = i)"

definition handshakes_indexed :: "(pid, kid) index_table \<Rightarrow> (pid \<Rightarrow> u32) \<Rightarrow> bool" where
  "handshakes_indexed t li \<longleftrightarrow>
    (\<forall>i p. ie_handshake (it_Lookup t i) = Some p \<longrightarrow> i \<noteq> 0 \<and> li p = i \<and>
      it_Lookup t i = \<lparr>ie_peer = Some p, ie_handshake = Some p, ie_keyPair = None\<rparr>) \<and>
    (\<forall>p. li p \<noteq> 0 \<longrightarrow> ie_handshake (it_Lookup t (li p)) = Some p)"

definition slots_indexed :: "(pid, kid) index_table \<Rightarrow> (pid \<Rightarrow> KeyPairs) \<Rightarrow> (kid \<Rightarrow> u32) \<Rightarrow> kid \<Rightarrow> bool" where
  "slots_indexed t ks kl n \<longleftrightarrow>
    (\<forall>p. distinct (slots (ks p)) \<and> (\<forall>k \<in> set (slots (ks p)). k < n \<and>
      (kl k \<noteq> 0 \<longrightarrow> it_Lookup t (kl k) = \<lparr>ie_peer = Some p, ie_handshake = None, ie_keyPair = Some k\<rparr>)))"

definition index_inv ::
  "(pid, kid) index_table \<Rightarrow> (pid \<Rightarrow> u32) \<Rightarrow> (pid \<Rightarrow> KeyPairs) \<Rightarrow> (kid \<Rightarrow> u32) \<Rightarrow> kid \<Rightarrow> bool" where
  "index_inv t li ks kl n \<longleftrightarrow>
    pairs_indexed t kl n \<and> handshakes_indexed t li \<and> slots_indexed t ks kl n"

lemmas index_inv_defs = index_inv_def pairs_indexed_def handshakes_indexed_def slots_indexed_def

lemma lookup_Delete_iff:
  "it_Lookup (it_Delete t i) j = (if j = i \<and> i \<noteq> 0 then zero_entry else it_Lookup t j)"
  by (auto simp: it_Lookup_def it_Delete_def)

lemma lookup_Insert_iff: "it_Lookup (it_Insert t i e) j = (if j = i then e else it_Lookup t j)"
  by (simp add: it_Lookup_def it_Insert_def)

lemma zero_entry_fields [simp]:
  "ie_peer zero_entry = None" "ie_handshake zero_entry = None" "ie_keyPair zero_entry = None"
  by (simp_all add: zero_entry_def)

lemma index_invD:
  assumes "index_inv t li ks kl n"
  shows "ie_keyPair (it_Lookup t i) = Some k \<Longrightarrow> k < n \<and> kl k = i"
    "ie_handshake (it_Lookup t i) = Some p \<Longrightarrow> i \<noteq> 0 \<and> li p = i \<and>
      it_Lookup t i = \<lparr>ie_peer = Some p, ie_handshake = Some p, ie_keyPair = None\<rparr>"
    "li p \<noteq> 0 \<Longrightarrow> ie_handshake (it_Lookup t (li p)) = Some p"
    "k \<in> set (slots (ks p)) \<Longrightarrow> k < n"
    "k \<in> set (slots (ks p)) \<Longrightarrow> kl k \<noteq> 0 \<Longrightarrow>
      it_Lookup t (kl k) = \<lparr>ie_peer = Some p, ie_handshake = None, ie_keyPair = Some k\<rparr>"
    "distinct (slots (ks p))"
  using assms unfolding index_inv_defs by blast+

lemma index_invI:
  assumes "\<And>i k. ie_keyPair (it_Lookup t i) = Some k \<Longrightarrow> k < n \<and> kl k = i"
    "\<And>i p. ie_handshake (it_Lookup t i) = Some p \<Longrightarrow> i \<noteq> 0 \<and> li p = i \<and>
      it_Lookup t i = \<lparr>ie_peer = Some p, ie_handshake = Some p, ie_keyPair = None\<rparr>"
    "\<And>p. li p \<noteq> 0 \<Longrightarrow> ie_handshake (it_Lookup t (li p)) = Some p"
    "\<And>p k. k \<in> set (slots (ks p)) \<Longrightarrow> k < n"
    "\<And>p k. k \<in> set (slots (ks p)) \<Longrightarrow> kl k \<noteq> 0 \<Longrightarrow>
      it_Lookup t (kl k) = \<lparr>ie_peer = Some p, ie_handshake = None, ie_keyPair = Some k\<rparr>"
    "\<And>p. distinct (slots (ks p))"
  shows "index_inv t li ks kl n"
  unfolding index_inv_defs
proof (intro conjI allI impI ballI)
qed (use assms in simp_all)

lemma slot_not_listed:
  assumes "index_inv t li ks kl n" "k \<in> set (slots (ks q))" "li p \<noteq> 0"
  shows "kl k \<noteq> li p"
proof
  assume eq: "kl k = li p"
  then have "it_Lookup t (li p) = \<lparr>ie_peer = Some q, ie_handshake = None, ie_keyPair = Some k\<rparr>"
    using index_invD(5) [OF assms(1,2)] assms(3) by simp
  with index_invD(3) [OF assms(1,3)] show False by simp
qed

lemma listed_once:
  assumes "index_inv t li ks kl n" "li p \<noteq> 0" "li q = li p"
  shows "q = p"
proof -
  have "ie_handshake (it_Lookup t (li p)) = Some q"
    using index_invD(3) [OF assms(1), of q] assms(2) unfolding assms(3) .
  with index_invD(3) [OF assms(1,2)] show ?thesis by simp
qed

text \<open>The handshake of a peer loses its index.\<close>

lemma index_inv_unlist:
  assumes inv: "index_inv t li ks kl n"
  shows "index_inv (it_Delete t (li p)) (li(p := 0)) ks kl n"
proof (cases "li p = 0")
  case True
  then have "li(p := 0) = li" by auto
  with inv True show ?thesis by (simp add: it_Delete_def)
next
  case False
  note D = index_invD [OF inv]
  show ?thesis
  proof (rule index_invI)
    show "k < n \<and> kl k = i" if "ie_keyPair (it_Lookup (it_Delete t (li p)) i) = Some k" for i k
      using that D(1) by (simp add: lookup_Delete_iff split: if_splits)
    show "i \<noteq> 0 \<and> (li(p := 0)) q = i \<and>
        it_Lookup (it_Delete t (li p)) i = \<lparr>ie_peer = Some q, ie_handshake = Some q, ie_keyPair = None\<rparr>"
      if "ie_handshake (it_Lookup (it_Delete t (li p)) i) = Some q" for i q
      using that D(2) [of i q] False by (auto simp: lookup_Delete_iff split: if_splits)
    show "ie_handshake (it_Lookup (it_Delete t (li p)) ((li(p := 0)) q)) = Some q" if "(li(p := 0)) q \<noteq> 0" for q
      using that D(3) [of q] listed_once [OF inv False, of q] by (auto simp: lookup_Delete_iff split: if_splits)
    show "it_Lookup (it_Delete t (li p)) (kl k) = \<lparr>ie_peer = Some q, ie_handshake = None, ie_keyPair = Some k\<rparr>"
      if "k \<in> set (slots (ks q))" "kl k \<noteq> 0" for q k
      using that D(5) slot_not_listed [OF inv that(1) False] by (simp add: lookup_Delete_iff)
  qed (use D(4,6) in auto)
qed

text \<open>It gets a fresh one.\<close>

lemma index_inv_list:
  assumes inv: "index_inv t li ks kl n" and i: "li p = 0" "t i = None" "i \<noteq> 0"
  shows "index_inv (t(i \<mapsto> \<lparr>ie_peer = Some p, ie_handshake = Some p, ie_keyPair = None\<rparr>)) (li(p := i)) ks kl n"
proof -
  note D = index_invD [OF inv]
  have blank: "it_Lookup t i = zero_entry" using i(2) by (simp add: it_Lookup_def)
  have look: "it_Lookup (t(i \<mapsto> e)) j = (if j = i then e else it_Lookup t j)" for e j
    by (simp add: it_Lookup_def)
  show ?thesis
  proof (rule index_invI)
    show "k < n \<and> kl k = j"
      if "ie_keyPair (it_Lookup (t(i \<mapsto> \<lparr>ie_peer = Some p, ie_handshake = Some p, ie_keyPair = None\<rparr>)) j) = Some k" for j k
      using that D(1) by (simp add: look split: if_splits)
    show "j \<noteq> 0 \<and> (li(p := i)) q = j \<and>
        it_Lookup (t(i \<mapsto> \<lparr>ie_peer = Some p, ie_handshake = Some p, ie_keyPair = None\<rparr>)) j =
          \<lparr>ie_peer = Some q, ie_handshake = Some q, ie_keyPair = None\<rparr>"
      if "ie_handshake (it_Lookup (t(i \<mapsto> \<lparr>ie_peer = Some p, ie_handshake = Some p, ie_keyPair = None\<rparr>)) j) = Some q"
      for j q
      using that D(2) [of j q] i by (auto simp: look split: if_splits)
    show "ie_handshake (it_Lookup (t(i \<mapsto> \<lparr>ie_peer = Some p, ie_handshake = Some p, ie_keyPair = None\<rparr>))
        ((li(p := i)) q)) = Some q" if "(li(p := i)) q \<noteq> 0" for q
      using that D(3) [of q] blank by (auto simp: look split: if_splits)
    show "it_Lookup (t(i \<mapsto> \<lparr>ie_peer = Some p, ie_handshake = Some p, ie_keyPair = None\<rparr>)) (kl k) =
        \<lparr>ie_peer = Some q, ie_handshake = None, ie_keyPair = Some k\<rparr>" if "k \<in> set (slots (ks q))" "kl k \<noteq> 0" for q k
      using D(5) [OF that] blank by (auto simp: look zero_entry_def)
  qed (use D(4,6) in auto)
qed

text \<open>A new key pair takes the place of the handshake.\<close>

lemma index_inv_pair:
  assumes inv: "index_inv t li ks kl n"
    and ks': "distinct (slots ks')" "set (slots ks') \<subseteq> insert n (set (slots (ks p)))"
  shows "index_inv (it_Insert t (li p) \<lparr>ie_peer = Some p, ie_handshake = None, ie_keyPair = Some n\<rparr>)
    (li(p := 0)) (ks(p := ks')) (kl(n := li p)) (Suc n)"
proof -
  note D = index_invD [OF inv]
  let ?t = "it_Insert t (li p) \<lparr>ie_peer = Some p, ie_handshake = None, ie_keyPair = Some n\<rparr>"
  have slot: "k = n \<and> q = p \<or> k \<in> set (slots (ks q))" if "k \<in> set (slots ((ks(p := ks')) q))" for k q
    using that ks'(2) by (auto split: if_splits)
  show ?thesis
  proof (rule index_invI)
    show "k < Suc n \<and> (kl(n := li p)) k = i" if "ie_keyPair (it_Lookup ?t i) = Some k" for i k
      using that D(1) [of i k] by (auto simp: lookup_Insert_iff split: if_splits)
    show "i \<noteq> 0 \<and> (li(p := 0)) q = i \<and>
        it_Lookup ?t i = \<lparr>ie_peer = Some q, ie_handshake = Some q, ie_keyPair = None\<rparr>"
      if "ie_handshake (it_Lookup ?t i) = Some q" for i q
      using that D(2) [of i q] by (auto simp: lookup_Insert_iff split: if_splits)
    show "ie_handshake (it_Lookup ?t ((li(p := 0)) q)) = Some q" if "(li(p := 0)) q \<noteq> 0" for q
    proof -
      have "q \<noteq> p" "li q \<noteq> 0" using that by (auto split: if_splits)
      moreover from this have "li q \<noteq> li p" using listed_once [OF inv, of q p] by auto
      ultimately show ?thesis using D(3) [of q] by (simp add: lookup_Insert_iff)
    qed
    show "k < Suc n" if "k \<in> set (slots ((ks(p := ks')) q))" for q k
      using slot [OF that] D(4) [of k q] by auto
    show "it_Lookup ?t ((kl(n := li p)) k) = \<lparr>ie_peer = Some q, ie_handshake = None, ie_keyPair = Some k\<rparr>"
      if k: "k \<in> set (slots ((ks(p := ks')) q))" and nz: "(kl(n := li p)) k \<noteq> 0" for q k
    proof (cases "k = n")
      case True
      then have "k \<notin> set (slots (ks q))" using D(4) [of k q] by auto
      with slot [OF k] True show ?thesis by (simp add: lookup_Insert_iff)
    next
      case False
      with slot [OF k] have old: "k \<in> set (slots (ks q))" by simp
      have "kl k \<noteq> li p"
      proof
        assume "kl k = li p"
        with slot_not_listed [OF inv old, of p] nz False show False by simp
      qed
      with False nz D(5) [OF old] show ?thesis by (simp add: lookup_Insert_iff)
    qed
    show "distinct (slots ((ks(p := ks')) q))" for q using ks'(1) D(6) by simp
  qed
qed

text \<open>A key pair leaves its slot and the table, or the slots are only moved.\<close>

lemma index_inv_drop:
  assumes inv: "index_inv t li ks kl n" and k: "k \<in> set (slots (ks p))"
    and ks': "distinct (slots ks')" "set (slots ks') \<subseteq> set (slots (ks p)) - {k}"
  shows "index_inv (it_Delete t (kl k)) li (ks(p := ks')) kl n"
proof -
  note D = index_invD [OF inv]
  have slot: "j \<in> set (slots (ks q)) \<and> (q = p \<longrightarrow> j \<noteq> k)" if "j \<in> set (slots ((ks(p := ks')) q))" for j q
    using that ks'(2) by (auto split: if_splits)
  show ?thesis
  proof (rule index_invI)
    show "j < n \<and> kl j = i" if "ie_keyPair (it_Lookup (it_Delete t (kl k)) i) = Some j" for i j
      using that D(1) by (simp add: lookup_Delete_iff split: if_splits)
    show "i \<noteq> 0 \<and> li q = i \<and>
        it_Lookup (it_Delete t (kl k)) i = \<lparr>ie_peer = Some q, ie_handshake = Some q, ie_keyPair = None\<rparr>"
      if "ie_handshake (it_Lookup (it_Delete t (kl k)) i) = Some q" for i q
      using that D(2) [of i q] by (auto simp: lookup_Delete_iff split: if_splits)
    show "ie_handshake (it_Lookup (it_Delete t (kl k)) (li q)) = Some q" if "li q \<noteq> 0" for q
      using D(3) [OF that] slot_not_listed [OF inv k that] by (simp add: lookup_Delete_iff)
    show "it_Lookup (it_Delete t (kl k)) (kl j) = \<lparr>ie_peer = Some q, ie_handshake = None, ie_keyPair = Some j\<rparr>"
      if j: "j \<in> set (slots ((ks(p := ks')) q))" and nz: "kl j \<noteq> 0" for q j
    proof -
      have "kl j \<noteq> kl k"
      proof
        assume eq: "kl j = kl k"
        have "it_Lookup t (kl k) = \<lparr>ie_peer = Some p, ie_handshake = None, ie_keyPair = Some k\<rparr>"
          using D(5) [OF k] nz eq by simp
        with D(5) [OF conjunct1 [OF slot [OF j]] nz] eq slot [OF j] show False by simp
      qed
      with D(5) [OF conjunct1 [OF slot [OF j]] nz] show ?thesis by (simp add: lookup_Delete_iff)
    qed
    show "distinct (slots ((ks(p := ks')) q))" for q using ks'(1) D(6) by simp
    show "j < n" if "j \<in> set (slots ((ks(p := ks')) q))" for q j using D(4) slot [OF that] by blast
  qed
qed

lemma index_inv_move:
  assumes inv: "index_inv t li ks kl n" and ks': "distinct (slots ks')" "set (slots ks') \<subseteq> set (slots (ks p))"
  shows "index_inv t li (ks(p := ks')) kl n"
proof -
  note D = index_invD [OF inv]
  have slot: "j \<in> set (slots (ks q))" if "j \<in> set (slots ((ks(p := ks')) q))" for j q
    using that ks'(2) by (auto split: if_splits)
  show ?thesis
  proof (rule index_invI)
    show "distinct (slots ((ks(p := ks')) q))" for q using ks'(1) D(6) by simp
    show "k < n" if "k \<in> set (slots ((ks(p := ks')) q))" for q k by (rule D(4) [OF slot [OF that]])
    show "it_Lookup t (kl k) = \<lparr>ie_peer = Some q, ie_handshake = None, ie_keyPair = Some k\<rparr>"
      if "k \<in> set (slots ((ks(p := ks')) q))" "kl k \<noteq> 0" for q k
      by (rule D(5) [OF slot [OF that(1)] that(2)])
  qed (rule D(1-3); assumption)+
qed

section \<open>The operations\<close>

definition key_inv :: "Device \<Rightarrow> bool" where
  "key_inv D \<longleftrightarrow> index_inv (dv_indices D) (\<lambda>p. hs_localIndex (handshake_of D p)) (keyPairs_of D)
    (\<lambda>k. kp_localIndex (st_keyPair D k)) (st_nextKeyPair D)"

text \<open>Random reads nobody interferes with, of zeros when they fail.\<close>

definition draws_ok :: "(pid, kid) draw list \<Rightarrow> bool" where
  "draws_ok ds \<longleftrightarrow> (\<forall>d \<in> set ds. d_others d = id \<and> (d_err d \<longrightarrow> get_le32 (d_bytes d) = 0))"

lemma NewIndex_error:
  "draws_ok ds \<Longrightarrow> NewIndex t p ds = Some (t', i, True, ds') \<Longrightarrow> t' = t \<and> i = 0"
proof (induction ds arbitrary: t)
  case (Cons d ds)
  then show ?case by (auto simp: NewIndex_Cons Let_def draws_ok_def simp del: NewIndex.simps split: if_splits)
qed simp

lemma index_inv_relist:
  assumes "index_inv t li ks kl n" "draws_ok ds" "NewIndex (it_Delete t (li p)) p ds = Some (t', i, err, ds')"
  shows "index_inv t' (li(p := i)) ks kl n"
proof (cases err)
  case True
  with assms(3) have "NewIndex (it_Delete t (li p)) p ds = Some (t', i, True, ds')" by simp
  from NewIndex_error [OF assms(2) this] index_inv_unlist [OF assms(1), of p] show ?thesis by simp
next
  case False
  have quiet: "\<forall>d \<in> set ds. d_others d = id" using assms(2) by (simp add: draws_ok_def)
  have "NewIndex (it_Delete t (li p)) p ds = Some (t', i, False, ds')" using assms(3) False by simp
  note fresh = NewIndex_quiet [OF quiet this]
  have "index_inv ((it_Delete t (li p))(i \<mapsto> \<lparr>ie_peer = Some p, ie_handshake = Some p, ie_keyPair = None\<rparr>))
      ((li(p := 0))(p := i)) ks kl n"
    by (rule index_inv_list [OF index_inv_unlist [OF assms(1)]]) (use fresh in simp_all)
  with fresh show ?thesis by simp
qed

lemma key_inv_handshake:
  assumes "key_inv D" "hs_localIndex h = hs_localIndex (handshake_of D p)"
  shows "key_inv (set_handshake D p h)"
proof -
  have "(\<lambda>q. hs_localIndex (handshake_of (set_handshake D p h) q)) = (\<lambda>q. hs_localIndex (handshake_of D q))"
    using assms(2) by auto
  with assms(1) show ?thesis by (simp add: key_inv_def keyPairs_of_set [abs_def])
qed

lemma key_inv_relist:
  assumes "key_inv D" "draws_ok ds"
    "NewIndex (it_Delete (dv_indices D) (hs_localIndex (handshake_of D p))) p ds = Some (t, hs_localIndex h, err, ds')"
  shows "key_inv (set_handshake (D\<lparr>dv_indices := t\<rparr>) p h)"
proof -
  have "(\<lambda>q. hs_localIndex (handshake_of (set_handshake (D\<lparr>dv_indices := t\<rparr>) p h) q)) =
      (\<lambda>q. hs_localIndex (handshake_of D q))(p := hs_localIndex h)"
    by auto
  moreover have "keyPairs_of (set_handshake (D\<lparr>dv_indices := t\<rparr>) p h) = keyPairs_of D" by auto
  ultimately show ?thesis
    using index_inv_relist [OF assms(1) [unfolded key_inv_def] assms(2,3)] by (simp add: key_inv_def)
qed

lemma key_inv_CreateMessageInitiation:
  assumes "key_inv D" "draws_ok ds" "CreateMessageInitiation C gl D p rnd ds now = Some (D', r)"
  shows "key_inv D'"
  using assms(1,3)
  by (auto simp: CreateMessageInitiation_def newPrivateKey_def hs_mixHash_def hs_mixKey_def Let_def split_beta
      split: if_splits option.splits intro!: key_inv_relist [OF assms(1,2)] key_inv_handshake [OF assms(1)])

lemma key_inv_CreateMessageResponse:
  assumes "key_inv D" "draws_ok ds" "CreateMessageResponse C D p rnd ds = Some (D', r)"
  shows "key_inv D'"
  using assms(1,3)
  by (auto simp: CreateMessageResponse_def newPrivateKey_def hs_mixHash_def hs_mixKey_def Let_def split_beta
      split: if_splits option.splits intro!: key_inv_relist [OF assms(1,2)])

lemma key_inv_consume:
  assumes "key_inv D"
  shows "key_inv (fst (ConsumeMessageInitiation C D m now now2))" "key_inv (fst (ConsumeMessageResponse C D r))"
proof -
  show "key_inv (fst (ConsumeMessageInitiation C D m now now2))"
    using assms by (auto simp: ConsumeMessageInitiation_def Let_def split_beta intro!: key_inv_handshake
        split: option.split)
  show "key_inv (fst (ConsumeMessageResponse C D r))"
    using assms by (auto simp: ConsumeMessageResponse_def Let_def split_beta intro!: key_inv_handshake
        split: option.split)
qed


lemma slots_eq:
  "slots ks = (case ks_current ks of None \<Rightarrow> [] | Some k \<Rightarrow> [k]) @
    (case ks_previous ks of None \<Rightarrow> [] | Some k \<Rightarrow> [k]) @ (case ks_next ks of None \<Rightarrow> [] | Some k \<Rightarrow> [k])"
  by (simp add: slots_def)

text \<open>A new key pair after the previous one was dropped.\<close>

lemma index_inv_replace:
  assumes inv: "index_inv t li ks kl n" and k: "ks_previous (ks p) = Some k"
    and ks': "distinct (slots ks')" "set (slots ks') \<subseteq> insert n (set (slots (ks p)) - {k})"
  shows "index_inv (it_Delete (it_Insert t (li p) \<lparr>ie_peer = Some p, ie_handshake = None, ie_keyPair = Some n\<rparr>) (kl k))
    (li(p := 0)) (ks(p := ks')) (kl(n := li p)) (Suc n)"
proof -
  let ?ks1 = "(ks p)\<lparr>ks_previous := None\<rparr>"
  have "k \<in> set (slots (ks p))" using k by (simp add: slots_eq)
  moreover have dist: "distinct (slots (ks p))" by (rule index_invD(6) [OF inv])
  then have slots1: "distinct (slots ?ks1)" "set (slots ?ks1) = set (slots (ks p)) - {k}"
    using k by (auto simp: slots_eq split: option.splits)
  ultimately have "index_inv (it_Delete t (kl k)) li (ks(p := ?ks1)) kl n"
    by (intro index_inv_drop [OF inv]) simp_all
  from index_inv_pair [OF this, of ks' p] ks' slots1
  have "index_inv (it_Insert (it_Delete t (kl k)) (li p) \<lparr>ie_peer = Some p, ie_handshake = None, ie_keyPair = Some n\<rparr>)
    (li(p := 0)) (ks(p := ks')) (kl(n := li p)) (Suc n)"
    by simp
  moreover have "kl k \<noteq> li p \<or> kl k = 0"
    using slot_not_listed [OF inv \<open>k \<in> set (slots (ks p))\<close>, of p] by auto
  then have "it_Delete (it_Insert t (li p) e) (kl k) = it_Insert (it_Delete t (kl k)) (li p) e" for e
    by (auto simp: it_Delete_def it_Insert_def fun_upd_twist)
  ultimately show ?thesis by simp
qed

lemma NewKeyPair_view:
  assumes "NewKeyPair C D p now = Some (D', r)" "derive_keys C (handshake_of D p) = Some (ini, sk, rk)"
  defines "n \<equiv> st_nextKeyPair D" and "ks \<equiv> keyPairs_of D p" and "i \<equiv> hs_localIndex (handshake_of D p)"
  shows "handshake_of D' = (handshake_of D)(p := after_keys (handshake_of D p)) \<and> st_nextKeyPair D' = Suc n \<and>
    st_keyPair D' = (st_keyPair D)(n := new_keyPair (handshake_of D p) ini sk rk now) \<and>
    keyPairs_of D' = (keyPairs_of D)(p :=
      if \<not> ini then ks\<lparr>ks_next := Some n, ks_previous := None\<rparr>
      else if ks_next ks \<noteq> None then ks\<lparr>ks_previous := ks_next ks, ks_next := Some n\<rparr>
      else ks\<lparr>ks_previous := ks_current ks, ks_current := Some n\<rparr>) \<and>
    dv_indices D' =
      (let t = it_Insert (dv_indices D) i \<lparr>ie_peer = Some p, ie_handshake = None, ie_keyPair = Some n\<rparr>
       in if ini then (case ks_previous ks of None \<Rightarrow> t
           | Some k \<Rightarrow> it_Delete t (kp_localIndex (((st_keyPair D)(n := new_keyPair (handshake_of D p) ini sk rk now)) k)))
         else t)"
  using assms
  by (cases "ks_previous (keyPairs_of D p)"; cases ini)
    (auto simp: NewKeyPair_def rotate_initiator_def rotate_responder_def DeleteKeyPair_def new_keyPair_def
      after_keys_def Let_def fun_eq_iff split: option.splits if_splits)

lemma key_inv_NewKeyPair:
  assumes inv: "key_inv D" and run: "NewKeyPair C D p now = Some (D', r)"
  shows "key_inv D'"
proof (cases "derive_keys C (handshake_of D p)")
  case None
  with run inv show ?thesis by (simp add: NewKeyPair_def)
next
  case (Some res)
  then obtain ini sk rk where keys: "derive_keys C (handshake_of D p) = Some (ini, sk, rk)" by (cases res) auto
  let ?n = "st_nextKeyPair D" and ?ks = "keyPairs_of D p" and ?h = "handshake_of D p"
  let ?li = "\<lambda>p. hs_localIndex (handshake_of D p)" and ?kl = "\<lambda>k. kp_localIndex (st_keyPair D k)"
  let ?ks' = "if \<not> ini then ?ks\<lparr>ks_next := Some ?n, ks_previous := None\<rparr>
      else if ks_next ?ks \<noteq> None then ?ks\<lparr>ks_previous := ks_next ?ks, ks_next := Some ?n\<rparr>
      else ?ks\<lparr>ks_previous := ks_current ?ks, ks_current := Some ?n\<rparr>"
  note view = NewKeyPair_view [OF run keys]
  have base: "index_inv (dv_indices D) ?li (keyPairs_of D) ?kl ?n" using inv by (simp add: key_inv_def)
  have old: "k < ?n" if "k \<in> set (slots ?ks)" for k by (rule index_invD(4) [OF base that])
  have dist: "distinct (slots ?ks)" by (rule index_invD(6) [OF base])
  have dist': "distinct (slots ?ks')"
    using dist old by (auto simp: slots_eq split: option.splits)
  have sub: "set (slots ?ks') \<subseteq> insert ?n (set (slots ?ks))"
    by (auto simp: slots_eq split: option.splits)
  have li: "(\<lambda>q. hs_localIndex (handshake_of D' q)) = ?li(p := 0)"
    using view by (auto simp: after_keys_def)
  have kl: "(\<lambda>k. kp_localIndex (st_keyPair D' k)) = ?kl(?n := ?li p)"
    using view by (auto simp: new_keyPair_def)
  have ks: "keyPairs_of D' = (keyPairs_of D)(p := ?ks')" "st_nextKeyPair D' = Suc ?n"
    using view by auto
  show ?thesis
  proof (cases "ini \<and> ks_previous ?ks \<noteq> None")
    case True
    then obtain k where k: "ks_previous ?ks = Some k" by auto
    then have "k \<noteq> ?n" using old [of k] by (auto simp: slots_eq)
    then have "dv_indices D' = it_Delete (it_Insert (dv_indices D) (?li p)
        \<lparr>ie_peer = Some p, ie_handshake = None, ie_keyPair = Some ?n\<rparr>) (?kl k)"
      using view True k by (simp add: Let_def)
    moreover have "set (slots ?ks') \<subseteq> insert ?n (set (slots ?ks) - {k})"
      using dist True k by (auto simp: slots_eq split: option.splits)
    ultimately show ?thesis
      using index_inv_replace [OF base k dist'] by (simp add: key_inv_def li kl ks)
  next
    case False
    then have "dv_indices D' = it_Insert (dv_indices D) (?li p)
        \<lparr>ie_peer = Some p, ie_handshake = None, ie_keyPair = Some ?n\<rparr>"
      using view by (auto simp: Let_def split: option.splits)
    then show ?thesis
      using index_inv_pair [OF base dist' sub] by (simp add: key_inv_def li kl ks)
  qed
qed

lemma held_slots: "held D p k \<longleftrightarrow> k \<in> set (slots (keyPairs_of D p))"
  by (auto simp: held_def slots_eq split: option.splits)

lemma key_inv_confirm_key:
  assumes inv: "key_inv D" and run: "confirm_key D p k = Some D'"
  shows "key_inv D'"
proof (cases "ks_next (keyPairs_of D p) = Some k")
  case False
  with assms show ?thesis by (simp add: confirm_key_def)
next
  case True
  let ?ks = "keyPairs_of D p" and ?li = "\<lambda>p. hs_localIndex (handshake_of D p)"
    and ?kl = "\<lambda>k. kp_localIndex (st_keyPair D k)"
  let ?ks' = "\<lparr>ks_current = ks_next ?ks, ks_previous = ks_current ?ks, ks_next = None\<rparr>"
  have base: "index_inv (dv_indices D) ?li (keyPairs_of D) ?kl (st_nextKeyPair D)"
    using inv by (simp add: key_inv_def)
  have dist: "distinct (slots ?ks)" by (rule index_invD(6) [OF base])
  have slots': "distinct (slots ?ks')" "set (slots ?ks') \<subseteq> set (slots ?ks) - set_option (ks_previous ?ks)"
    using dist by (auto simp: slots_eq split: option.splits)
  have view: "keyPairs_of D' = (keyPairs_of D)(p := ?ks')" "handshake_of D' = handshake_of D"
    "st_keyPair D' = st_keyPair D" "st_nextKeyPair D' = st_nextKeyPair D"
    "dv_indices D' = (case ks_previous ?ks of None \<Rightarrow> dv_indices D | Some j \<Rightarrow> it_Delete (dv_indices D) (?kl j))"
    using run True
    by ((cases "ks_previous ?ks"; auto simp: confirm_key_def Let_def DeleteKeyPair_def TimerHandshakeComplete_def
        fun_eq_iff)+)
  show ?thesis
  proof (cases "ks_previous ?ks")
    case None
    then show ?thesis
      using index_inv_move [OF base slots'(1)] slots'(2) by (simp add: key_inv_def view)
  next
    case (Some j)
    then have "j \<in> set (slots ?ks)" by (simp add: slots_eq)
    with index_inv_drop [OF base this slots'(1)] slots'(2) Some show ?thesis by (simp add: key_inv_def view)
  qed
qed

lemma on_zeroAllKeys_others_kept:
  "q \<noteq> p \<Longrightarrow> handshake_of (on_zeroAllKeys D p) q = handshake_of D q"
  "q \<noteq> p \<Longrightarrow> keyPairs_of (on_zeroAllKeys D p) q = keyPairs_of D q"
  "st_nextKeyPair (on_zeroAllKeys D p) = st_nextKeyPair D"
  by (simp_all add: on_zeroAllKeys_def Let_def drop_keyPair_def split: option.split)

lemma own_index_iff:
  "own_index D p i \<longleftrightarrow> i = hs_localIndex (handshake_of D p) \<or>
    (\<exists>k \<in> set (slots (keyPairs_of D p)). i = kp_localIndex (st_keyPair D k))"
  by (auto simp: own_index_def held_slots)

text \<open>No index of another peer is among those the timer clears.\<close>

lemma own_index_disjoint:
  assumes inv: "key_inv D" and q: "q \<noteq> p"
  shows "hs_localIndex (handshake_of D q) \<noteq> 0 \<Longrightarrow> \<not> own_index D p (hs_localIndex (handshake_of D q))"
    "k \<in> set (slots (keyPairs_of D q)) \<Longrightarrow> kp_localIndex (st_keyPair D k) \<noteq> 0 \<Longrightarrow> \<not> own_index D p (kp_localIndex (st_keyPair D k))"
proof -
  let ?li = "\<lambda>p. hs_localIndex (handshake_of D p)" and ?kl = "\<lambda>k. kp_localIndex (st_keyPair D k)"
  have base: "index_inv (dv_indices D) ?li (keyPairs_of D) ?kl (st_nextKeyPair D)"
    using inv by (simp add: key_inv_def)
  note d = index_invD [OF base]
  show "\<not> own_index D p (?li q)" if nz: "?li q \<noteq> 0"
  proof -
    have "?li q \<noteq> ?li p" using listed_once [OF base, of q p] nz q by metis
    moreover have "?li q \<noteq> ?kl k" if "k \<in> set (slots (keyPairs_of D p))" for k
      using slot_not_listed [OF base that, of q] nz by metis
    ultimately show ?thesis by (auto simp: own_index_iff)
  qed
  show "\<not> own_index D p (?kl k)" if k: "k \<in> set (slots (keyPairs_of D q))" "?kl k \<noteq> 0"
  proof -
    have "?kl k \<noteq> ?li p" using slot_not_listed [OF base k(1), of p] k(2) by auto
    moreover have "?kl k \<noteq> ?kl j" if j: "j \<in> set (slots (keyPairs_of D p))" for j
    proof
      assume eq: "?kl k = ?kl j"
      from d(5) [OF j] eq k(2)
      have "it_Lookup (dv_indices D) (?kl k) = \<lparr>ie_peer = Some p, ie_handshake = None, ie_keyPair = Some j\<rparr>" by simp
      with d(5) [OF k] q show False by simp
    qed
    ultimately show ?thesis by (auto simp: own_index_iff)
  qed
qed

lemma key_inv_on_zeroAllKeys:
  assumes inv: "key_inv D"
  shows "key_inv (on_zeroAllKeys D p)"
proof -
  let ?D = "on_zeroAllKeys D p"
  have "index_inv (dv_indices D) (\<lambda>p. hs_localIndex (handshake_of D p)) (keyPairs_of D)
      (\<lambda>k. kp_localIndex (st_keyPair D k)) (st_nextKeyPair D)"
    using inv by (simp add: key_inv_def)
  note d = index_invD [OF this]
  have empty: "slots (keyPairs_of ?D p) = []" by (simp add: slots_eq)
  show ?thesis
    unfolding key_inv_def
  proof (rule index_invI)
    show "k < st_nextKeyPair ?D \<and> kp_localIndex (st_keyPair ?D k) = i"
      if "ie_keyPair (it_Lookup (dv_indices ?D) i) = Some k" for i k
      using that d(1) [of i k] by (simp add: on_zeroAllKeys_others_kept split: if_splits)
    show "i \<noteq> 0 \<and> hs_localIndex (handshake_of ?D q) = i \<and>
        it_Lookup (dv_indices ?D) i = \<lparr>ie_peer = Some q, ie_handshake = Some q, ie_keyPair = None\<rparr>"
      if "ie_handshake (it_Lookup (dv_indices ?D) i) = Some q" for i q
    proof -
      have i: "ie_handshake (it_Lookup (dv_indices D) i) = Some q" "\<not> own_index D p i \<or> i = 0"
        using that by (auto split: if_splits)
      from d(2) [OF i(1)] i(2) have "q \<noteq> p" by (auto simp: own_index_iff)
      with d(2) [OF i(1)] i(2) show ?thesis by (simp add: on_zeroAllKeys_others_kept)
    qed
    show "ie_handshake (it_Lookup (dv_indices ?D) (hs_localIndex (handshake_of ?D q))) = Some q"
      if nz: "hs_localIndex (handshake_of ?D q) \<noteq> 0" for q
      using nz own_index_disjoint(1) [OF inv, of q p] d(3) [of q]
      by (cases "q = p") (simp_all add: on_zeroAllKeys_others_kept)
    show "k < st_nextKeyPair ?D" if "k \<in> set (slots (keyPairs_of ?D q))" for q k
      using that d(4) [of k q] empty by (cases "q = p") (simp_all add: on_zeroAllKeys_others_kept)
    show "distinct (slots (keyPairs_of ?D q))" for q
      using d(6) [of q] empty by (cases "q = p") (simp_all add: on_zeroAllKeys_others_kept)
    show "it_Lookup (dv_indices ?D) (kp_localIndex (st_keyPair ?D k)) =
        \<lparr>ie_peer = Some q, ie_handshake = None, ie_keyPair = Some k\<rparr>"
      if "k \<in> set (slots (keyPairs_of ?D q))" "kp_localIndex (st_keyPair ?D k) \<noteq> 0" for q k
      using that empty own_index_disjoint(2) [OF inv, of q p k] d(5) [of k q]
      by (cases "q = p") (simp_all add: on_zeroAllKeys_others_kept)
  qed
qed

section \<open>Sizes\<close>

text \<open>The arrays of the source are of fixed size; here they are lists, whose length is to be kept.\<close>

definition sized_handshake :: "Handshake \<Rightarrow> bool" where
  "sized_handshake h \<longleftrightarrow> length (hs_hash h) = 32 \<and> length (hs_chainKey h) = 32 \<and>
    length (hs_presharedKey h) = 32 \<and> length (hs_localEphemeral h) = 32 \<and> length (hs_remoteStatic h) = 32 \<and>
    length (hs_remoteEphemeral h) = 32 \<and> length (hs_precomputedStaticStatic h) = 32 \<and>
    length (hs_lastTimestamp h) = 12"

definition sized_keyPair :: "KeyPair \<Rightarrow> bool" where
  "sized_keyPair kp \<longleftrightarrow> length (kp_send kp) = 32 \<and> length (kp_receive kp) = 32"

definition sized :: "Device \<Rightarrow> bool" where
  "sized D \<longleftrightarrow> (\<forall>p. sized_handshake (handshake_of D p)) \<and> (\<forall>k < st_nextKeyPair D. sized_keyPair (st_keyPair D k))"

text \<open>What is opened is 16 bytes shorter than what was sealed.\<close>

definition open_size_ok :: "crypto \<Rightarrow> bool" where
  "open_size_ok C \<longleftrightarrow> (\<forall>k n c a p. aead_open C k n c a = Some p \<longrightarrow> length c = length p + 16)"

lemma length_setZero [simp]: "length (setZero xs) = length xs"
  by (simp add: setZero_def)

lemma length_KDF3 [crypto_simps]: "sizes_ok C \<Longrightarrow> length (fst (KDF3 C k a)) = 32"
  by (simp add: KDF3_def Let_def crypto_simps)

lemma length_initials [crypto_simps]:
  "sizes_ok C \<Longrightarrow> length (InitialChainKey C) = 32" "sizes_ok C \<Longrightarrow> length (InitialHash C) = 32"
  by (simp_all add: InitialChainKey_def InitialHash_def crypto_simps)

lemma sized_set_handshake:
  "sized D \<Longrightarrow> sized_handshake h \<Longrightarrow> sized (set_handshake D p h)"
  "sized D \<Longrightarrow> sized_handshake h \<Longrightarrow> sized (set_handshake (D\<lparr>dv_indices := t\<rparr>) p h)"
  by (simp_all add: sized_def set_handshake_def upd_peer_def handshake_of_def)

lemma sized_Create:
  assumes "sized D" "sizes_ok C" "length (fst rnd) = 32"
  shows "CreateMessageInitiation C gl D p rnd ds now = Some (D', r) \<Longrightarrow> sized D'"
    "CreateMessageResponse C D p rnd ds = Some (D', r') \<Longrightarrow> sized D'"
proof -
  have h: "sized_handshake (handshake_of D p)" using assms(1) by (simp add: sized_def)
  show "CreateMessageInitiation C gl D p rnd ds now = Some (D', r) \<Longrightarrow> sized D'"
    using assms h
    by (auto simp: CreateMessageInitiation_def newPrivateKey_def hs_mixHash_def hs_mixKey_def Let_def split_beta
        sized_handshake_def crypto_simps intro!: sized_set_handshake split: if_splits option.splits)
  show "CreateMessageResponse C D p rnd ds = Some (D', r') \<Longrightarrow> sized D'"
    using assms h
    by (auto simp: CreateMessageResponse_def newPrivateKey_def hs_mixHash_def hs_mixKey_def Let_def split_beta
        sized_handshake_def crypto_simps intro!: sized_set_handshake split: if_splits option.splits)
qed

lemma sized_Consume:
  assumes "sized D" "sizes_ok C" "open_size_ok C"
  shows "initiation_wf m \<Longrightarrow> sized (fst (ConsumeMessageInitiation C D m now now2))"
    "sized (fst (ConsumeMessageResponse C D r))"
proof -
  have h: "sized_handshake (handshake_of D p)" for p using assms(1) by (simp add: sized_def)
  have short: "length p = 12" if "aead_open C k n (mi_Timestamp m) a = Some p" "initiation_wf m" for k n a p
    using assms(3) that by (fastforce simp: open_size_ok_def initiation_wf_def initiation_arrays_def layouts)
  show "initiation_wf m \<Longrightarrow> sized (fst (ConsumeMessageInitiation C D m now now2))"
    using assms h short
    by (auto simp: ConsumeMessageInitiation_def Let_def split_beta sized_handshake_def crypto_simps
        initiation_wf_def initiation_arrays_def layouts intro!: sized_set_handshake split: option.split)
  show "sized (fst (ConsumeMessageResponse C D r))"
    using assms h
    by (auto simp: ConsumeMessageResponse_def Let_def split_beta sized_handshake_def crypto_simps
        intro!: sized_set_handshake split: option.split)
qed

lemma sized_NewKeyPair:
  assumes "sized D" "sizes_ok C" "NewKeyPair C D p now = Some (D', r)"
  shows "sized D'"
proof (cases "derive_keys C (handshake_of D p)")
  case None
  with assms show ?thesis by (simp add: NewKeyPair_def)
next
  case (Some res)
  then obtain ini sk rk where keys: "derive_keys C (handshake_of D p) = Some (ini, sk, rk)" by (cases res) auto
  have "length sk = 32 \<and> length rk = 32"
    using keys length_kdf(4,5) [OF assms(2), of "hs_chainKey (handshake_of D p)" "[]"]
    by (auto simp: derive_keys_def split_beta split: if_splits)
  moreover have "sized_handshake (after_keys (handshake_of D p))"
    using assms(1) by (simp add: sized_def sized_handshake_def after_keys_def)
  ultimately show ?thesis
    using NewKeyPair_view [OF assms(3) keys] assms(1)
    by (auto simp: sized_def sized_keyPair_def new_keyPair_def less_Suc_eq)
qed

section \<open>Everything that happens to keys\<close>

text \<open>
  One step: an operation of the handshake, the derivation, the confirmation by the receiver, the
  clearing timer, or anything that leaves indices, handshakes and keys alone.
\<close>

definition keys_kept :: "Device \<Rightarrow> Device \<Rightarrow> bool" where
  "keys_kept D D' \<longleftrightarrow> dv_indices D' = dv_indices D \<and> handshake_of D' = handshake_of D \<and>
    keyPairs_of D' = keyPairs_of D \<and> st_nextKeyPair D' = st_nextKeyPair D \<and>
    (\<forall>k. kp_localIndex (st_keyPair D' k) = kp_localIndex (st_keyPair D k) \<and>
      kp_send (st_keyPair D' k) = kp_send (st_keyPair D k) \<and> kp_receive (st_keyPair D' k) = kp_receive (st_keyPair D k))"

inductive key_step :: "crypto \<Rightarrow> Device \<Rightarrow> Device \<Rightarrow> bool" for C where
  initiate: "draws_ok ds \<Longrightarrow> length (fst rnd) = 32 \<Longrightarrow>
    CreateMessageInitiation C gl D p rnd ds now = Some (D', r) \<Longrightarrow> key_step C D D'"
| accept: "initiation_wf m \<Longrightarrow> key_step C D (fst (ConsumeMessageInitiation C D m now now2))"
| respond: "draws_ok ds \<Longrightarrow> length (fst rnd) = 32 \<Longrightarrow>
    CreateMessageResponse C D p rnd ds = Some (D', r') \<Longrightarrow> key_step C D D'"
| finish: "key_step C D (fst (ConsumeMessageResponse C D r))"
| derive: "NewKeyPair C D p now = Some (D', k) \<Longrightarrow> key_step C D D'"
| confirm: "confirm_key D p j = Some D' \<Longrightarrow> key_step C D D'"
| clear: "key_step C D (on_zeroAllKeys D p)"
| other: "keys_kept D D' \<Longrightarrow> key_step C D D'"

definition keys_start :: "Device \<Rightarrow> bool" where
  "keys_start D \<longleftrightarrow> dv_indices D = it_Init \<and> sized D \<and>
    (\<forall>p. hs_localIndex (handshake_of D p) = 0 \<and> slots (keyPairs_of D p) = [])"

inductive keys_reachable :: "crypto \<Rightarrow> Device \<Rightarrow> bool" for C where
  start: "keys_start D \<Longrightarrow> keys_reachable C D"
| step: "keys_reachable C D \<Longrightarrow> key_step C D D' \<Longrightarrow> keys_reachable C D'"

inductive_cases key_stepE: "key_step C D D'"

lemma confirm_key_kept:
  assumes "confirm_key D p k = Some D'"
  shows "handshake_of D' = handshake_of D \<and> st_keyPair D' = st_keyPair D \<and> st_nextKeyPair D' = st_nextKeyPair D"
  using assms
  by (cases "ks_previous (keyPairs_of D p)")
    (auto simp: confirm_key_def Let_def DeleteKeyPair_def TimerHandshakeComplete_def fun_eq_iff split: if_splits)

lemma sized_step:
  assumes "key_step C D D'" "sized D" "sizes_ok C" "open_size_ok C"
  shows "sized D'"
  using assms(1)
proof cases
  case (clear p)
  have "sized_handshake (handshake_of (on_zeroAllKeys D p) q)" for q
    using assms(2) by (cases "q = p") (simp_all add: sized_def sized_handshake_def on_zeroAllKeys_others_kept)
  with assms(2) clear show ?thesis by (simp add: sized_def on_zeroAllKeys_others_kept)
next
  case (confirm p j)
  with confirm_key_kept [OF this] assms(2) show ?thesis by (simp add: sized_def)
next
  case other
  with assms(2) show ?thesis by (simp add: sized_def keys_kept_def sized_keyPair_def)
next
  case (initiate ds rnd gl p now r)
  then show ?thesis by (intro sized_Create(1) [OF assms(2,3)])
next
  case (accept m now now2)
  then show ?thesis using sized_Consume(1) [OF assms(2-4)] by simp
next
  case (respond ds rnd p r')
  then show ?thesis by (intro sized_Create(2) [OF assms(2,3)])
next
  case (finish r)
  then show ?thesis using sized_Consume(2) [OF assms(2-4)] by simp
next
  case (derive p now k)
  then show ?thesis by (intro sized_NewKeyPair [OF assms(2,3)])
qed

lemma key_inv_step:
  assumes "key_step C D D'" "key_inv D"
  shows "key_inv D'"
  using assms(1)
proof cases
  case other
  with assms(2) show ?thesis by (simp add: key_inv_def keys_kept_def)
next
  case (initiate ds rnd gl p now r)
  then show ?thesis by (intro key_inv_CreateMessageInitiation [OF assms(2)])
next
  case (accept m now now2)
  then show ?thesis using key_inv_consume(1) [OF assms(2)] by simp
next
  case (respond ds rnd p r')
  then show ?thesis by (intro key_inv_CreateMessageResponse [OF assms(2)])
next
  case (finish r)
  then show ?thesis using key_inv_consume(2) [OF assms(2)] by simp
next
  case (derive p now k)
  then show ?thesis by (intro key_inv_NewKeyPair [OF assms(2)])
next
  case (confirm p j)
  then show ?thesis by (intro key_inv_confirm_key [OF assms(2)])
next
  case (clear p)
  then show ?thesis using key_inv_on_zeroAllKeys [OF assms(2)] by simp
qed

lemma keys_reachable_inv: "keys_reachable C D \<Longrightarrow> key_inv D"
proof (induction rule: keys_reachable.induct)
  case (start D)
  then show ?case
    by (simp add: keys_start_def key_inv_def index_inv_defs it_Init_def it_Lookup_def)
qed (rule key_inv_step)

lemma keys_reachable_sized: "keys_reachable C D \<Longrightarrow> sizes_ok C \<Longrightarrow> open_size_ok C \<Longrightarrow> sized D"
proof (induction rule: keys_reachable.induct)
  case (step D D')
  then show ?case using sized_step by blast
qed (simp add: keys_start_def)

section \<open>Properties\<close>

text \<open>
  C12: in every state the program can reach, whatever order handshakes, confirmations and the
  clearing timer come in, the key pairs a peer holds are filed: the index a key pair was given
  leads to it and to its peer, no other held key pair shares it, and an index that leads to a
  handshake leads to the one that is using it.
\<close>

theorem held_keys_are_filed:
  assumes "keys_reachable C D" "held D p k" "kp_localIndex (st_keyPair D k) \<noteq> 0"
  shows "it_Lookup (dv_indices D) (kp_localIndex (st_keyPair D k)) =
      \<lparr>ie_peer = Some p, ie_handshake = None, ie_keyPair = Some k\<rparr> \<and>
    (\<forall>q j. held D q j \<longrightarrow> kp_localIndex (st_keyPair D j) = kp_localIndex (st_keyPair D k) \<longrightarrow> q = p \<and> j = k) \<and>
    (\<forall>i q. ie_handshake (it_Lookup (dv_indices D) i) = Some q \<longrightarrow> i \<noteq> 0 \<and> hs_localIndex (handshake_of D q) = i)"
proof -
  note d = index_invD [OF keys_reachable_inv [OF assms(1), unfolded key_inv_def]]
  have own: "it_Lookup (dv_indices D) (kp_localIndex (st_keyPair D k)) =
      \<lparr>ie_peer = Some p, ie_handshake = None, ie_keyPair = Some k\<rparr>"
    using d(5) [of k p] assms(2,3) by (simp add: held_slots)
  moreover have "q = p \<and> j = k"
    if "held D q j" "kp_localIndex (st_keyPair D j) = kp_localIndex (st_keyPair D k)" for q j
    using d(5) [of j q] that own assms(3) by (simp add: held_slots)
  ultimately show ?thesis using d(2) by blast
qed


text \<open>
  A key pair the responder replaces before it was confirmed is forgotten but stays filed:
  \<^verbatim>\<open>NewKeyPair\<close> overwrites it without deleting its index, which then leads to a key pair no
  peer holds, and packets sent under it are still decrypted.
\<close>

theorem replaced_pair_stays_filed:
  assumes "keys_reachable C D" "hs_state (handshake_of D p) = HandshakeResponseCreated"
    "ks_next (keyPairs_of D p) = Some j" "kp_localIndex (st_keyPair D j) \<noteq> 0"
  shows "\<exists>D' k. NewKeyPair C D p now = Some (D', Some k) \<and> \<not> held D' p j \<and>
    it_Lookup (dv_indices D') (kp_localIndex (st_keyPair D' j)) =
      \<lparr>ie_peer = Some p, ie_handshake = None, ie_keyPair = Some j\<rparr>"
proof -
  have base: "index_inv (dv_indices D) (\<lambda>p. hs_localIndex (handshake_of D p)) (keyPairs_of D)
      (\<lambda>k. kp_localIndex (st_keyPair D k)) (st_nextKeyPair D)"
    using keys_reachable_inv [OF assms(1)] by (simp add: key_inv_def)
  obtain rk sk where keys: "derive_keys C (handshake_of D p) = Some (False, sk, rk)"
    using assms(2) by (auto simp: derive_keys_def split_beta)
  obtain D' where D': "NewKeyPair C D p now = Some (D', Some (st_nextKeyPair D))"
    using NewKeyPair_ok [OF keys] by blast
  have j: "j \<in> set (slots (keyPairs_of D p))" using assms(3) by (simp add: slots_eq)
  have "j < st_nextKeyPair D" using index_invD(4) [OF base j] .
  moreover have "ks_current (keyPairs_of D p) \<noteq> Some j"
    using index_invD(6) [OF base, of p] assms(3) by (auto simp: slots_eq split: option.splits)
  moreover have "kp_localIndex (st_keyPair D j) \<noteq> hs_localIndex (handshake_of D p)"
    using slot_not_listed [OF base j, of p] assms(4) by auto
  ultimately show ?thesis
    using NewKeyPair_view [OF D' keys] D' index_invD(5) [OF base j assms(4)]
    by (intro exI [of _ D'] exI [of _ "st_nextKeyPair D"]) (simp add: held_def Let_def lookup_Insert_iff)
qed

text \<open>
  C36: the clearing timer zeroes the secrets of a handshake but not its state. When it fires
  between the response and the derivation, as its routine may, \<^verbatim>\<open>NewKeyPair\<close> derives the
  transport keys from 32 zero bytes: they are the same for every device and known to everyone,
  and the key pair is filed under index 0, which is never deleted.
\<close>

theorem cleared_handshake_gives_known_key:
  assumes "hs_state (handshake_of D p) = HandshakeResponseCreated" "sized D"
  shows "\<exists>D' k. NewKeyPair C (on_zeroAllKeys D p) p now = Some (D', Some k) \<and> held D' p k \<and>
    (kp_receive (st_keyPair D' k), kp_send (st_keyPair D' k)) = KDF2 C (replicate 32 0) [] \<and>
    kp_localIndex (st_keyPair D' k) = 0"
proof -
  let ?D = "on_zeroAllKeys D p"
  have "setZero (hs_chainKey (handshake_of D p)) = replicate 32 0"
    using assms(2) by (simp add: sized_def sized_handshake_def setZero_def map_replicate_const)
  then have keys: "derive_keys C (handshake_of ?D p) =
      Some (False, snd (KDF2 C (replicate 32 0) []), fst (KDF2 C (replicate 32 0) []))"
    using assms(1) by (simp add: derive_keys_def split_beta)
  obtain D' where D': "NewKeyPair C ?D p now = Some (D', Some (st_nextKeyPair ?D))"
    using NewKeyPair_ok [OF keys] by blast
  show ?thesis
    using NewKeyPair_view [OF D' keys] D'
    by (intro exI [of _ D'] exI [of _ "st_nextKeyPair ?D"]) (simp add: held_def new_keyPair_def)
qed

text \<open>A responder that has read an initiation answers and derives a key pair under index 7.\<close>

definition read_handshake :: Handshake where
  "read_handshake = zero_handshake\<lparr>hs_state := HandshakeInitiationConsumed,
    hs_precomputedStaticStatic := replicate 32 1\<rparr>"

definition responder_device :: Device where
  "responder_device = zero_device\<lparr>dv_peers := Some 0,
    st_peer := (\<lambda>_. zero_peer\<lparr>p_handshake := read_handshake\<rparr>)\<rparr>"

lemma responder_fields:
  "handshake_of responder_device p = read_handshake" "dv_peers responder_device = Some 0"
  "keyPairs_of responder_device p = \<lparr>ks_current = None, ks_previous = None, ks_next = None\<rparr>"
  "dv_indices responder_device = Map.empty" "st_nextKeyPair responder_device = 0"
  by (simp_all add: responder_device_def handshake_of_def keyPairs_of_def zero_device_def zero_peer_def)

lemma responder_start: "keys_start responder_device"
  by (simp add: keys_start_def responder_fields sized_def sized_handshake_def read_handshake_def zero_handshake_def slots_eq it_Init_def)

lemma responder_draws: "draws_ok [quiet [7, 0, 0, 0]]"
  by (simp add: draws_ok_def quiet_def)

lemma responder_response:
  obtains D where "keys_reachable C D" "hs_state (handshake_of D 0) = HandshakeResponseCreated"
    "hs_localIndex (handshake_of D 0) = 7" "keyPairs_of D 0 = \<lparr>ks_current = None, ks_previous = None, ks_next = None\<rparr>"
    "st_nextKeyPair D = 0" "dv_peers D = Some 0"
    "dv_indices D = [7 \<mapsto> \<lparr>ie_peer = Some 0, ie_handshake = Some 0, ie_keyPair = None\<rparr>]"
    "hs_precomputedStaticStatic (handshake_of D 0) = replicate 32 1"
    "hs_lastTimestamp (handshake_of D 0) = replicate 12 0" "hs_lastInitiationConsumption (handshake_of D 0) = zeroTime"
proof -
  have index: "NewIndex (it_Delete (dv_indices responder_device) (hs_localIndex (handshake_of responder_device 0))) 0
      [quiet [7, 0, 0, 0]] = Some ([7 \<mapsto> \<lparr>ie_peer = Some 0, ie_handshake = Some 0, ie_keyPair = None\<rparr>], 7, False, [])"
    using toy_draw [of 0] by (simp add: responder_fields it_Delete_def read_handshake_def zero_handshake_def)
  have state: "hs_state (handshake_of responder_device 0) = HandshakeInitiationConsumed"
    by (simp add: responder_fields read_handshake_def)
  obtain D m where D: "CreateMessageResponse C responder_device 0 (replicate 32 5, False) [quiet [7, 0, 0, 0]] = Some (D, Inr m)"
    by (rule CreateMessageResponse_returns [OF state index])
  have "keys_reachable C D"
    by (rule keys_reachable.step [OF keys_reachable.start [OF responder_start] key_step.respond [OF responder_draws _ D]]) simp
  moreover have "hs_state (handshake_of D 0) = HandshakeResponseCreated \<and> hs_localIndex (handshake_of D 0) = 7 \<and>
      keyPairs_of D 0 = \<lparr>ks_current = None, ks_previous = None, ks_next = None\<rparr> \<and> st_nextKeyPair D = 0 \<and> dv_peers D = Some 0 \<and>
      dv_indices D = [7 \<mapsto> \<lparr>ie_peer = Some 0, ie_handshake = Some 0, ie_keyPair = None\<rparr>] \<and>
      hs_precomputedStaticStatic (handshake_of D 0) = replicate 32 1 \<and>
      hs_lastTimestamp (handshake_of D 0) = replicate 12 0 \<and> hs_lastInitiationConsumption (handshake_of D 0) = zeroTime"
    using CreateMessageResponse_ok [OF D] index by (auto simp: responder_fields read_handshake_def zero_handshake_def)
  ultimately show ?thesis using that by blast
qed

lemma responder_pair:
  obtains D where "keys_reachable C D" "ks_next (keyPairs_of D 0) = Some 0" "kp_localIndex (st_keyPair D 0) = 7"
    "st_nextKeyPair D = 1" "dv_peers D = Some 0"
    "dv_indices D = [7 \<mapsto> \<lparr>ie_peer = Some 0, ie_handshake = None, ie_keyPair = Some 0\<rparr>]"
    "hs_precomputedStaticStatic (handshake_of D 0) = replicate 32 1"
    "hs_lastTimestamp (handshake_of D 0) = replicate 12 0" "hs_lastInitiationConsumption (handshake_of D 0) = zeroTime"
    "hs_localIndex (handshake_of D 0) = 0"
proof -
  obtain D where D: "keys_reachable C D" "hs_state (handshake_of D 0) = HandshakeResponseCreated"
    "hs_localIndex (handshake_of D 0) = 7" "keyPairs_of D 0 = \<lparr>ks_current = None, ks_previous = None, ks_next = None\<rparr>"
    "st_nextKeyPair D = 0" "dv_peers D = Some 0"
    "dv_indices D = [7 \<mapsto> \<lparr>ie_peer = Some 0, ie_handshake = Some 0, ie_keyPair = None\<rparr>]"
    "hs_precomputedStaticStatic (handshake_of D 0) = replicate 32 1"
    "hs_lastTimestamp (handshake_of D 0) = replicate 12 0" "hs_lastInitiationConsumption (handshake_of D 0) = zeroTime"
    by (rule responder_response)
  obtain rk sk where keys: "derive_keys C (handshake_of D 0) = Some (False, sk, rk)"
    using D(2) by (auto simp: derive_keys_def split_beta)
  obtain D' where D': "NewKeyPair C D 0 noon = Some (D', Some (st_nextKeyPair D))"
    using NewKeyPair_ok [OF keys] by blast
  have "dv_peers D' = dv_peers D"
    using D' keys by (auto simp: NewKeyPair_def rotate_responder_def Let_def)
  with NewKeyPair_view [OF D' keys] D show ?thesis
    by (intro that [OF keys_reachable.step [OF D(1) key_step.derive [OF D']]])
      (simp_all add: new_keyPair_def after_keys_def it_Insert_def)
qed

theorem held_keys_are_filed_witness:
  "\<exists>D. held D 0 0 \<and> it_Lookup (dv_indices D) 7 = \<lparr>ie_peer = Some 0, ie_handshake = None, ie_keyPair = Some 0\<rparr>"
proof -
  obtain D where D: "keys_reachable toy_crypto D" "ks_next (keyPairs_of D 0) = Some 0"
    "kp_localIndex (st_keyPair D 0) = 7" "st_nextKeyPair D = 1"
    using responder_pair by metis
  then have "held D 0 0" by (simp add: held_def)
  with held_keys_are_filed [OF D(1) this] D(3) show ?thesis by auto
qed

lemma toy_open_size: "open_size_ok toy_crypto"
  by (auto simp: open_size_ok_def toy_crypto_def split: if_splits)


theorem cleared_handshake_gives_known_key_witness:
  "\<exists>D :: Device. hs_state (handshake_of D 0) = HandshakeResponseCreated \<and>
    (\<exists>D' k. NewKeyPair toy_crypto (on_zeroAllKeys D 0) 0 noon = Some (D', Some k) \<and>
      (kp_receive (st_keyPair D' k), kp_send (st_keyPair D' k)) = KDF2 toy_crypto (replicate 32 0) [])"
proof -
  obtain D where D: "keys_reachable toy_crypto D" "hs_state (handshake_of D 0) = HandshakeResponseCreated"
    using responder_response by metis
  from cleared_handshake_gives_known_key [OF D(2)
      keys_reachable_sized [OF D(1) crypto_okD(1) [OF toy_crypto_ok] toy_open_size]] D(2)
  show ?thesis by blast
qed

text \<open>A second initiation is answered before the first key pair was used; the cipher opens everything.\<close>

definition open_crypto :: crypto where
  "open_crypto = toy_crypto\<lparr>aead_open := (\<lambda>_ _ _ _. Some (replicate 12 255))\<rparr>"

lemma responder_answers_again:
  obtains D where "keys_reachable open_crypto D" "hs_state (handshake_of D 0) = HandshakeResponseCreated"
    "ks_next (keyPairs_of D 0) = Some 0" "kp_localIndex (st_keyPair D 0) = 7"
proof -
  obtain D where D: "keys_reachable open_crypto D" "ks_next (keyPairs_of D 0) = Some 0"
    "kp_localIndex (st_keyPair D 0) = 7" "st_nextKeyPair D = 1" "dv_peers D = Some 0"
    "dv_indices D = [7 \<mapsto> \<lparr>ie_peer = Some 0, ie_handshake = None, ie_keyPair = Some 0\<rparr>]"
    "hs_precomputedStaticStatic (handshake_of D 0) = replicate 32 1"
    "hs_lastTimestamp (handshake_of D 0) = replicate 12 0" "hs_lastInitiationConsumption (handshake_of D 0) = zeroTime"
    "hs_localIndex (handshake_of D 0) = 0"
    by (rule responder_pair)
  have later: "tai_After (replicate 12 255) (replicate 12 0)" by code_simp
  obtain D1 where D1: "ConsumeMessageInitiation open_crypto D blank_initiation noon noon = (D1, Some 0)"
  proof -
    have "\<exists>D1. ConsumeMessageInitiation open_crypto D blank_initiation noon noon = (D1, Some 0)"
      unfolding ConsumeMessageInitiation_iff
      using D(5,7,8,9) later noon_after_epoch by (simp add: blank_initiation_def type_consts open_crypto_def isZero_iff)
    with that show thesis by blast
  qed
  have kept: "keyPairs_of D1 0 = keyPairs_of D 0" "st_keyPair D1 = st_keyPair D" "dv_indices D1 = dv_indices D"
    "hs_state (handshake_of D1 0) = HandshakeInitiationConsumed" "hs_localIndex (handshake_of D1 0) = 0"
    using D1 D(10) unfolding ConsumeMessageInitiation_iff by auto
  have reach1: "keys_reachable open_crypto D1"
    using keys_reachable.step [OF D(1) key_step.accept [OF blank_wf(1), of open_crypto D noon noon]] D1 by simp
  have draw: "get_le32 [8, 0, 0, 0] = 8" by (simp add: get_le32_def)
  have "(8 :: u32) \<noteq> 0 \<and> (8 :: u32) \<noteq> 7" by simp
  then have "\<exists>t. NewIndex (it_Delete (dv_indices D1) (hs_localIndex (handshake_of D1 0))) 0 [quiet [8, 0, 0, 0]] =
      Some (t, 8, False, [])"
    unfolding NewIndex_Cons quiet_def using draw by (simp add: kept D(6) it_Delete_def Let_def)
  then obtain t where index: "NewIndex (it_Delete (dv_indices D1) (hs_localIndex (handshake_of D1 0))) 0
      [quiet [8, 0, 0, 0]] = Some (t, 8, False, [])" by blast
  obtain D2 m where D2: "CreateMessageResponse open_crypto D1 0 (replicate 32 5, False) [quiet [8, 0, 0, 0]] = Some (D2, Inr m)"
    by (rule CreateMessageResponse_returns [OF kept(4) index])
  have draws: "draws_ok [quiet [8, 0, 0, 0]]" by (simp add: draws_ok_def quiet_def)
  have "keys_reachable open_crypto D2"
    by (rule keys_reachable.step [OF reach1 key_step.respond [OF draws _ D2]]) simp
  moreover have "hs_state (handshake_of D2 0) = HandshakeResponseCreated \<and> keyPairs_of D2 0 = keyPairs_of D1 0 \<and>
      st_keyPair D2 = st_keyPair D1"
    using CreateMessageResponse_ok [OF D2] by auto
  ultimately show ?thesis using that [of D2] D(2,3) kept(1,2) by simp
qed

theorem replaced_pair_stays_filed_witness:
  "\<exists>D D' k. NewKeyPair open_crypto D 0 noon = Some (D', Some k) \<and> \<not> held D' 0 0 \<and>
    ie_keyPair (it_Lookup (dv_indices D') (kp_localIndex (st_keyPair D' 0))) = Some 0"
proof -
  obtain D where D: "keys_reachable open_crypto D" "hs_state (handshake_of D 0) = HandshakeResponseCreated"
    "ks_next (keyPairs_of D 0) = Some 0" "kp_localIndex (st_keyPair D 0) = 7"
    by (rule responder_answers_again)
  have "kp_localIndex (st_keyPair D 0) \<noteq> 0" using D(4) by simp
  from replaced_pair_stays_filed [OF D(1-3) this, of noon] obtain D' k
    where "NewKeyPair open_crypto D 0 noon = Some (D', Some k)" "\<not> held D' 0 0"
      "it_Lookup (dv_indices D') (kp_localIndex (st_keyPair D' 0)) =
        \<lparr>ie_peer = Some 0, ie_handshake = None, ie_keyPair = Some 0\<rparr>"
    by blast
  then show ?thesis by (intro exI [of _ D] exI [of _ D'] exI [of _ k]) simp
qed

end
