(* ===== verification/Session.thy ===== *)
theory Session
  imports Handshake_Progress Key_Lifecycle
begin

text \<open>
  The parts together: from two configurations over a handshake to a packet that is read at one
  TUN device and written at the other.
\<close>

section \<open>What a handshake leaves alone\<close>

text \<open>The queues, routes and timers a packet into the peer \<open>p\<close> meets.\<close>

definition same_path :: "pid \<Rightarrow> Device \<Rightarrow> Device \<Rightarrow> bool" where
  "same_path p D D' \<longleftrightarrow>
    dv_decryption D' = dv_decryption D \<and> dv_routingTable D' = dv_routingTable D \<and> st_tun D' = st_tun D \<and>
    p_inbound (st_peer D' p) = p_inbound (st_peer D p) \<and> p_timer (st_peer D' p) = p_timer (st_peer D p)"

lemma same_path_refl [simp]: "same_path p D D"
  by (simp add: same_path_def)

lemma same_path_trans: "same_path p D1 D2 \<Longrightarrow> same_path p D2 D3 \<Longrightarrow> same_path p D1 D3"
  by (simp add: same_path_def)

lemma same_path_set [simp]: "same_path p D (set_handshake (D\<lparr>dv_indices := t\<rparr>) q h)" "same_path p D (set_handshake D q h)"
  by (simp_all add: same_path_def set_handshake_def upd_peer_def)

lemma same_path_handshake:
  "ConsumeMessageInitiation C D m t t' = (D', Some q) \<Longrightarrow> same_path p D D'"
  "CreateMessageResponse C D q rnd ds = Some (D', Inr r) \<Longrightarrow> same_path p D D'"
  using same_path_set CreateMessageResponse_ok [of C D q rnd ds D' r] unfolding ConsumeMessageInitiation_iff by blast+

lemma same_path_responder:
  assumes "NewKeyPair C D q now = Some (D', r)" "derive_keys C (handshake_of D q) = Some (False, sk, rk)"
  shows "same_path p D D'"
  using assms
  by (auto simp: NewKeyPair_def Let_def rotate_responder_def same_path_def set_handshake_def set_keyPairs_def
      upd_signal_def upd_peer_def)

section \<open>A fresh key pair receives\<close>

lemma fresh_filter: "n < RejectAfterMessages \<Longrightarrow> snd (ValidateCounter (rf_Init zero_filter) n)"
proof -
  assume "n < RejectAfterMessages"
  then have "\<not> 2 ^ 64 - 17 \<le> unat n" by (simp add: word_less_nat_alt unat_RejectAfterMessages)
  then have "window_step (2 ^ 64 - 17) 1984 (0, {}) (unat n) = ((max 0 (unat n), insert (unat n) {}), True)"
    by (simp add: window_step_def)
  from ValidateCounter_refines [OF window_rel_Init this] show ?thesis by simp
qed

lemma responder_listens:
  assumes run: "NewKeyPair C D p u = Some (D', Some k)" and state: "hs_state (handshake_of D p) = HandshakeResponseCreated"
    and kp: "kp_send kp = kp_receive (st_keyPair D' k)" "kp_remoteIndex kp = kp_localIndex (st_keyPair D' k)"
    and now: "now \<le> u + RejectAfterTime"
  shows "matches D' p k kp now \<and> kp_replayFilter (st_keyPair D' k) = rf_Init zero_filter \<and> same_path p D D'"
proof -
  obtain sk rk where keys: "derive_keys C (handshake_of D p) = Some (False, sk, rk)"
    using state by (auto simp: derive_keys_def split_beta)
  have k: "k = st_nextKeyPair D" using NewKeyPair_ok [OF keys, of u] run by auto
  note view = NewKeyPair_view [OF run keys]
  have "it_Lookup (dv_indices D') (kp_localIndex (st_keyPair D' k)) =
      \<lparr>ie_peer = Some p, ie_handshake = None, ie_keyPair = Some k\<rparr>"
    using view by (simp add: k new_keyPair_def it_Lookup_def it_Insert_def)
  then show ?thesis
    using view same_path_responder [OF run keys] kp now by (simp add: matches_def k new_keyPair_def)
qed

section \<open>From configuration to packet\<close>

lemma configured_pair:
  assumes "crypto_ok C" "configured C DA skA (publicKey C skA) (publicKey C skB) addrA"
    "configured C DB skB (publicKey C skB) (publicKey C skA) addrB" "length skA = 32" "length skB = 32"
    "\<not> isZero (sharedSecret C skA (publicKey C skB))"
  shows "noise_pair C DA 1 DB 1"
  using assms by (simp add: configured_def noise_pair_def)

lemma configured_ready:
  assumes "configured C D sk pk tk addr" "same_path 1 D D'"
  shows "idle (in_init D') 1" "is_written (in_init D') = []"
    "\<And>packet. 20 \<le> length packet \<Longrightarrow> drop_bit 4 (packet ! 0) = 4 \<Longrightarrow> unat (get_be16 (drop 2 packet)) = length packet \<Longrightarrow>
      ipv4_from (is_dev (in_init D')) 1 packet"
proof -
  have init: "is_receiver (in_init D') = Next_inbound" "is_written (in_init D') = []"
    "dv_decryption (is_dev (in_init D')) = dv_decryption D'" "st_peer (is_dev (in_init D')) = st_peer D'"
    "dv_routingTable (is_dev (in_init D')) = dv_routingTable D'"
    by (simp_all add: in_init_def GetMessageBuffer_def split: list.split)
  show "is_written (in_init D') = []" by (fact init)
  show "idle (in_init D') 1"
    using assms unfolding idle_def timers_of_def init
    by (auto simp: configured_def same_path_def make_chan_def size_consts timers_made_def new_timers_def)
  fix packet :: bytes
  assume "20 \<le> length packet" "drop_bit 4 (packet ! 0) = 4" "unat (get_be16 (drop 2 packet)) = length packet"
  then show "ipv4_from (is_dev (in_init D')) 1 packet"
    using assms unfolding ipv4_from_def init by (simp add: configured_def same_path_def)
qed

text \<open>No datagram panics a configured device.\<close>

lemma configured_serves:
  assumes "configured C D sk pk tk addr"
  shows "server_reachable K N endpoint ios 1 (in_init D)"
proof (rule server_reachable.start)
  have none: "it_Lookup (dv_indices D) i = zero_entry" for i
    using assms by (simp add: configured_def it_Init_def it_Lookup_def)
  then have table: "entries_of 1 (dv_indices D)" "indices_made D"
    by (simp_all add: entries_of_def indices_made_def zero_entry_def)
  then show "in_start 1 D"
    using assms by (auto simp: configured_def in_start_def make_chan_def size_consts)
  show "responsive D 1"
    using assms table by (auto simp: configured_def responsive_def seq_inv_def make_chan_def size_consts chan_ok_def
        timers_of_def timers_made_def new_timers_def)
qed

lemma in_init_same [simp]:
  "st_keyPair (is_dev (in_init D)) = st_keyPair D" "dv_indices (is_dev (in_init D)) = dv_indices D"
  by (simp_all add: in_init_def GetMessageBuffer_def split: list.split)

section \<open>Properties\<close>


section \<open>Two concrete installations\<close>

lemma lenient_all: "crypto_ok lenient_crypto" "low_order_ok lenient_crypto"
  using toy_crypto_ok toy_low_order_ok
  by (simp_all add: lenient_crypto_def crypto_ok_def aead_ok_def sizes_ok_def dh_ok_def low_order_ok_def)

lemma lenient_keys [simp]: "publicKey lenient_crypto = publicKey toy_crypto" "sharedSecret lenient_crypto = sharedSecret toy_crypto"
  by (simp_all add: fun_eq_iff publicKey_def sharedSecret_def lenient_crypto_def)

lemma toy_configured:
  assumes "a \<noteq> 0"
  shows "\<exists>D. Init_device lenient_crypto toy_net (toy_config a b) noon = Some (D, None) \<and>
    configured lenient_crypto D (toy_key a) (publicKey toy_crypto (toy_key a)) (publicKey toy_crypto (toy_key b)) toy_addr"
  using Init_device_ok [OF toy_config_valid lenient_all(2) toy_key_nonzero [OF assms]] by blast


end
