(* ===== verification/Completion.thy ===== *)
theory Completion
  imports Transport Key_Lifecycle
begin

text \<open>
  The end of a handshake on the side that asked for it, from the datagram to the new current key
  pair: \<^verbatim>\<open>handleUDP\<close>, the queue, and \<^verbatim>\<open>RoutineHandshake\<close> with the checks of
  \<^verbatim>\<open>controller/cookie.go\<close> and the timers, on the bytes the responder sends.
\<close>

section \<open>The response on the wire\<close>

lemma response_made:
  assumes "sizes_ok C" "CreateMessageResponse C D p rnd ds = Some (D', Inr m)"
  shows "response_wf m \<and> mr_Type m = MessageResponseType"
  using assms
  by (auto simp: CreateMessageResponse_def Let_def split_beta response_wf_def response_arrays_def response_layout_def
      publicKey_def crypto_simps field_consts split: if_splits option.splits prod.splits)

lemma stamped_response:
  assumes C: "sizes_ok C" and m: "response_wf m" and stamp: "AddMacs C g (write_response m) t = Some (g', packet)"
    and same: "same_peer ck g"
  shows "CheckMAC1 C ck packet = Some True \<and> (\<exists>a b. packet = write_response (m\<lparr>mr_MAC1 := a, mr_MAC2 := b\<rparr>) \<and>
    response_wf (m\<lparr>mr_MAC1 := a, mr_MAC2 := b\<rparr>))"
proof -
  let ?body = "le32 (mr_Type m) @ le32 (mr_Sender m) @ le32 (mr_Receiver m) @ mr_Ephemeral m @ mr_Empty m"
  let ?mac1 = "blake2s_mac C (cg_mac1_key g) ?body"
  have macs: "length (mr_MAC1 m) = 16" "length (mr_MAC2 m) = 16"
    using m by (simp_all add: response_wf_def response_arrays_def response_layout_def field_consts)
  have "write_response m = ?body @ mr_MAC1 m @ mr_MAC2 m"
    by (simp add: write_response_def response_arrays_def)
  then have packet: "packet = ?body @ ?mac1 @ second_mac C g (?body @ ?mac1) (mr_MAC2 m) t"
    using stamp AddMacs_split [OF C macs, of g ?body t] by simp
  have len: "length ?mac1 = 16" "length (second_mac C g (?body @ ?mac1) (mr_MAC2 m) t) = 16"
    using C macs(2) by (simp_all add: crypto_simps)
  have "CheckMAC1 C ck packet = Some True"
    using CheckMAC1_split [OF len, of C ck ?body] same by (simp add: packet same_peer_def)
  moreover have "packet = write_response (m\<lparr>mr_MAC1 := ?mac1, mr_MAC2 := second_mac C g (?body @ ?mac1) (mr_MAC2 m) t\<rparr>)"
    by (simp add: packet write_response_def response_arrays_def)
  moreover have "response_wf (m\<lparr>mr_MAC1 := ?mac1, mr_MAC2 := second_mac C g (?body @ ?mac1) (mr_MAC2 m) t\<rparr>)"
    using m len by (simp add: response_wf_def response_arrays_def response_layout_def field_consts)
  ultimately show ?thesis by blast
qed

lemma response_type:
  assumes "response_wf m" "mr_Type m = MessageResponseType"
  shows "get_le32 (write_response m) = MessageResponseType" "length (write_response m) = 92"
  using assms(2) write_lengths(2) [OF assms(1)] by (simp_all add: write_response_def)

section \<open>The queue\<close>

text \<open>Devices that differ in the handshake queue and the message buffers only.\<close>

definition queued :: "Device \<Rightarrow> QueueHandshakeElement list \<Rightarrow> Device \<Rightarrow> bool" where
  "queued D elems D' \<longleftrightarrow> (\<exists>pool n. D' = D\<lparr>dv_handshakeQueue := (dv_handshakeQueue D)\<lparr>chan_buf := elems\<rparr>,
    st_pool := pool, st_nextBuffer := n\<rparr>)"

lemma handleUDP_queues:
  assumes "get_le32 packet = MessageResponseType" "length packet = 92" "chan_buf (dv_handshakeQueue D) = []"
    "0 < chan_cap (dv_handshakeQueue D)"
  shows "\<exists>D' b. handleUDP D buffer packet raddr now = Some (D', b) \<and>
    queued D [\<lparr>qh_msgType = MessageResponseType, qh_packet = packet, qh_buffer = buffer, qh_source = raddr\<rparr>] D'"
proof -
  let ?e = "\<lparr>qh_msgType = MessageResponseType, qh_packet = packet, qh_buffer = buffer, qh_source = raddr\<rparr>"
  have "addToHandshakeQueue (dv_handshakeQueue D) ?e (st_pool D) =
      Some ((dv_handshakeQueue D)\<lparr>chan_buf := [?e]\<rparr>, st_pool D)"
    using assms(3,4) by (simp add: addToHandshakeQueue_def add_room)
  then have "handleUDP D buffer packet raddr now =
      Some (GetMessageBuffer (D\<lparr>dv_handshakeQueue := (dv_handshakeQueue D)\<lparr>chan_buf := [?e]\<rparr>, st_pool := st_pool D\<rparr>))"
    using assms(1,2) by (simp add: handleUDP_def size_consts type_consts handshake_size_ok_def)
  moreover obtain pool n where "fst (GetMessageBuffer (D\<lparr>dv_handshakeQueue := (dv_handshakeQueue D)\<lparr>chan_buf := [?e]\<rparr>,
      st_pool := st_pool D\<rparr>)) = D\<lparr>dv_handshakeQueue := (dv_handshakeQueue D)\<lparr>chan_buf := [?e]\<rparr>, st_pool := pool, st_nextBuffer := n\<rparr>"
    using GetMessageBuffer_eq by fastforce
  ultimately show ?thesis
    by (metis prod.collapse queued_def)
qed

section \<open>The end of the handshake\<close>

text \<open>What the timer events and the signals leave alone.\<close>

definition keys_and_queue :: "pid \<Rightarrow> Device \<Rightarrow> Device \<Rightarrow> bool" where
  "keys_and_queue p D D' \<longleftrightarrow>
    handshake_of D' p = handshake_of D p \<and> keyPairs_of D' p = keyPairs_of D p \<and>
    st_keyPair D' = st_keyPair D \<and> st_nextKeyPair D' = st_nextKeyPair D \<and>
    p_nonce (st_peer D' p) = p_nonce (st_peer D p) \<and> p_hasDevice (st_peer D' p) = p_hasDevice (st_peer D p)"

lemma keys_and_queue_refl [simp]: "keys_and_queue p D D"
  by (simp add: keys_and_queue_def)

lemma keys_and_queue_trans: "keys_and_queue p D1 D2 \<Longrightarrow> keys_and_queue p D2 D3 \<Longrightarrow> keys_and_queue p D1 D3"
  by (simp add: keys_and_queue_def)

lemma keys_and_queue_upd [simp]: "keys_and_queue p D (upd_timer D q f)" "keys_and_queue p D (upd_signal D q g)"
  by (simp_all add: keys_and_queue_def upd_timer_def upd_signal_def upd_peer_def handshake_of_def keyPairs_of_def)

lemma keys_and_queue_timers:
  "TimerEphemeralKeyCreated D q now = Some D' \<Longrightarrow> keys_and_queue p D D'"
  "TimerAnyAuthenticatedPacketTraversal D q now = Some D' \<Longrightarrow> keys_and_queue p D D'"
  "TimerAnyAuthenticatedPacketReceived D q = Some D' \<Longrightarrow> keys_and_queue p D D'"
  "keys_and_queue p D (TimerHandshakeComplete D q)"
  by (auto simp: TimerEphemeralKeyCreated_def TimerAnyAuthenticatedPacketTraversal_def
      TimerAnyAuthenticatedPacketReceived_def TimerHandshakeComplete_def Let_def split: option.splits if_splits)

lemma NewKeyPair_queue:
  assumes "NewKeyPair C D p now = Some (D', r)"
  shows "p_nonce (st_peer D' p) = p_nonce (st_peer D p)" "p_hasDevice (st_peer D' p) = p_hasDevice (st_peer D p)"
  using assms
  by (auto simp: NewKeyPair_def rotate_initiator_def rotate_responder_def DeleteKeyPair_def Let_def
      set_handshake_def set_keyPairs_def upd_signal_def upd_peer_def split: option.splits if_splits prod.splits)

lemma SendKeepAlive_fills:
  assumes "p_hasDevice (st_peer D p)" "0 < chan_cap (p_nonce (st_peer D p))"
  shows "\<exists>D' b. SendKeepAlive D p = Some (D', b) \<and> chan_buf (p_nonce (st_peer D' p)) \<noteq> [] \<and>
    st_keyPair D' = st_keyPair D \<and> keyPairs_of D' p = keyPairs_of D p"
  using assms
  by (auto simp: SendKeepAlive_def NewOutboundElement_def GetMessageBuffer_def Let_def chan_len_def chan_send_def
      upd_peer_def keyPairs_of_def split: list.split)

lemma timers_ready_EphemeralKeyCreated:
  assumes "timers_ready D p"
  shows "\<exists>D'. TimerEphemeralKeyCreated D p now = Some D' \<and> timers_ready D' p"
  using assms by (auto simp: TimerEphemeralKeyCreated_def timers_made_def timers_of_def upd_timer_def upd_peer_def)

lemma response_processed:
  assumes packet: "read_response (qh_packet elem) = Some msg" and consumed: "ConsumeMessageResponse C D msg = (D1, Some p)"
    and keys: "derive_keys C (handshake_of D1 p) = Some (True, sk, rk)"
    and ready: "timers_ready D p" "p_hasDevice (st_peer D p)" "0 < chan_cap (p_nonce (st_peer D p))"
    and unconfirmed: "ks_next (keyPairs_of D p) = None"
  shows "\<exists>D' k. process_response C D elem tn = Some D' \<and> ks_current (keyPairs_of D' p) = Some k \<and>
    ks_previous (keyPairs_of D' p) = ks_current (keyPairs_of D p) \<and>
    st_keyPair D' k = new_keyPair (handshake_of D1 p) True sk rk (tn_later tn) \<and>
    chan_buf (p_nonce (st_peer D' p)) \<noteq> []"
proof -
  obtain owner h where D1: "D1 = set_handshake D owner h"
    using consumed unfolding ConsumeMessageResponse_iff by blast
  have D1_same: "timers_ready D1 p" "p_hasDevice (st_peer D1 p)" "p_nonce (st_peer D1 p) = p_nonce (st_peer D p)"
    "keyPairs_of D1 p = keyPairs_of D p"
    using ready by (auto simp: D1 timers_of_def set_handshake_def upd_peer_def keyPairs_of_def)
  obtain D2 where D2: "TimerEphemeralKeyCreated D1 p (tn_later tn) = Some D2" "timers_ready D2 p"
    using timers_ready_EphemeralKeyCreated [OF D1_same(1)] by blast
  obtain D3 where D3: "TimerAnyAuthenticatedPacketTraversal D2 p (tn_later tn) = Some D3" "timers_ready D3 p"
    using timers_run(1) [OF D2(2)] by blast
  obtain D4 where D4: "TimerAnyAuthenticatedPacketReceived D3 p = Some D4"
    using timers_run(2) [OF D3(2)] by blast
  let ?D5 = "TimerHandshakeComplete D4 p"
  have "keys_and_queue p D1 ?D5"
    using keys_and_queue_timers(1) [OF D2(1)] keys_and_queue_timers(2) [OF D3(1)] keys_and_queue_timers(3) [OF D4]
      keys_and_queue_timers(4) by (blast intro: keys_and_queue_trans)
  then have D5: "handshake_of ?D5 p = handshake_of D1 p" "keyPairs_of ?D5 p = keyPairs_of D p"
    "p_nonce (st_peer ?D5 p) = p_nonce (st_peer D p)" "p_hasDevice (st_peer ?D5 p)"
    using D1_same by (simp_all add: keys_and_queue_def)
  from keys have keys5: "derive_keys C (handshake_of ?D5 p) = Some (True, sk, rk)" by (simp only: D5(1))
  obtain D6 where D6: "NewKeyPair C ?D5 p (tn_later tn) = Some (D6, Some (st_nextKeyPair ?D5))"
    using NewKeyPair_ok [OF keys5] by blast
  note view = NewKeyPair_view [OF D6 keys5]
  have pairs: "keyPairs_of D6 p = (keyPairs_of D p)\<lparr>ks_previous := ks_current (keyPairs_of D p),
      ks_current := Some (st_nextKeyPair ?D5)\<rparr>"
    using view unconfirmed by (simp add: D5(2))
  have pair: "st_keyPair D6 (st_nextKeyPair ?D5) = new_keyPair (handshake_of D1 p) True sk rk (tn_later tn)"
    using view by (simp add: D5(1))
  have "p_hasDevice (st_peer D6 p)" "0 < chan_cap (p_nonce (st_peer D6 p))"
    using NewKeyPair_queue [OF D6] D5(3,4) ready(3) by simp_all
  from SendKeepAlive_fills [OF this] obtain D7 b where D7: "SendKeepAlive D6 p = Some (D7, b)"
    "chan_buf (p_nonce (st_peer D7 p)) \<noteq> []" "st_keyPair D7 = st_keyPair D6" "keyPairs_of D7 p = keyPairs_of D6 p"
    by blast
  have "process_response C D elem tn = Some D7"
    by (simp add: process_response_def packet consumed D2(1) D3(1) D4 D6 D7(1))
  then show ?thesis
    using D7 pairs pair by (intro exI [of _ D7] exI [of _ "st_nextKeyPair ?D5"]) simp
qed

lemma consume_response_elsewhere:
  assumes "ConsumeMessageResponse C D m = (D1, Some p)" "dv_indices E = dv_indices D" "dv_privateKey E = dv_privateKey D"
    "handshake_of E = handshake_of D"
  shows "\<exists>E1. ConsumeMessageResponse C E (m\<lparr>mr_MAC1 := a, mr_MAC2 := b\<rparr>) = (E1, Some p) \<and> handshake_of E1 = handshake_of D1"
proof -
  have "handshake_of (set_handshake E q h) = handshake_of (set_handshake D q h)" for q h
    using assms(4) by (simp add: fun_eq_iff)
  with assms show ?thesis unfolding ConsumeMessageResponse_iff by auto
qed

lemma admitted:
  assumes "CheckMAC1 C (dv_mac D) (qh_packet elem) = Some True" "chan_buf (dv_handshakeQueue D) = []"
    "dv_underLoadUntil D \<le> tn_now tn"
  shows "admit C N endpoint D elem tn = Some (D, Process)"
  using assms by (simp add: admit_def IsUnderLoad_def chan_len_def size_consts)

lemma worker_processes:
  assumes "queued D [elem] D'" "qh_msgType elem = MessageResponseType"
    "CheckMAC1 C (dv_mac D) (qh_packet elem) = Some True" "dv_underLoadUntil D \<le> tn_now tn"
  shows "\<exists>E. queued D [] E \<and> RoutineHandshake C N endpoint D' True tn = map_option (\<lambda>D. (D, True)) (process_response C E elem tn)"
proof -
  let ?E = "D'\<lparr>dv_handshakeQueue := (dv_handshakeQueue D')\<lparr>chan_buf := []\<rparr>\<rparr>"
  obtain pool n where D': "D' = D\<lparr>dv_handshakeQueue := (dv_handshakeQueue D)\<lparr>chan_buf := [elem]\<rparr>, st_pool := pool,
      st_nextBuffer := n\<rparr>"
    using assms(1) unfolding queued_def by blast
  have E: "queued D [] ?E" "chan_recv (dv_handshakeQueue D') = Some (elem, (dv_handshakeQueue D')\<lparr>chan_buf := []\<rparr>)"
    unfolding queued_def by (intro exI [of _ pool] exI [of _ n]) (simp_all add: D' chan_recv_def)
  then have "admit C N endpoint ?E elem tn = Some (?E, Process)"
    using assms(1,3,4) by (intro admitted) (auto simp: queued_def)
  with E assms(2) show ?thesis
    by (intro exI [of _ ?E]) (simp add: RoutineHandshake_def handle_handshake_def type_consts)
qed

section \<open>Properties\<close>

text \<open>
  C6: the response of the other side, as the bytes it sends, completes the handshake: handed as
  a datagram to the device that asked for it, it passes the size check, the queue and the first
  code, and one turn of an idle handshake worker leaves a current key pair that matches the
  responder's, keeps the pair before it as the previous one, queues a packet that confirms it,
  and goes on.
\<close>

theorem response_completes_handshake:
  assumes C: "crypto_ok C" and pair: "noise_pair C DI pI DR pR"
    and rnd: "length (fst rnd) = 32" "length (fst rnd2) = 32"
    and create: "CreateMessageInitiation C gl DI pI rnd ds now = Some (DI1, Inr m1)"
    and new: "tai_After (Timestamp now) (hs_lastTimestamp (handshake_of DR pR))"
    and rate: "timeSub t (hs_lastInitiationConsumption (handshake_of DR pR)) > HandshakeInitationRate"
    and consume: "ConsumeMessageInitiation C DR m1 t t' = (DR1, found)"
    and reply: "CreateMessageResponse C DR1 pR rnd2 ds2 = Some (DR2, Inr m2)"
    and stamp: "AddMacs C g (write_response m2) t2 = Some (g', packet)" "same_peer (dv_mac DI1) g"
    and idle: "chan_buf (dv_handshakeQueue DI1) = []" "0 < chan_cap (dv_handshakeQueue DI1)"
      "dv_underLoadUntil DI1 \<le> tn_now tn"
    and ready: "timers_ready DI1 pI" "p_hasDevice (st_peer DI1 pI)" "0 < chan_cap (p_nonce (st_peer DI1 pI))"
      "ks_next (keyPairs_of DI1 pI) = None"
  shows "\<exists>D b D' k DR3 kR. handleUDP DI1 buffer packet raddr w = Some (D, b) \<and>
    RoutineHandshake C N endpoint D True tn = Some (D', True) \<and>
    NewKeyPair C DR2 pR u = Some (DR3, Some kR) \<and> ks_current (keyPairs_of D' pI) = Some k \<and>
    ks_previous (keyPairs_of D' pI) = ks_current (keyPairs_of DI1 pI) \<and>
    kp_send (st_keyPair D' k) = kp_receive (st_keyPair DR3 kR) \<and>
    kp_receive (st_keyPair D' k) = kp_send (st_keyPair DR3 kR) \<and>
    kp_remoteIndex (st_keyPair D' k) = kp_localIndex (st_keyPair DR3 kR) \<and>
    kp_localIndex (st_keyPair D' k) = kp_remoteIndex (st_keyPair DR3 kR) \<and>
    chan_buf (p_nonce (st_peer D' pI)) \<noteq> []"
proof -
  have sizes: "sizes_ok C" using C by (simp add: crypto_ok_def)
  obtain DR3 kR DI2 DI3 kI where agreed: "NewKeyPair C DR2 pR u = Some (DR3, Some kR)"
    "ConsumeMessageResponse C DI1 m2 = (DI2, Some pI)" "hs_state (handshake_of DI2 pI) = HandshakeResponseConsumed"
    "NewKeyPair C DI2 pI (tn_later tn) = Some (DI3, Some kI)"
    "kp_send (st_keyPair DI3 kI) = kp_receive (st_keyPair DR3 kR)" "kp_receive (st_keyPair DI3 kI) = kp_send (st_keyPair DR3 kR)"
    "kp_remoteIndex (st_keyPair DI3 kI) = kp_localIndex (st_keyPair DR3 kR)"
    "kp_remoteIndex (st_keyPair DR3 kR) = kp_localIndex (st_keyPair DI3 kI)"
    using handshake_agrees [OF C pair rnd create new rate consume reply, of u "tn_later tn"] by blast
  obtain sk rk where keys: "derive_keys C (handshake_of DI2 pI) = Some (True, sk, rk)"
    by (cases "KDF2 C (hs_chainKey (handshake_of DI2 pI)) []") (simp add: derive_keys_def agreed(3))
  have kI: "st_keyPair DI3 kI = new_keyPair (handshake_of DI2 pI) True sk rk (tn_later tn)"
    using NewKeyPair_ok [OF keys, of "tn_later tn"] agreed(4) by auto
  note made = response_made [OF sizes reply]
  obtain a b where wire: "CheckMAC1 C (dv_mac DI1) packet = Some True"
    "packet = write_response (m2\<lparr>mr_MAC1 := a, mr_MAC2 := b\<rparr>)" "response_wf (m2\<lparr>mr_MAC1 := a, mr_MAC2 := b\<rparr>)"
    using stamped_response [OF sizes conjunct1 [OF made] stamp] by blast
  let ?elem = "\<lparr>qh_msgType = MessageResponseType, qh_packet = packet, qh_buffer = buffer, qh_source = raddr\<rparr>"
  have "get_le32 packet = MessageResponseType" "length packet = 92"
    using response_type [OF wire(3)] made by (simp_all add: wire(2))
  from handleUDP_queues [OF this idle(1,2), of buffer raddr w]
  obtain D buf where D: "handleUDP DI1 buffer packet raddr w = Some (D, buf)" "queued DI1 [?elem] D"
    by (elim exE conjE)
  obtain E where E: "queued DI1 [] E"
    "RoutineHandshake C N endpoint D True tn = map_option (\<lambda>D. (D, True)) (process_response C E ?elem tn)"
    using worker_processes [OF D(2), of C tn N endpoint] wire(1) idle(3) by auto
  from E(1) have same: "dv_indices E = dv_indices DI1" "dv_privateKey E = dv_privateKey DI1" "handshake_of E = handshake_of DI1"
    "timers_of E = timers_of DI1" "st_peer E = st_peer DI1" "keyPairs_of E = keyPairs_of DI1"
    by (auto simp: queued_def handshake_of_def timers_of_def keyPairs_of_def fun_eq_iff)
  obtain E1 where E1: "ConsumeMessageResponse C E (m2\<lparr>mr_MAC1 := a, mr_MAC2 := b\<rparr>) = (E1, Some pI)"
    "handshake_of E1 = handshake_of DI2"
    using consume_response_elsewhere [OF agreed(2) same(1-3)] by blast
  have read: "read_response (qh_packet ?elem) = Some (m2\<lparr>mr_MAC1 := a, mr_MAC2 := b\<rparr>)"
    using read_write_response [OF wire(3), of "[]"] wire(2) by simp
  have keysE: "derive_keys C (handshake_of E1 pI) = Some (True, sk, rk)" using keys by (simp add: E1(2))
  obtain D' k where D': "process_response C E ?elem tn = Some D'" "ks_current (keyPairs_of D' pI) = Some k"
    "ks_previous (keyPairs_of D' pI) = ks_current (keyPairs_of DI1 pI)"
    "st_keyPair D' k = st_keyPair DI3 kI" "chan_buf (p_nonce (st_peer D' pI)) \<noteq> []"
    using response_processed [OF read E1(1) keysE, of tn, unfolded same E1(2), folded kI, OF ready] by (elim exE conjE)
  have "RoutineHandshake C N endpoint D True tn = Some (D', True)" by (simp only: E(2) D'(1) option.map)
  note this D(1) D'(2,3,5)
  moreover have "kp_send (st_keyPair D' k) = kp_receive (st_keyPair DR3 kR)"
    "kp_receive (st_keyPair D' k) = kp_send (st_keyPair DR3 kR)"
    "kp_remoteIndex (st_keyPair D' k) = kp_localIndex (st_keyPair DR3 kR)"
    "kp_localIndex (st_keyPair D' k) = kp_remoteIndex (st_keyPair DR3 kR)"
    by (simp_all only: D'(4) agreed(5-8))
  ultimately show ?thesis using agreed(1) by blast
qed

section \<open>A concrete exchange\<close>

text \<open>Device 1 of the known pair with its queues and timers made, waiting for device 3.\<close>

definition asking_device :: Device where
  "asking_device = (known_device 1 3)\<lparr>dv_mac := cc_Init toy_crypto new_CookieChecker (publicKey toy_crypto (toy_key 1)),
    dv_handshakeQueue := make_chan QueueHandshakeSize,
    st_peer := (\<lambda>q. (st_peer (known_device 1 3) q)\<lparr>p_hasDevice := True, p_timer := new_timers noon,
      p_nonce := make_chan QueueOutboundSize\<rparr>)\<rparr>"

lemma asking_fields [simp]:
  "dv_privateKey asking_device = toy_key 1" "dv_publicKey asking_device = publicKey toy_crypto (toy_key 1)"
  "dv_indices asking_device = Map.empty" "handshake_of asking_device = handshake_of (known_device 1 3)"
  by (simp_all add: asking_device_def handshake_of_def fun_eq_iff)

lemma asking_pair: "noise_pair toy_crypto asking_device 0 (known_device 3 1) 0"
  using known_pair by (simp add: noise_pair_def)

lemma asking_initiation:
  obtains D m where "CreateMessageInitiation toy_crypto no_globals asking_device 0 (replicate 32 5, False)
      [quiet [7, 0, 0, 0]] noon = Some (D, Inr m)"
    "dv_mac D = cc_Init toy_crypto new_CookieChecker (publicKey toy_crypto (toy_key 1))"
    "chan_buf (dv_handshakeQueue D) = []" "0 < chan_cap (dv_handshakeQueue D)" "dv_underLoadUntil D \<le> noon"
    "timers_ready D 0" "p_hasDevice (st_peer D 0)" "0 < chan_cap (p_nonce (st_peer D 0))" "ks_next (keyPairs_of D 0) = None"
proof -
  have "\<not> isZero (hs_precomputedStaticStatic (handshake_of asking_device 0))" by (simp add: toy_shared isZero_iff)
  moreover have "NewIndex (it_Delete (dv_indices asking_device) (hs_localIndex (handshake_of asking_device 0))) 0
      [quiet [7, 0, 0, 0]] = Some ([7 \<mapsto> \<lparr>ie_peer = Some 0, ie_handshake = Some 0, ie_keyPair = None\<rparr>], 7, False, [])"
    using toy_draw [of 0] by (simp add: it_Delete_def zero_handshake_def)
  ultimately obtain D m where create: "CreateMessageInitiation toy_crypto no_globals asking_device 0 (replicate 32 5, False)
      [quiet [7, 0, 0, 0]] noon = Some (D, Inr m)"
    by (rule CreateMessageInitiation_returns)
  obtain table h where "D = set_handshake (asking_device\<lparr>dv_indices := table\<rparr>) 0 h"
    using CreateMessageInitiation_ok [OF create] by blast
  with create that show ?thesis
    by (simp add: asking_device_def known_device_def zero_device_def zero_peer_def set_handshake_def upd_peer_def
        make_chan_def size_consts timers_of_def timers_made_def new_timers_def keyPairs_of_def zeroTime_def noon_def
        second_def)
qed

theorem response_completes_handshake_witness:
  "\<exists>DI1 packet D b D' k. handleUDP DI1 0 packet toy_addr noon = Some (D, b) \<and>
    RoutineHandshake toy_crypto toy_net [] D True
      \<lparr>tn_now = noon, tn_later = noon, tn_rnd = ([], False), tn_rnd2 = ([], False), tn_draws = [], tn_ok = True\<rparr> =
      Some (D', True) \<and> ks_current (keyPairs_of D' 0) = Some k \<and> chan_buf (p_nonce (st_peer D' 0)) \<noteq> []"
proof (rule asking_initiation)
  fix DI1 m1
  let ?draws = "[quiet [7, 0, 0, 0]] :: (pid, kid) draw list"
  let ?tn = "\<lparr>tn_now = noon, tn_later = noon, tn_rnd = ([], False), tn_rnd2 = ([], False), tn_draws = [], tn_ok = True\<rparr>"
  let ?pk = "publicKey toy_crypto (toy_key 1)"
  assume create: "CreateMessageInitiation toy_crypto no_globals asking_device 0 (replicate 32 5, False) ?draws noon = Some (DI1, Inr m1)"
    and mac: "dv_mac DI1 = cc_Init toy_crypto new_CookieChecker ?pk"
    and idle: "chan_buf (dv_handshakeQueue DI1) = []" "0 < chan_cap (dv_handshakeQueue DI1)" "dv_underLoadUntil DI1 \<le> noon"
    and ready: "timers_ready DI1 0" "p_hasDevice (st_peer DI1 0)" "0 < chan_cap (p_nonce (st_peer DI1 0))"
      "ks_next (keyPairs_of DI1 0) = None"
  have rnd: "length (fst (replicate 32 (b::byte), False)) = 32" for b by simp
  have times: "tai_After (Timestamp noon) (hs_lastTimestamp (handshake_of (known_device 3 1) 0))"
    "timeSub noon (hs_lastInitiationConsumption (handshake_of (known_device 3 1) 0)) > HandshakeInitationRate"
    using noon_after_zero noon_after_epoch by (simp_all add: zero_handshake_def)
  obtain DR1 where consume: "ConsumeMessageInitiation toy_crypto (known_device 3 1) m1 noon noon = (DR1, Some 0)"
    using initiation_accepted [OF toy_crypto_ok asking_pair rnd create times] by blast
  then have st: "hs_state (handshake_of DR1 0) = HandshakeInitiationConsumed" "hs_localIndex (handshake_of DR1 0) = 0"
    "dv_indices DR1 = Map.empty"
    unfolding ConsumeMessageInitiation_iff by (auto simp: zero_handshake_def)
  have "NewIndex (it_Delete (dv_indices DR1) (hs_localIndex (handshake_of DR1 0))) 0 ?draws =
      Some ([7 \<mapsto> \<lparr>ie_peer = Some 0, ie_handshake = Some 0, ie_keyPair = None\<rparr>], 7, False, [])"
    using toy_draw [of 0] by (simp add: it_Delete_def st)
  with st(1) obtain DR2 m2 where reply: "CreateMessageResponse toy_crypto DR1 0 (replicate 32 6, False) ?draws = Some (DR2, Inr m2)"
    by (rule CreateMessageResponse_returns)
  have "32 \<le> length (write_response m2)"
    using response_type [OF response_made [OF _ reply, THEN conjunct1]] response_made [OF _ reply] toy_crypto_ok
    by (simp add: crypto_ok_def)
  then obtain g' packet where stamp: "AddMacs toy_crypto (cg_Init toy_crypto new_CookieGenerator ?pk) (write_response m2) noon =
      Some (g', packet)"
    using AddMacs_total by blast
  have same: "same_peer (dv_mac DI1) (cg_Init toy_crypto new_CookieGenerator ?pk)"
    unfolding mac by (rule same_peer_Init)
  have tn: "dv_underLoadUntil DI1 \<le> tn_now ?tn" using idle(3) by simp
  from response_completes_handshake [OF toy_crypto_ok asking_pair rnd rnd create times consume reply stamp same
      idle(1,2) tn ready, of 0 toy_addr noon toy_net "[]" noon]
  show ?thesis by blast
qed

end
