(* ===== verification/Initiator.thy ===== *)
theory Initiator
  imports Timers
begin

text \<open>
  The state machine of \<^verbatim>\<open>RoutineHandshakeInitiator\<close> in \<^verbatim>\<open>controller/timers.go\<close>: when a
  handshake is asked for, how an initiation is sent again, and how fast.
\<close>

section \<open>The machine\<close>

text \<open>
  Where the routine stands, with its two local timers: at the outer select, at the label
  \<^verbatim>\<open>BeginHandshakes\<close>, at the head of the loop of attempts, at the select for the outcome, and
  before the receive from the timeout after a completed or a reset handshake.
\<close>

datatype initiator_pc = Wait_begin | Begin_handshakes | Attempt_handshake timer | Wait_result timer timer
  | Drain_completed timer | Drain_reset timer | Initiator_stopped

text \<open>
  What an attempt draws from its surroundings: the clock before the message is made and after it
  is sent, the random reads, the jitter, and whether the socket takes the message.
\<close>

record attempt =
  at_now :: time
  at_later :: time
  at_rnd :: "bytes \<times> bool"
  at_draws :: "(pid, kid) draw list"
  at_jitter :: u32
  at_ok :: bool

text \<open>The first select of an attempt. The \<^verbatim>\<open>break\<close> at the deadline only leaves the select.\<close>

definition check_deadline :: "Device \<Rightarrow> pid \<Rightarrow> timer \<Rightarrow> (Device \<times> timer) option" where
  "check_deadline D peer deadline =
    (case chan_recv (t_C deadline) of
      Some (_, c) \<Rightarrow>
        let D = upd_signal D peer (\<lambda>s. s\<lparr>sg_flushNonceQueue := signalSend (sg_flushNonceQueue s)\<rparr>)
        in (case tm_keepalivePersistent (p_timer (st_peer D peer)) of
             None \<Rightarrow> None
           | Some t \<Rightarrow> Some (upd_timer D peer (\<lambda>ts. ts\<lparr>tm_keepalivePersistent := Some (timerStop t)\<rparr>),
               deadline\<lparr>t_C := c\<rparr>))
    | None \<Rightarrow> if sg_stopped (p_signal (st_peer D peer)) then None else Some (D, deadline))"

definition jitter :: "u32 \<Rightarrow> duration" where
  "jitter r = 1000000 * int (unat (r mod 334))"

definition end_handshake :: "Device \<Rightarrow> pid \<Rightarrow> Device" where
  "end_handshake D peer = upd_signal D peer (\<lambda>s. s\<lparr>sg_handshakeBegin := signalClear (sg_handshakeBegin s)\<rparr>)"

definition attempt_handshake ::
  "crypto \<Rightarrow> netenv \<Rightarrow> string \<Rightarrow> globals \<Rightarrow> Device \<Rightarrow> pid \<Rightarrow> timer \<Rightarrow> attempt \<Rightarrow>
    (Device \<times> initiator_pc) option" where
  "attempt_handshake C N endpoint gl D peer deadline at = do {
    (D, deadline) \<leftarrow> check_deadline D peer deadline;
    let D = upd_signal D peer (\<lambda>s. s\<lparr>sg_handshakeCompleted := signalClear (sg_handshakeCompleted s)\<rparr>);
    (D, res) \<leftarrow> CreateMessageInitiation C gl D peer (at_rnd at) (at_draws at) (at_now at);
    case res of
      Inl _ \<Rightarrow> Some (end_handshake D peer, Wait_begin)
    | Inr msg \<Rightarrow> do {
        (mac, packet) \<leftarrow> AddMacs C (p_mac (st_peer D peer)) (write_initiation msg) (at_now at);
        let D = upd_peer D peer (\<lambda>r. r\<lparr>p_mac := mac\<rparr>);
        let (D, err) = SendBuffer D peer packet (at_ok at);
        if err then map_option (\<lambda>D. (D, Attempt_handshake deadline)) (changeNetwork C N D endpoint (at_later at))
        else do {
          D \<leftarrow> TimerAnyAuthenticatedPacketTraversal D peer (at_later at);
          Some (D, Wait_result deadline (newTimer (at_later at) (RekeyTimeout + jitter (at_jitter at))))
        }
      }
  }"

datatype initiator_event = Got_begin | Got_completed | Got_reset | Got_timeout | Got_stopped
  | Begin_at time | Attempt_with attempt

definition recv_signal :: "(PeerSignals \<Rightarrow> unit chan) \<Rightarrow> ((unit chan \<Rightarrow> unit chan) \<Rightarrow> PeerSignals \<Rightarrow> PeerSignals) \<Rightarrow>
    Device \<Rightarrow> pid \<Rightarrow> Device option" where
  "recv_signal get upd D peer =
    (case chan_recv (get (p_signal (st_peer D peer))) of
      None \<Rightarrow> None
    | Some (_, c) \<Rightarrow> Some (upd_signal D peer (upd (\<lambda>_. c))))"

definition timer_recv :: "timer \<Rightarrow> bool" where
  "timer_recv t = (chan_buf (t_C t) \<noteq> [])"

fun sees_stop :: "initiator_pc \<Rightarrow> bool" where
  "sees_stop Wait_begin = True"
| "sees_stop (Attempt_handshake deadline) = True"
| "sees_stop (Wait_result deadline timeout) = True"
| "sees_stop pc = False"

text \<open>One step; None when it blocks, its case of the select is not ready, or it panics.\<close>

fun RoutineHandshakeInitiator ::
  "crypto \<Rightarrow> netenv \<Rightarrow> string \<Rightarrow> globals \<Rightarrow> Device \<Rightarrow> pid \<Rightarrow> initiator_pc \<Rightarrow> initiator_event \<Rightarrow>
    (Device \<times> initiator_pc) option" where
  "RoutineHandshakeInitiator C N endpoint gl D peer Wait_begin Got_begin =
    map_option (\<lambda>D. (D, Begin_handshakes)) (recv_signal sg_handshakeBegin sg_handshakeBegin_update D peer)"
| "RoutineHandshakeInitiator C N endpoint gl D peer Begin_handshakes (Begin_at now) =
    Some (upd_signal D peer (\<lambda>s. s\<lparr>sg_handshakeReset := signalClear (sg_handshakeReset s)\<rparr>),
      Attempt_handshake (newTimer now RekeyAttemptTime))"
| "RoutineHandshakeInitiator C N endpoint gl D peer (Attempt_handshake deadline) (Attempt_with at) =
    attempt_handshake C N endpoint gl D peer deadline at"
| "RoutineHandshakeInitiator C N endpoint gl D peer (Wait_result deadline timeout) Got_completed =
    map_option (\<lambda>D. (D, Drain_completed timeout)) (recv_signal sg_handshakeCompleted sg_handshakeCompleted_update D peer)"
| "RoutineHandshakeInitiator C N endpoint gl D peer (Wait_result deadline timeout) Got_reset =
    map_option (\<lambda>D. (D, Drain_reset timeout)) (recv_signal sg_handshakeReset sg_handshakeReset_update D peer)"
| "RoutineHandshakeInitiator C N endpoint gl D peer (Wait_result deadline timeout) Got_timeout =
    (if timer_recv timeout then Some (D, Attempt_handshake deadline) else None)"
| "RoutineHandshakeInitiator C N endpoint gl D peer (Drain_completed timeout) Got_timeout =
    (if timer_recv timeout
     then Some (end_handshake (upd_timer D peer (\<lambda>t. t\<lparr>tm_sendLastMinuteHandshake := False\<rparr>)) peer, Wait_begin)
     else None)"
| "RoutineHandshakeInitiator C N endpoint gl D peer (Drain_reset timeout) Got_timeout =
    (if timer_recv timeout then Some (D, Begin_handshakes) else None)"
| "RoutineHandshakeInitiator C N endpoint gl D peer pc Got_stopped =
    (if sg_stopped (p_signal (st_peer D peer)) \<and> sees_stop pc then Some (D, Initiator_stopped) else None)"
| "RoutineHandshakeInitiator C N endpoint gl D peer _ _ = None"

section \<open>Runs in time\<close>

text \<open>
  The machine among the other routines: the clock goes on and fires the local timers, the rest
  of the program may change the device in any way, and every initiation sent is recorded with
  the clock before it was made and after it was sent.
\<close>

record ini_system =
  ii_dev :: Device
  ii_pc :: initiator_pc
  ii_clock :: time
  ii_sends :: "(time \<times> time) list"

fun fire_local :: "time \<Rightarrow> initiator_pc \<Rightarrow> initiator_pc" where
  "fire_local now (Attempt_handshake deadline) = Attempt_handshake (timer_fire deadline now)"
| "fire_local now (Wait_result deadline timeout) = Wait_result (timer_fire deadline now) (timer_fire timeout now)"
| "fire_local now (Drain_completed timeout) = Drain_completed (timer_fire timeout now)"
| "fire_local now (Drain_reset timeout) = Drain_reset (timer_fire timeout now)"
| "fire_local now pc = pc"

definition event_times :: "time \<Rightarrow> initiator_event \<Rightarrow> time option" where
  "event_times clock ev =
    (case ev of
      Begin_at now \<Rightarrow> if clock \<le> now then Some now else None
    | Attempt_with at \<Rightarrow> if clock \<le> at_now at \<and> at_now at \<le> at_later at then Some (at_later at) else None
    | _ \<Rightarrow> Some clock)"

definition sends_of :: "initiator_event \<Rightarrow> initiator_pc \<Rightarrow> (time \<times> time) list" where
  "sends_of ev pc' =
    (case (ev, pc') of (Attempt_with at, Wait_result _ _) \<Rightarrow> [(at_now at, at_later at)] | _ \<Rightarrow> [])"

definition ini_step ::
  "crypto \<Rightarrow> netenv \<Rightarrow> string \<Rightarrow> globals \<Rightarrow> pid \<Rightarrow> initiator_event \<Rightarrow> ini_system \<Rightarrow> ini_system option" where
  "ini_step C N endpoint gl p ev s =
    (case event_times (ii_clock s) ev of
      None \<Rightarrow> None
    | Some clock \<Rightarrow>
        (case RoutineHandshakeInitiator C N endpoint gl (ii_dev s) p (ii_pc s) ev of
          None \<Rightarrow> None
        | Some (D, pc) \<Rightarrow> Some (s\<lparr>ii_dev := D, ii_pc := pc, ii_clock := clock,
            ii_sends := ii_sends s @ sends_of ev pc\<rparr>)))"

inductive ini_reachable :: "crypto \<Rightarrow> netenv \<Rightarrow> string \<Rightarrow> globals \<Rightarrow> pid \<Rightarrow> ini_system \<Rightarrow> bool"
  for C N endpoint gl p where
  start: "ini_reachable C N endpoint gl p \<lparr>ii_dev = D, ii_pc = Wait_begin, ii_clock = now, ii_sends = []\<rparr>"
| step: "ini_reachable C N endpoint gl p s \<Longrightarrow> ini_step C N endpoint gl p ev s = Some s' \<Longrightarrow>
    ini_reachable C N endpoint gl p s'"
| tick: "ini_reachable C N endpoint gl p s \<Longrightarrow> ii_clock s \<le> now \<Longrightarrow>
    ini_reachable C N endpoint gl p (s\<lparr>ii_clock := now, ii_pc := fire_local now (ii_pc s)\<rparr>)"
| other: "ini_reachable C N endpoint gl p s \<Longrightarrow> ini_reachable C N endpoint gl p (s\<lparr>ii_dev := D\<rparr>)"

section \<open>Pacing\<close>

text \<open>A timeout made after a send at \<open>t\<close>: still running for long enough, or fired late enough.\<close>

definition paced_timer :: "time \<Rightarrow> timer \<Rightarrow> time \<Rightarrow> bool" where
  "paced_timer t timeout clock \<longleftrightarrow>
    (case t_deadline timeout of None \<Rightarrow> True | Some d \<Rightarrow> t + RekeyTimeout \<le> d) \<and>
    (timer_recv timeout \<longrightarrow> t + RekeyTimeout \<le> clock)"

fun paced_pc :: "time \<Rightarrow> initiator_pc \<Rightarrow> time \<Rightarrow> bool" where
  "paced_pc t (Wait_result deadline timeout) clock = paced_timer t timeout clock"
| "paced_pc t (Drain_completed timeout) clock = paced_timer t timeout clock"
| "paced_pc t (Drain_reset timeout) clock = paced_timer t timeout clock"
| "paced_pc t Initiator_stopped clock = True"
| "paced_pc t pc clock = (t + RekeyTimeout \<le> clock)"

definition ini_inv :: "ini_system \<Rightarrow> bool" where
  "ini_inv s \<longleftrightarrow>
    sorted_wrt (\<lambda>a b. snd a + RekeyTimeout \<le> fst b) (ii_sends s) \<and>
    (\<forall>x \<in> set (ii_sends s). paced_pc (snd x) (ii_pc s) (ii_clock s))"

lemma jitter_nonneg: "0 \<le> jitter r"
  by (simp add: jitter_def)

lemma paced_fire: "paced_timer t timeout clock \<Longrightarrow> clock \<le> now \<Longrightarrow> paced_timer t (timer_fire timeout now) now"
  by (auto simp: paced_timer_def timer_fire_def timer_recv_def split: option.splits)

lemma paced_tick: "paced_pc t pc clock \<Longrightarrow> clock \<le> now \<Longrightarrow> paced_pc t (fire_local now pc) now"
  by (cases pc) (auto intro: paced_fire)

lemma attempt_pcs:
  assumes "attempt_handshake C N endpoint gl D p deadline at = Some (D', pc)"
  shows "pc = Wait_begin \<or> (\<exists>d. pc = Attempt_handshake d) \<or>
    (\<exists>d. pc = Wait_result d (newTimer (at_later at) (RekeyTimeout + jitter (at_jitter at))))"
  using assms unfolding attempt_handshake_def
  by (auto simp: Let_def split: Option.bind_splits prod.splits sum.splits if_splits)

lemma step_times:
  assumes "RoutineHandshakeInitiator C N endpoint gl D p pc ev = Some (D', pc')" "event_times clock ev = Some clock'"
    "paced_pc t pc clock"
  shows "paced_pc t pc' clock' \<and> (\<forall>x \<in> set (sends_of ev pc'). t + RekeyTimeout \<le> fst x)"
proof -
  have "clock \<le> clock'"
    using assms(2) by (auto simp: event_times_def split: initiator_event.splits if_splits)
  moreover have slack: "t \<le> b + jitter r" if "t + RekeyTimeout \<le> clock" "clock \<le> a" "a \<le> b" for a b r
    using that jitter_nonneg [of r] by (simp add: duration_consts)
  ultimately show ?thesis using assms
    by (cases "(C, N, endpoint, gl, D, p, pc, ev)" rule: RoutineHandshakeInitiator.cases)
      (auto simp: event_times_def sends_of_def paced_timer_def newTimer_def timer_recv_def make_chan_def
        split: if_splits dest!: attempt_pcs intro: slack)
qed

lemma ini_reachable_inv: "ini_reachable C N endpoint gl p s \<Longrightarrow> ini_inv s"
proof (induction rule: ini_reachable.induct)
  case (step s ev s')
  obtain clock D pc where run: "event_times (ii_clock s) ev = Some clock"
    "RoutineHandshakeInitiator C N endpoint gl (ii_dev s) p (ii_pc s) ev = Some (D, pc)"
    and s': "s' = s\<lparr>ii_dev := D, ii_pc := pc, ii_clock := clock, ii_sends := ii_sends s @ sends_of ev pc\<rparr>"
    using step.hyps(2) by (auto simp: ini_step_def split: option.splits)
  have "paced_pc (snd x) pc clock \<and> (\<forall>y \<in> set (sends_of ev pc). snd x + RekeyTimeout \<le> fst y)"
    if "x \<in> set (ii_sends s)" for x
    using step_times [OF run(2,1)] step.IH that by (simp add: ini_inv_def)
  moreover have "sorted_wrt (\<lambda>a b. snd a + RekeyTimeout \<le> fst b) (sends_of ev pc)"
    by (simp add: sends_of_def split: initiator_event.split initiator_pc.split)
  moreover have "paced_pc (snd x) pc clock" if "x \<in> set (sends_of ev pc)" for x
  proof -
    from that obtain at d timeout where at: "ev = Attempt_with at" "pc = Wait_result d timeout" "x = (at_now at, at_later at)"
      by (auto simp: sends_of_def split: initiator_event.splits initiator_pc.splits)
    with run(2) obtain deadline where "attempt_handshake C N endpoint gl (ii_dev s) p deadline at = Some (D, pc)"
      by (cases "ii_pc s") auto
    from attempt_pcs [OF this] at show ?thesis
      using jitter_nonneg [of "at_jitter at"]
      by (auto simp: paced_timer_def newTimer_def timer_recv_def make_chan_def)
  qed
  ultimately show ?case
    using step.IH by (auto simp: ini_inv_def s' sorted_wrt_append)
next
  case (tick s now)
  then show ?case by (auto simp: ini_inv_def intro: paced_tick)
qed (auto simp: ini_inv_def)


section \<open>Properties\<close>

text \<open>
  C13: initiations are paced as promised: whatever the other routines, the random jitter and the
  socket do, an initiation is made no earlier than \<open>RekeyTimeout\<close> after the one before it was
  sent, whether that one was answered, reset or timed out.
\<close>

theorem initiations_are_paced:
  assumes "ini_reachable C N endpoint gl p s" "i < j" "j < length (ii_sends s)"
  shows "snd (ii_sends s ! i) + RekeyTimeout \<le> fst (ii_sends s ! j)"
  using ini_reachable_inv [OF assms(1)] assms(2,3) by (simp add: ini_inv_def sorted_wrt_iff_nth_less)

text \<open>
  The deadline of a handshake does not end it: when it has gone off, the attempt that meets
  it asks for a flush of the waiting packets and stops the persistent keepalive, and then does
  what it does before the deadline, on a deadline that can no longer go off.
\<close>

theorem deadline_does_not_end_attempts:
  assumes "t_C deadline = \<lparr>chan_cap = 1, chan_buf = [()]\<rparr>" "tm_keepalivePersistent (timers_of D p) = Some t"
    "\<not> sg_stopped (p_signal (st_peer D p))"
  shows "attempt_handshake C N endpoint gl D p deadline at =
    attempt_handshake C N endpoint gl
      (upd_timer (upd_signal D p (\<lambda>s. s\<lparr>sg_flushNonceQueue := signalSend (sg_flushNonceQueue s)\<rparr>)) p
        (\<lambda>ts. ts\<lparr>tm_keepalivePersistent := Some (timerStop t)\<rparr>)) p
      (deadline\<lparr>t_C := make_chan 1\<rparr>) at"
proof -
  let ?D = "upd_timer (upd_signal D p (\<lambda>s. s\<lparr>sg_flushNonceQueue := signalSend (sg_flushNonceQueue s)\<rparr>)) p
        (\<lambda>ts. ts\<lparr>tm_keepalivePersistent := Some (timerStop t)\<rparr>)"
  have "check_deadline D p deadline = Some (?D, deadline\<lparr>t_C := make_chan 1\<rparr>)"
    using assms(1,2) by (simp add: check_deadline_def chan_recv_def make_chan_def timers_of_def upd_signal_def upd_peer_def)
  moreover have "check_deadline ?D p (deadline\<lparr>t_C := make_chan 1\<rparr>) = Some (?D, deadline\<lparr>t_C := make_chan 1\<rparr>)"
    using assms(3) by (simp add: check_deadline_def chan_recv_def make_chan_def upd_timer_def upd_signal_def upd_peer_def)
  ultimately show ?thesis by (simp only: attempt_handshake_def)
qed

text \<open>A cipher suite of constants and a peer that is asked for a handshake.\<close>

definition flat_crypto :: crypto where
  "flat_crypto = \<lparr>blake2s = (\<lambda>_. replicate 32 1), blake2s_mac = (\<lambda>_ _. replicate 16 2),
    x25519 = (\<lambda>_ _. replicate 32 3), x25519_base = (\<lambda>_. replicate 32 4),
    aead_seal = (\<lambda>_ _ p _. p @ replicate 16 5), aead_open = (\<lambda>_ _ _ _. None), aead_refuses = (\<lambda>_ _ _ _. False)\<rparr>"

definition asked_device :: Device where
  "asked_device = zero_device\<lparr>dv_conn := Some \<lparr>ua_IP = [10, 0, 0, 1], ua_Port = 51820\<rparr>,
    st_peer := (\<lambda>_. zero_peer\<lparr>p_hasDevice := True, p_timer := new_timers 0,
      p_signal := new_signals\<lparr>sg_handshakeBegin := \<lparr>chan_cap = 1, chan_buf = [()]\<rparr>\<rparr>,
      p_handshake := zero_handshake\<lparr>hs_precomputedStaticStatic := replicate 32 1\<rparr>\<rparr>)\<rparr>"

definition attempt_at :: "time \<Rightarrow> attempt" where
  "attempt_at now = \<lparr>at_now = now, at_later = now, at_rnd = (replicate 32 5, False),
    at_draws = [quiet [7, 0, 0, 0]], at_jitter = 0, at_ok = True\<rparr>"

definition no_globals :: globals where
  "no_globals = \<lparr>gl_Ts = 0, gl_Sign = [], gl_AllowIp = None, gl_Netmask = 0\<rparr>"

definition no_endpoints :: netenv where
  "no_endpoints = \<lparr>lookup_service = (\<lambda>_. None), dial = (\<lambda>_. False)\<rparr>"

lemma created_initiation:
  assumes "CreateMessageInitiation C gl D p rnd ds now = Some (D', Inr msg)"
  shows "mi_MAC1 msg = replicate 16 0 \<and> mi_MAC2 msg = replicate 16 0 \<and> dv_conn D' = dv_conn D \<and>
    p_persistentKeepaliveInterval (st_peer D' p) = p_persistentKeepaliveInterval (st_peer D p)"
  using assms
  by (auto simp: CreateMessageInitiation_def Let_def set_handshake_def upd_peer_def split: if_splits option.splits prod.splits)

lemma attempt_sends:
  assumes "chan_buf (t_C deadline) = []" "\<not> sg_stopped (p_signal (st_peer D p))" "dv_conn D \<noteq> None"
    "p_persistentKeepaliveInterval (st_peer D p) = 0" "at_ok at" "at_rnd at = (bs, False)"
    "\<not> isZero (hs_precomputedStaticStatic (handshake_of D p))"
    "NewIndex (it_Delete (dv_indices D) (hs_localIndex (handshake_of D p))) p (at_draws at) = Some (table, i, False, ds')"
  shows "\<exists>D'. attempt_handshake C N endpoint gl D p deadline at =
    Some (D', Wait_result deadline (newTimer (at_later at) (RekeyTimeout + jitter (at_jitter at))))"
proof -
  let ?D = "upd_signal D p (\<lambda>s. s\<lparr>sg_handshakeCompleted := signalClear (sg_handshakeCompleted s)\<rparr>)"
  have same: "handshake_of ?D p = handshake_of D p" "dv_indices ?D = dv_indices D" "dv_conn ?D = dv_conn D"
    "p_persistentKeepaliveInterval (st_peer ?D p) = p_persistentKeepaliveInterval (st_peer D p)"
    by (simp_all add: handshake_of_def upd_signal_def upd_peer_def)
  obtain D1 msg where create: "CreateMessageInitiation C gl ?D p (bs, False) (at_draws at) (at_now at) = Some (D1, Inr msg)"
    using CreateMessageInitiation_returns [of ?D p "at_draws at" table i ds' C gl bs "at_now at"] assms(7,8) same by auto
  note made = created_initiation [OF create]
  have "32 \<le> length (write_initiation msg)"
    using made by (simp add: write_initiation_def initiation_arrays_def)
  then obtain mac packet where mac: "AddMacs C (p_mac (st_peer D1 p)) (write_initiation msg) (at_now at) = Some (mac, packet)"
    by (cases "AddMacs C (p_mac (st_peer D1 p)) (write_initiation msg) (at_now at)")
      (auto simp: AddMacs_def Size128_def Let_def split: if_splits)
  obtain raddr where "dv_conn D1 = Some raddr" using assms(3) made same(3) by auto
  moreover have "p_persistentKeepaliveInterval (st_peer D1 p) = 0" using made assms(4) same(4) by simp
  ultimately show ?thesis
    using mac create assms(1,2,5,6)
    by (simp add: attempt_handshake_def check_deadline_def chan_recv_def SendBuffer_def upd_peer_def
        TimerAnyAuthenticatedPacketTraversal_def)
qed

lemma asked_fields:
  "dv_conn asked_device \<noteq> None" "p_persistentKeepaliveInterval (st_peer asked_device 0) = 0"
  "\<not> isZero (hs_precomputedStaticStatic (handshake_of asked_device 0))"
  "\<not> sg_stopped (p_signal (st_peer asked_device 0))"
  "tm_keepalivePersistent (timers_of asked_device 0) = Some (NewStoppedTimer 0)"
  "NewIndex (it_Delete (dv_indices asked_device) (hs_localIndex (handshake_of asked_device 0))) 0 [quiet [7, 0, 0, 0]] =
    Some ([7 \<mapsto> \<lparr>ie_peer = Some 0, ie_handshake = Some 0, ie_keyPair = None\<rparr>], 7, False, [])"
  using toy_draw [of 0]
  by (simp_all add: asked_device_def zero_peer_def new_signals_def handshake_of_def isZero_iff timers_of_def
      new_timers_def zero_device_def it_Delete_def zero_handshake_def)

lemma attempt_at_fields:
  "at_now (attempt_at now) = now" "at_later (attempt_at now) = now" "at_rnd (attempt_at now) = (replicate 32 5, False)"
  "at_draws (attempt_at now) = [quiet [7, 0, 0, 0]]" "jitter (at_jitter (attempt_at now)) = 0" "at_ok (attempt_at now)"
  by (simp_all add: attempt_at_def jitter_def)

lemma asked_attempt:
  assumes "chan_buf (t_C deadline) = []"
  obtains D where "attempt_handshake C N endpoint gl asked_device 0 deadline (attempt_at now) =
    Some (D, Wait_result deadline (newTimer now RekeyTimeout))"
  using attempt_sends [of deadline asked_device 0 "attempt_at now", OF assms asked_fields(4,1,2) attempt_at_fields(6,3)
      asked_fields(3), unfolded attempt_at_fields add_0_right, OF asked_fields(6)] that by blast

theorem initiations_are_paced_witness:
  "\<exists>s :: ini_system. ii_sends s = [(0, 0), (6 * second, 6 * second)] \<and>
    snd (ii_sends s ! 0) + RekeyTimeout \<le> fst (ii_sends s ! 1)"
proof -
  let ?reach = "ini_reachable flat_crypto no_endpoints [] no_globals 0"
  let ?d = "newTimer 0 RekeyAttemptTime"
  have empty: "chan_buf (t_C ?d) = []" by (simp add: newTimer_def make_chan_def)
  obtain D where D: "attempt_handshake flat_crypto no_endpoints [] no_globals asked_device 0 ?d (attempt_at 0) =
      Some (D, Wait_result ?d (newTimer 0 RekeyTimeout))"
    by (rule asked_attempt [OF empty])
  obtain D' where D': "attempt_handshake flat_crypto no_endpoints [] no_globals asked_device 0 ?d (attempt_at (6 * second)) =
      Some (D', Wait_result ?d (newTimer (6 * second) RekeyTimeout))"
    by (rule asked_attempt [OF empty])
  let ?s = "\<lambda>D pc t l. \<lparr>ii_dev = D, ii_pc = pc, ii_clock = t, ii_sends = l\<rparr>"
  have 0: "?reach (?s asked_device Wait_begin 0 [])" by (rule ini_reachable.start)
  obtain D0 where "?reach (?s D0 Begin_handshakes 0 [])"
    by (rule that, rule ini_reachable.step [OF 0, of Got_begin])
      (simp add: ini_step_def event_times_def sends_of_def recv_signal_def asked_device_def chan_recv_def)
  note begun = ini_reachable.step [OF this, of "Begin_at 0"]
  have "?reach (?s (upd_signal D0 0 (\<lambda>s. s\<lparr>sg_handshakeReset := signalClear (sg_handshakeReset s)\<rparr>))
      (Attempt_handshake ?d) 0 [])"
    by (rule begun) (simp add: ini_step_def event_times_def sends_of_def)
  from ini_reachable.other [OF this, of asked_device]
  have 1: "?reach (?s asked_device (Attempt_handshake ?d) 0 [])" by simp
  have 2: "?reach (?s D (Wait_result ?d (newTimer 0 RekeyTimeout)) 0 [(0, 0)])"
    by (rule ini_reachable.step [OF 1, of "Attempt_with (attempt_at 0)"])
      (simp add: ini_step_def event_times_def sends_of_def D, simp add: attempt_at_def)
  have fired: "fire_local (6 * second) (Wait_result ?d (newTimer 0 RekeyTimeout)) =
      Wait_result ?d \<lparr>t_deadline = None, t_C = \<lparr>chan_cap = 1, chan_buf = [()]\<rparr>\<rparr>"
    by (simp add: newTimer_def timer_fire_def duration_consts make_chan_def signalSend_def chan_send_def)
  have 3: "?reach (?s D (Wait_result ?d \<lparr>t_deadline = None, t_C = \<lparr>chan_cap = 1, chan_buf = [()]\<rparr>\<rparr>) (6 * second) [(0, 0)])"
    using ini_reachable.tick [OF 2, of "6 * second"] fired by (simp add: second_def)
  have "?reach (?s D (Attempt_handshake ?d) (6 * second) [(0, 0)])"
    by (rule ini_reachable.step [OF 3, of Got_timeout])
      (simp add: ini_step_def event_times_def sends_of_def timer_recv_def)
  from ini_reachable.other [OF this, of asked_device]
  have 4: "?reach (?s asked_device (Attempt_handshake ?d) (6 * second) [(0, 0)])" by simp
  have 5: "?reach (?s D' (Wait_result ?d (newTimer (6 * second) RekeyTimeout)) (6 * second) [(0, 0), (6 * second, 6 * second)])"
    by (rule ini_reachable.step [OF 4, of "Attempt_with (attempt_at (6 * second))"])
      (simp add: ini_step_def event_times_def sends_of_def D', simp add: attempt_at_def)
  from initiations_are_paced [OF 5, of 0 1] show ?thesis
    by (intro exI [of _ "?s D' (Wait_result ?d (newTimer (6 * second) RekeyTimeout)) (6 * second)
      [(0, 0), (6 * second, 6 * second)]"]) simp
qed

theorem deadline_does_not_end_attempts_witness:
  "\<exists>D. attempt_handshake flat_crypto no_endpoints [] no_globals asked_device 0
      \<lparr>t_deadline = None, t_C = \<lparr>chan_cap = 1, chan_buf = [()]\<rparr>\<rparr> (attempt_at (90 * second)) =
    Some (D, Wait_result \<lparr>t_deadline = None, t_C = make_chan 1\<rparr> (newTimer (90 * second) RekeyTimeout))"
proof -
  let ?D = "upd_timer (upd_signal asked_device 0 (\<lambda>s. s\<lparr>sg_flushNonceQueue := signalSend (sg_flushNonceQueue s)\<rparr>)) 0
        (\<lambda>ts. ts\<lparr>tm_keepalivePersistent := Some (timerStop (NewStoppedTimer 0))\<rparr>)"
  let ?d = "\<lparr>t_deadline = None, t_C = make_chan 1\<rparr> :: timer"
  have same: "dv_conn ?D = dv_conn asked_device" "handshake_of ?D 0 = handshake_of asked_device 0"
    "p_persistentKeepaliveInterval (st_peer ?D 0) = p_persistentKeepaliveInterval (st_peer asked_device 0)"
    "sg_stopped (p_signal (st_peer ?D 0)) = sg_stopped (p_signal (st_peer asked_device 0))"
    "dv_indices ?D = dv_indices asked_device"
    by (simp_all add: upd_timer_def upd_signal_def upd_peer_def handshake_of_def)
  have empty: "chan_buf (t_C ?d) = []" by (simp add: make_chan_def)
  have "\<exists>D. attempt_handshake flat_crypto no_endpoints [] no_globals ?D 0 ?d (attempt_at (90 * second)) =
      Some (D, Wait_result ?d (newTimer (90 * second) RekeyTimeout))"
    using attempt_sends [of ?d ?D 0 "attempt_at (90 * second)", unfolded same attempt_at_fields add_0_right, OF empty asked_fields(4,1,2)
      attempt_at_fields(6) refl asked_fields(3,6)] by blast
  with deadline_does_not_end_attempts [of "\<lparr>t_deadline = None, t_C = \<lparr>chan_cap = 1, chan_buf = [()]\<rparr>\<rparr>"
      asked_device 0 "NewStoppedTimer 0" flat_crypto no_endpoints "[]" no_globals "attempt_at (90 * second)"]
    asked_fields(4,5)
  show ?thesis by simp
qed

end
