(* ===== verification/Aes.thy ===== *)
theory Aes
  imports Keys
begin

text \<open>
  The parts of Go's \<^verbatim>\<open>crypto/aes\<close> and \<^verbatim>\<open>crypto/cipher\<close> that \<^verbatim>\<open>common/aes_cbc.go\<close> uses:
  the block cipher of FIPS 197 with keys of 16, 24 and 32 bytes, and CBC. A block is the list of
  its 16 bytes, column by column; decryption is shown to invert encryption.
\<close>

section \<open>Bytes\<close>

definition sbox :: "nat list list" where
  "sbox =
    [[99, 124, 119, 123, 242, 107, 111, 197, 48, 1, 103, 43, 254, 215, 171, 118],
     [202, 130, 201, 125, 250, 89, 71, 240, 173, 212, 162, 175, 156, 164, 114, 192],
     [183, 253, 147, 38, 54, 63, 247, 204, 52, 165, 229, 241, 113, 216, 49, 21],
     [4, 199, 35, 195, 24, 150, 5, 154, 7, 18, 128, 226, 235, 39, 178, 117],
     [9, 131, 44, 26, 27, 110, 90, 160, 82, 59, 214, 179, 41, 227, 47, 132],
     [83, 209, 0, 237, 32, 252, 177, 91, 106, 203, 190, 57, 74, 76, 88, 207],
     [208, 239, 170, 251, 67, 77, 51, 133, 69, 249, 2, 127, 80, 60, 159, 168],
     [81, 163, 64, 143, 146, 157, 56, 245, 188, 182, 218, 33, 16, 255, 243, 210],
     [205, 12, 19, 236, 95, 151, 68, 23, 196, 167, 126, 61, 100, 93, 25, 115],
     [96, 129, 79, 220, 34, 42, 144, 136, 70, 238, 184, 20, 222, 94, 11, 219],
     [224, 50, 58, 10, 73, 6, 36, 92, 194, 211, 172, 98, 145, 149, 228, 121],
     [231, 200, 55, 109, 141, 213, 78, 169, 108, 86, 244, 234, 101, 122, 174, 8],
     [186, 120, 37, 46, 28, 166, 180, 198, 232, 221, 116, 31, 75, 189, 139, 138],
     [112, 62, 181, 102, 72, 3, 246, 14, 97, 53, 87, 185, 134, 193, 29, 158],
     [225, 248, 152, 17, 105, 217, 142, 148, 155, 30, 135, 233, 206, 85, 40, 223],
     [140, 161, 137, 13, 191, 230, 66, 104, 65, 153, 45, 15, 176, 84, 187, 22]]"

definition inv_sbox :: "nat list list" where
  "inv_sbox =
    [[82, 9, 106, 213, 48, 54, 165, 56, 191, 64, 163, 158, 129, 243, 215, 251],
     [124, 227, 57, 130, 155, 47, 255, 135, 52, 142, 67, 68, 196, 222, 233, 203],
     [84, 123, 148, 50, 166, 194, 35, 61, 238, 76, 149, 11, 66, 250, 195, 78],
     [8, 46, 161, 102, 40, 217, 36, 178, 118, 91, 162, 73, 109, 139, 209, 37],
     [114, 248, 246, 100, 134, 104, 152, 22, 212, 164, 92, 204, 93, 101, 182, 146],
     [108, 112, 72, 80, 253, 237, 185, 218, 94, 21, 70, 87, 167, 141, 157, 132],
     [144, 216, 171, 0, 140, 188, 211, 10, 247, 228, 88, 5, 184, 179, 69, 6],
     [208, 44, 30, 143, 202, 63, 15, 2, 193, 175, 189, 3, 1, 19, 138, 107],
     [58, 145, 17, 65, 79, 103, 220, 234, 151, 242, 207, 206, 240, 180, 230, 115],
     [150, 172, 116, 34, 231, 173, 53, 133, 226, 249, 55, 232, 28, 117, 223, 110],
     [71, 241, 26, 113, 29, 41, 197, 137, 111, 183, 98, 14, 170, 24, 190, 27],
     [252, 86, 62, 75, 198, 210, 121, 32, 154, 219, 192, 254, 120, 205, 90, 244],
     [31, 221, 168, 51, 136, 7, 199, 49, 177, 18, 16, 89, 39, 128, 236, 95],
     [96, 81, 127, 169, 25, 181, 74, 13, 45, 229, 122, 159, 147, 201, 156, 239],
     [160, 224, 59, 77, 174, 42, 245, 176, 200, 235, 187, 60, 131, 83, 153, 97],
     [23, 43, 4, 126, 186, 119, 214, 38, 225, 105, 20, 99, 85, 33, 12, 125]]"

definition look_up :: "nat list list \<Rightarrow> nat \<Rightarrow> nat" where
  "look_up box i = box ! (i div 16) ! (i mod 16)"

definition sub_byte :: "byte \<Rightarrow> byte" where "sub_byte b = word_of_nat (look_up sbox (unat b))"
definition inv_sub_byte :: "byte \<Rightarrow> byte" where "inv_sub_byte b = word_of_nat (look_up inv_sbox (unat b))"

definition xtime :: "byte \<Rightarrow> byte" where
  "xtime b = push_bit 1 b XOR (if bit b 7 then 27 else 0)"

section \<open>Rounds\<close>

definition permute :: "nat list \<Rightarrow> bytes \<Rightarrow> bytes" where
  "permute is s = map ((!) s) is"

definition shift_rows :: "bytes \<Rightarrow> bytes" where
  "shift_rows = permute [0, 5, 10, 15, 4, 9, 14, 3, 8, 13, 2, 7, 12, 1, 6, 11]"

definition inv_shift_rows :: "bytes \<Rightarrow> bytes" where
  "inv_shift_rows = permute [0, 13, 10, 7, 4, 1, 14, 11, 8, 5, 2, 15, 12, 9, 6, 3]"

definition mix_byte :: "byte \<Rightarrow> byte \<Rightarrow> byte \<Rightarrow> byte \<Rightarrow> byte" where
  "mix_byte a b c d = xtime a XOR (xtime b XOR b) XOR c XOR d"

definition inv_mix_byte :: "byte \<Rightarrow> byte \<Rightarrow> byte \<Rightarrow> byte \<Rightarrow> byte" where
  "inv_mix_byte a b c d =
    (xtime (xtime (xtime a)) XOR xtime (xtime a) XOR xtime a) XOR
    (xtime (xtime (xtime b)) XOR xtime b XOR b) XOR
    (xtime (xtime (xtime c)) XOR xtime (xtime c) XOR c) XOR
    (xtime (xtime (xtime d)) XOR d)"

fun columns_with :: "(byte \<Rightarrow> byte \<Rightarrow> byte \<Rightarrow> byte \<Rightarrow> byte) \<Rightarrow> bytes \<Rightarrow> bytes" where
  "columns_with f (a # b # c # d # s) = f a b c d # f b c d a # f c d a b # f d a b c # columns_with f s"
| "columns_with f s = s"

definition add_key :: "bytes \<Rightarrow> bytes \<Rightarrow> bytes" where
  "add_key k s = map2 (XOR) k s"

fun enc_rounds :: "bytes list \<Rightarrow> bytes \<Rightarrow> bytes" where
  "enc_rounds [] s = s"
| "enc_rounds [k] s = add_key k (shift_rows (map sub_byte s))"
| "enc_rounds (k # ks) s = enc_rounds ks (add_key k (columns_with mix_byte (shift_rows (map sub_byte s))))"

fun dec_rounds :: "bytes list \<Rightarrow> bytes \<Rightarrow> bytes" where
  "dec_rounds [] s = s"
| "dec_rounds [k] s = map inv_sub_byte (inv_shift_rows (add_key k s))"
| "dec_rounds (k # ks) s =
    map inv_sub_byte (inv_shift_rows (columns_with inv_mix_byte (add_key k (dec_rounds ks s))))"

section \<open>Keys\<close>

text \<open>
  The words of the key schedule are made one after the other, \<open>nk\<close> of them are the key;
  \<open>rc\<close> is the round constant.
\<close>

definition schedule_word :: "nat \<Rightarrow> nat \<Rightarrow> byte \<Rightarrow> bytes \<Rightarrow> bytes" where
  "schedule_word nk i rc temp =
    (if i mod nk = 0 then add_key [rc, 0, 0, 0] (map sub_byte (rotate1 temp))
     else if nk > 6 \<and> i mod nk = 4 then map sub_byte temp
     else temp)"

fun key_schedule :: "nat \<Rightarrow> nat \<Rightarrow> nat \<Rightarrow> byte \<Rightarrow> bytes list \<Rightarrow> bytes list" where
  "key_schedule 0 nk i rc ws = ws"
| "key_schedule (Suc n) nk i rc ws =
    key_schedule n nk (Suc i) (if i mod nk = 0 then xtime rc else rc)
      (ws @ [add_key (ws ! (i - nk)) (schedule_word nk i rc (last ws))])"

fun chunks :: "nat \<Rightarrow> nat \<Rightarrow> 'a list \<Rightarrow> 'a list list" where
  "chunks 0 n xs = []"
| "chunks (Suc m) n xs = take n xs # chunks m n (drop n xs)"

definition round_keys :: "bytes \<Rightarrow> bytes list" where
  "round_keys key =
    (let nk = length key div 4; words = 4 * (nk + 7)
     in map concat (chunks (nk + 7) 4 (key_schedule (words - nk) nk nk 1 (chunks nk 4 key))))"

text \<open>\<^verbatim>\<open>aes.NewCipher\<close>: None is the error for a key of a wrong size.\<close>

definition aes_NewCipher :: "bytes \<Rightarrow> bytes list option" where
  "aes_NewCipher key = (if length key \<in> {16, 24, 32} then Some (round_keys key) else None)"

definition aes_Encrypt :: "bytes list \<Rightarrow> bytes \<Rightarrow> bytes" where
  "aes_Encrypt block s = enc_rounds (tl block) (add_key (hd block) s)"

definition aes_Decrypt :: "bytes list \<Rightarrow> bytes \<Rightarrow> bytes" where
  "aes_Decrypt block s = add_key (hd block) (dec_rounds (tl block) s)"

definition BlockSize :: nat where "BlockSize = 16"

section \<open>CBC\<close>

fun cbc_encrypt :: "(bytes \<Rightarrow> bytes) \<Rightarrow> nat \<Rightarrow> bytes \<Rightarrow> bytes \<Rightarrow> bytes" where
  "cbc_encrypt E 0 iv src = []"
| "cbc_encrypt E (Suc n) iv src =
    (let c = E (map2 (XOR) (take BlockSize src) iv) in c @ cbc_encrypt E n c (drop BlockSize src))"

fun cbc_decrypt :: "(bytes \<Rightarrow> bytes) \<Rightarrow> nat \<Rightarrow> bytes \<Rightarrow> bytes \<Rightarrow> bytes" where
  "cbc_decrypt D 0 iv src = []"
| "cbc_decrypt D (Suc n) iv src =
    map2 (XOR) (D (take BlockSize src)) iv @ cbc_decrypt D n (take BlockSize src) (drop BlockSize src)"

text \<open>\<^verbatim>\<open>CryptBlocks\<close> panics on input that is not a whole number of blocks.\<close>

definition CBCEncrypter :: "bytes list \<Rightarrow> bytes \<Rightarrow> bytes \<Rightarrow> bytes option" where
  "CBCEncrypter block iv src =
    (if length src mod BlockSize \<noteq> 0 then None
     else Some (cbc_encrypt (aes_Encrypt block) (length src div BlockSize) iv src))"

definition CBCDecrypter :: "bytes list \<Rightarrow> bytes \<Rightarrow> bytes \<Rightarrow> bytes option" where
  "CBCDecrypter block iv src =
    (if length src mod BlockSize \<noteq> 0 then None
     else Some (cbc_decrypt (aes_Decrypt block) (length src div BlockSize) iv src))"

section \<open>Decryption inverts encryption\<close>

named_theorems aes_simps \<open>inverses and lengths of the parts of a round\<close>

definition box_entry_ok :: "nat \<Rightarrow> bool" where
  "box_entry_ok i \<longleftrightarrow> look_up sbox i < 256 \<and> look_up inv_sbox (look_up sbox i) = i"

lemma boxes: "list_all box_entry_ok [0..<256]"
  by (simp add: upt_rec box_entry_ok_def look_up_def sbox_def inv_sbox_def)

lemma inv_sub_byte [aes_simps]: "inv_sub_byte (sub_byte b) = b"
proof -
  have "unat b < 256" using unat_bound [of b] by simp
  then have "box_entry_ok (unat b)" using boxes by (simp add: list_all_iff)
  then show ?thesis by (simp add: box_entry_ok_def sub_byte_def inv_sub_byte_def unat_of_nat)
qed

lemma xtime_xor [aes_simps]: "xtime (a XOR b) = xtime a XOR xtime b"
  by (auto simp: xtime_def bit_xor_iff push_bit_xor ac_simps)

lemma inv_mix [aes_simps]:
  "inv_mix_byte (mix_byte a b c d) (mix_byte b c d a) (mix_byte c d a b) (mix_byte d a b c) = a"
  by (simp add: inv_mix_byte_def mix_byte_def xtime_xor ac_simps)

lemma inv_columns [aes_simps]: "columns_with inv_mix_byte (columns_with mix_byte s) = s"
  by (induction mix_byte s rule: columns_with.induct) (simp_all add: inv_mix)

lemma length_columns [simp]: "length (columns_with f s) = length s"
  by (induction f s rule: columns_with.induct) simp_all

lemma length_add_key [simp]: "length (add_key k s) = min (length k) (length s)"
  by (simp add: add_key_def)

lemma length_shift [simp]: "length (shift_rows s) = 16" "length (inv_shift_rows s) = 16"
  by (simp_all add: shift_rows_def inv_shift_rows_def permute_def)

lemma sixteen:
  assumes "length s = 16"
  obtains a b c d e f g h i j k l m n p q where "s = [a, b, c, d, e, f, g, h, i, j, k, l, m, n, p, q]"
  using assms by (auto simp: numeral_eq_Suc length_Suc_conv)

lemma inv_shift [aes_simps]: "length s = 16 \<Longrightarrow> inv_shift_rows (shift_rows s) = s"
  by (erule sixteen) (simp add: shift_rows_def inv_shift_rows_def permute_def)

lemma xor_twice: "length k = length s \<Longrightarrow> map2 (XOR) k (map2 (XOR) k s) = (s :: bytes)"
  by (induction k s rule: list_induct2) (simp_all add: xor.assoc [symmetric])

lemma add_key_twice [aes_simps]: "length k = 16 \<Longrightarrow> length s = 16 \<Longrightarrow> add_key k (add_key k s) = s"
  by (simp add: add_key_def xor_twice)

lemma inv_map_sub [aes_simps]: "map inv_sub_byte (map sub_byte s) = s"
  by (induction s) (simp_all add: inv_sub_byte)

lemma length_enc_rounds: "list_all (\<lambda>k. length k = 16) ks \<Longrightarrow> length s = 16 \<Longrightarrow> length (enc_rounds ks s) = 16"
  by (induction ks s rule: enc_rounds.induct) simp_all

lemma dec_enc_rounds:
  "list_all (\<lambda>k. length k = 16) ks \<Longrightarrow> length s = 16 \<Longrightarrow> dec_rounds ks (enc_rounds ks s) = s"
  by (induction ks s rule: enc_rounds.induct) (simp_all add: aes_simps del: map_map)

lemma length_chunk: "n * m \<le> length xs \<Longrightarrow> list_all (\<lambda>c. length c = n) (chunks m n xs)"
  by (induction m n xs rule: chunks.induct) auto

lemma length_chunks [simp]: "length (chunks m n xs) = m"
  by (induction m n xs rule: chunks.induct) simp_all

lemma chunk_all: "list_all P xs \<Longrightarrow> list_all (list_all P) (chunks m n xs)"
  by (induction m n xs rule: chunks.induct) (auto simp: list_all_iff dest: in_set_takeD in_set_dropD)

lemma key_schedule_words:
  "list_all (\<lambda>w. length w = 4) ws \<Longrightarrow> length ws = i \<Longrightarrow> 0 < nk \<Longrightarrow> nk \<le> i \<Longrightarrow>
    list_all (\<lambda>w. length w = 4) (key_schedule n nk i rc ws) \<and> length (key_schedule n nk i rc ws) = i + n"
proof (induction n nk i rc ws rule: key_schedule.induct)
  case (2 n nk i rc ws)
  have "ws \<noteq> []" using "2.prems" by auto
  then have "ws ! (i - nk) \<in> set ws" "last ws \<in> set ws" using "2.prems" by simp_all
  then have "length (ws ! (i - nk)) = 4" "length (last ws) = 4"
    using "2.prems"(1) by (auto simp: list_all_iff)
  with 2 show ?case by (simp add: schedule_word_def)
qed simp

lemma length_concat_const: "list_all (\<lambda>w. length w = n) ws \<Longrightarrow> length (concat ws) = n * length ws"
  by (induction ws) simp_all

lemma four_words: "list_all (\<lambda>w. length w = 4) c \<Longrightarrow> length c = 4 \<Longrightarrow> length (concat c) = 16"
  using length_concat_const [of 4 c] by simp

lemma round_keys_shape:
  assumes "0 < nk" "nk * 4 = length key"
  shows "list_all (\<lambda>k. length k = 16)
    (map concat (chunks (nk + 7) 4 (key_schedule (4 * (nk + 7) - nk) nk nk 1 (chunks nk 4 key))))"
proof -
  let ?ws = "key_schedule (4 * (nk + 7) - nk) nk nk 1 (chunks nk 4 key)"
  have "list_all (\<lambda>w. length w = 4) (chunks nk 4 key)" by (rule length_chunk) (use assms in simp)
  then have ws: "list_all (\<lambda>w. length w = 4) ?ws" "length ?ws = 4 * (nk + 7)"
    using key_schedule_words [of "chunks nk 4 key" nk nk "4 * (nk + 7) - nk" 1] assms(1) by simp_all
  have "list_all (\<lambda>c. length c = 4) (chunks (nk + 7) 4 ?ws)"
    by (rule length_chunk) (simp only: ws(2))
  moreover have "list_all (list_all (\<lambda>w. length w = 4)) (chunks (nk + 7) 4 ?ws)"
    by (rule chunk_all [OF ws(1)])
  ultimately show ?thesis
    by (simp add: list_all_iff four_words [unfolded list_all_iff])
qed

lemma round_keys_ok:
  assumes "length key \<in> {16, 24, 32}"
  shows "list_all (\<lambda>k. length k = 16) (round_keys key) \<and> round_keys key \<noteq> []"
proof -
  have "0 < length key div 4" "length key div 4 * 4 = length key" using assms by auto
  from round_keys_shape [OF this] have "list_all (\<lambda>k. length k = 16) (round_keys key)"
    by (simp only: round_keys_def Let_def)
  moreover have "length (round_keys key) = length key div 4 + 7"
    by (simp add: round_keys_def Let_def)
  ultimately show ?thesis by auto
qed

lemma aes_inverse:
  assumes "aes_NewCipher key = Some block" "length s = 16"
  shows "aes_Decrypt block (aes_Encrypt block s) = s" "length (aes_Encrypt block s) = 16"
proof -
  from assms(1) have "list_all (\<lambda>k. length k = 16) block" "block \<noteq> []"
    using round_keys_ok [of key] by (auto simp: aes_NewCipher_def split: if_splits)
  then obtain k ks where block: "block = k # ks" "length k = 16" "list_all (\<lambda>k. length k = 16) ks"
    by (cases block) auto
  then show "aes_Decrypt block (aes_Encrypt block s) = s" "length (aes_Encrypt block s) = 16"
    using assms(2) by (simp_all add: aes_Decrypt_def aes_Encrypt_def dec_enc_rounds add_key_twice length_enc_rounds)
qed

lemma xor_back: "length a = length b \<Longrightarrow> map2 (XOR) (map2 (XOR) a b) b = (a :: bytes)"
  by (induction a b rule: list_induct2) (simp_all add: xor.assoc)

lemma cbc_inverse:
  assumes "\<And>s. length s = 16 \<Longrightarrow> D (E s) = s \<and> length (E s) = 16"
  shows "length src = 16 * n \<Longrightarrow> length iv = 16 \<Longrightarrow>
    cbc_decrypt D n iv (cbc_encrypt E n iv src) = src \<and> length (cbc_encrypt E n iv src) = 16 * n"
proof (induction n arbitrary: iv src)
  case (Suc n)
  let ?b = "take 16 src" and ?c = "E (map2 (XOR) (take 16 src) iv)"
  have c: "D ?c = map2 (XOR) ?b iv" "length ?c = 16" using assms Suc.prems by simp_all
  moreover have "map2 (XOR) (map2 (XOR) ?b iv) iv = ?b" by (rule xor_back) (use Suc.prems in simp)
  ultimately show ?case
    using Suc.IH [of "drop 16 src" ?c] Suc.prems by (simp add: BlockSize_def Let_def)
qed simp

lemma CBC_inverse:
  assumes "aes_NewCipher key = Some block" "length iv = 16" "CBCEncrypter block iv src = Some c"
  shows "CBCDecrypter block iv c = Some src"
proof -
  have n: "length src = 16 * (length src div 16)"
    using assms(3) by (auto simp: CBCEncrypter_def BlockSize_def split: if_splits)
  have c: "c = cbc_encrypt (aes_Encrypt block) (length src div 16) iv src"
    using assms(3) by (auto simp: CBCEncrypter_def BlockSize_def split: if_splits)
  have "cbc_decrypt (aes_Decrypt block) (length src div 16) iv c = src \<and> length c = 16 * (length src div 16)"
    unfolding c by (rule cbc_inverse [OF _ n assms(2)]) (simp add: aes_inverse [OF assms(1)])
  then show ?thesis by (simp add: CBCDecrypter_def BlockSize_def)
qed

end
