(* ===== verification/Domain_Lookup.thy ===== *)
theory Domain_Lookup
  imports Aes Channels
begin

text \<open>
  The lookup of the server: the DNS request of \<^verbatim>\<open>controller/qt.go\<close>, the decryption of its
  answer in \<^verbatim>\<open>common/aes_cbc.go\<close> and \<^verbatim>\<open>GetDomain\<close> of \<^verbatim>\<open>main.go\<close>, whose
  requests run at the same time and share their variables with it.
\<close>

section \<open>The request\<close>

definition bytes_of :: "string \<Rightarrow> bytes" where
  "bytes_of = map (\<lambda>c. word_of_nat (of_char c))"

definition string_of :: "bytes \<Rightarrow> string" where
  "string_of = map (\<lambda>b. char_of (unat b))"

record dnsHeader =
  dh_Id :: u16
  dh_Bits :: u16
  dh_Qdcount :: u16
  dh_Ancount :: u16
  dh_Nscount :: u16
  dh_Arcount :: u16

definition SetFlag :: "dnsHeader \<Rightarrow> u16 \<Rightarrow> u16 \<Rightarrow> u16 \<Rightarrow> u16 \<Rightarrow> u16 \<Rightarrow> u16 \<Rightarrow> u16 \<Rightarrow> dnsHeader" where
  "SetFlag header QR OperationCode AuthoritativeAnswer Truncation RecursionDesired RecursionAvailable
      ResponseCode =
    header\<lparr>dh_Bits := push_bit 15 QR + push_bit 11 OperationCode + push_bit 10 AuthoritativeAnswer +
      push_bit 9 Truncation + push_bit 8 RecursionDesired + push_bit 7 RecursionAvailable + ResponseCode\<rparr>"

record dnsQuery =
  dq_QuestionType :: u16
  dq_QuestionClass :: u16

text \<open>\<^verbatim>\<open>binary.Write\<close> of the two structures, big-endian.\<close>

definition write_dnsHeader :: "dnsHeader \<Rightarrow> bytes" where
  "write_dnsHeader h = be16 (dh_Id h) @ be16 (dh_Bits h) @ be16 (dh_Qdcount h) @ be16 (dh_Ancount h) @
    be16 (dh_Nscount h) @ be16 (dh_Arcount h)"

definition write_dnsQuery :: "dnsQuery \<Rightarrow> bytes" where
  "write_dnsQuery q = be16 (dq_QuestionType q) @ be16 (dq_QuestionClass q)"

text \<open>\<^verbatim>\<open>strings.Split(domain, ".")\<close>, never empty.\<close>

fun split_dots :: "string \<Rightarrow> string list" where
  "split_dots [] = [[]]"
| "split_dots (c # s) =
    (if c = CHR ''.'' then [] # split_dots s
     else case split_dots s of [] \<Rightarrow> [[c]] | v # vs \<Rightarrow> (c # v) # vs)"

definition parseDomainName :: "string \<Rightarrow> bytes" where
  "parseDomainName domain =
    concat (map (\<lambda>v. word_of_nat (length v) # bytes_of v) (split_dots domain)) @ [0]"

definition dns_request :: "string \<Rightarrow> bytes" where
  "dns_request domain =
    (let requestHeader = \<lparr>dh_Id = 0x10, dh_Bits = 0, dh_Qdcount = 1, dh_Ancount = 0, dh_Nscount = 0, dh_Arcount = 0\<rparr>;
         requestHeader = SetFlag requestHeader 0 0 0 0 1 0 0;
         requestQuery = \<lparr>dq_QuestionType = 16, dq_QuestionClass = 1\<rparr>
     in write_dnsHeader requestHeader @ parseDomainName domain @ write_dnsQuery requestQuery)"

section \<open>The exchange\<close>

text \<open>
  The network: whether a server can be dialled, whether it takes the message, and the datagram
  it answers with within three seconds, None when there is none or it is longer than the buffer
  of 1024 bytes.
\<close>

record dnsenv =
  dns_dial :: "string \<Rightarrow> bool"
  dns_write :: "string \<Rightarrow> bytes \<Rightarrow> bool"
  dns_read :: "string \<Rightarrow> bytes \<Rightarrow> bytes option"

datatype dns_error = Dial_failed | Write_failed | Read_failed | Bad_length nat

definition dns_exchange :: "dnsenv \<Rightarrow> string \<Rightarrow> string \<Rightarrow> dns_error + bytes" where
  "dns_exchange E dnsServer domain =
    (if \<not> dns_dial E dnsServer then Inl Dial_failed
     else
       let msg = dns_request domain
       in if \<not> dns_write E dnsServer msg then Inl Write_failed
          else case dns_read E dnsServer msg of
            None \<Rightarrow> Inl Read_failed
          | Some buf \<Rightarrow>
              if length buf \<le> 13 \<or> length msg + 13 > length buf then Inl (Bad_length (length buf))
              else Inr (drop (length msg + 13) buf))"

text \<open>The answer is sent to the channel before it is returned; None while the channel is full.\<close>

definition SendDNSReq ::
  "dnsenv \<Rightarrow> string \<Rightarrow> string \<Rightarrow> bytes chan \<Rightarrow> (bytes chan \<times> (dns_error + bytes)) option" where
  "SendDNSReq E dnsServer domain msgChan =
    (case dns_exchange E dnsServer domain of
      Inl e \<Rightarrow> Some (msgChan, Inl e)
    | Inr resultMsg \<Rightarrow> map_option (\<lambda>c. (c, Inr resultMsg)) (chan_send msgChan resultMsg))"

section \<open>Decryption\<close>

datatype aes_error = Bad_key_size | Bad_base64

text \<open>Both slice expressions panic out of range.\<close>

definition pKCS5UnPadding :: "bytes \<Rightarrow> bytes option" where
  "pKCS5UnPadding origData =
    (if origData = [] then None
     else
       let unpadding = unat (last origData)
       in if length origData < unpadding then None else Some (take (length origData - unpadding) origData))"

definition aes_Decrypt_text :: "bytes \<Rightarrow> bytes \<Rightarrow> (aes_error + bytes) option" where
  "aes_Decrypt_text crypted secret =
    (case aes_NewCipher secret of
      None \<Rightarrow> Some (Inl Bad_key_size)
    | Some block \<Rightarrow>
        (case base64_DecodeString (string_of crypted) of
          None \<Rightarrow> Some (Inl Bad_base64)
        | Some crypted \<Rightarrow> do {
            origData \<leftarrow> CBCDecrypter block (take BlockSize secret) crypted;
            origData \<leftarrow> pKCS5UnPadding origData;
            Some (Inr origData)
          }))"

section \<open>The lookup\<close>

text \<open>
  \<^verbatim>\<open>GetDomain\<close> stands in the loop that starts the requests, at the select, before the
  test of the length, before the decryption, before the test of its error, or has ended. The
  requests share with it the loop variable, the message, the error and the channel.
\<close>

datatype domain_pc = Asking | Waiting | Testing | Decrypting | Checking bytes | Returned string | Panicked

record domain_run =
  dr_servers :: "string list"
  dr_v :: string
  dr_started :: nat
  dr_asking :: "string list"
  dr_done :: "(dns_error + bytes) list"
  dr_chan :: "bytes chan"
  dr_qtMsg :: bytes
  dr_err :: bool
  dr_pc :: domain_pc

definition dns_servers :: "string \<Rightarrow> string list" where
  "dns_servers isAbroad =
    (if isAbroad = ''1'' then [''8.8.8.8:53'']
     else [''114.114.114.114:53'', ''223.5.5.5:53'', ''119.29.29.29:53'', ''180.76.76.76:53''])"

definition GetDomain_start :: "string \<Rightarrow> domain_run" where
  "GetDomain_start isAbroad = \<lparr>dr_servers = dns_servers isAbroad, dr_v = [], dr_started = 0, dr_asking = [],
    dr_done = [], dr_chan = make_chan 3, dr_qtMsg = [], dr_err = False, dr_pc = Asking\<rparr>"

text \<open>
  The steps of the requests: one that was started reads the loop variable, one that asks its
  server returns, and one that returned assigns its result to the shared variables.
\<close>

datatype request_event = Launch | Request nat | Assign nat

definition without :: "nat \<Rightarrow> 'a list \<Rightarrow> 'a list" where
  "without i xs = take i xs @ drop (Suc i) xs"

fun request_step :: "dnsenv \<Rightarrow> string \<Rightarrow> request_event \<Rightarrow> domain_run \<Rightarrow> domain_run option" where
  "request_step E domain Launch s =
    (if dr_started s = 0 then None
     else Some (s\<lparr>dr_started := dr_started s - 1, dr_asking := dr_asking s @ [dr_v s]\<rparr>))"
| "request_step E domain (Request i) s =
    (if length (dr_asking s) \<le> i then None
     else map_option (\<lambda>(c, r). s\<lparr>dr_asking := without i (dr_asking s), dr_chan := c, dr_done := dr_done s @ [r]\<rparr>)
       (SendDNSReq E (dr_asking s ! i) domain (dr_chan s)))"
| "request_step E domain (Assign i) s =
    (if length (dr_done s) \<le> i then None
     else
       let s' = s\<lparr>dr_done := without i (dr_done s)\<rparr>
       in case dr_done s ! i of
            Inl _ \<Rightarrow> Some (s'\<lparr>dr_qtMsg := [], dr_err := True\<rparr>)
          | Inr m \<Rightarrow> Some (s'\<lparr>dr_qtMsg := m, dr_err := False\<rparr>))"

definition domain_secret :: "string \<Rightarrow> bytes" where
  "domain_secret secret = bytes_of (if secret = [] then ''wriQVbeJqBWC2qJ0'' else secret)"

datatype domain_event = Loop | Answer | Timeout | Test | Decrypt | Conclude | Of_request request_event

fun GetDomain :: "dnsenv \<Rightarrow> string \<Rightarrow> string \<Rightarrow> domain_event \<Rightarrow> domain_run \<Rightarrow> domain_run option" where
  "GetDomain E domain secret Loop s =
    (if dr_pc s \<noteq> Asking then None
     else case dr_servers s of
            [] \<Rightarrow> Some (s\<lparr>dr_pc := Waiting\<rparr>)
          | v # rest \<Rightarrow> Some (s\<lparr>dr_servers := rest, dr_v := v, dr_started := Suc (dr_started s)\<rparr>))"
| "GetDomain E domain secret Answer s =
    (if dr_pc s \<noteq> Waiting then None
     else map_option (\<lambda>(b, c). s\<lparr>dr_chan := c, dr_qtMsg := b, dr_pc := Testing\<rparr>) (chan_recv (dr_chan s)))"
| "GetDomain E domain secret Timeout s =
    (if dr_pc s \<noteq> Waiting then None else Some (s\<lparr>dr_pc := Testing\<rparr>))"
| "GetDomain E domain secret Test s =
    (if dr_pc s \<noteq> Testing then None
     else Some (s\<lparr>dr_pc := (if dr_qtMsg s = [] then Returned [] else Decrypting)\<rparr>))"
| "GetDomain E domain secret Decrypt s =
    (if dr_pc s \<noteq> Decrypting then None
     else case aes_Decrypt_text (dr_qtMsg s) (domain_secret secret) of
            None \<Rightarrow> Some (s\<lparr>dr_pc := Panicked\<rparr>)
          | Some (Inl _) \<Rightarrow> Some (s\<lparr>dr_err := True, dr_pc := Checking []\<rparr>)
          | Some (Inr v) \<Rightarrow> Some (s\<lparr>dr_err := False, dr_pc := Checking v\<rparr>))"
| "GetDomain E domain secret Conclude s =
    (case dr_pc s of
      Checking v \<Rightarrow> Some (s\<lparr>dr_pc := Returned (if dr_err s then [] else string_of v)\<rparr>)
    | _ \<Rightarrow> None)"
| "GetDomain E domain secret (Of_request ev) s =
    (if dr_pc s = Panicked then None else request_step E domain ev s)"

fun domain_events :: "dnsenv \<Rightarrow> string \<Rightarrow> string \<Rightarrow> domain_event list \<Rightarrow> domain_run \<Rightarrow> domain_run option" where
  "domain_events E domain secret [] s = Some s"
| "domain_events E domain secret (ev # evs) s =
    Option.bind (GetDomain E domain secret ev s) (domain_events E domain secret evs)"

lemma domain_events_append:
  "domain_events E domain secret (evs @ evs') s =
    Option.bind (domain_events E domain secret evs s) (domain_events E domain secret evs')"
  by (induction evs arbitrary: s) (auto split: Option.bind_split)

section \<open>A name is read back\<close>

text \<open>The reader of RFC 1035: labels of at most 63 bytes up to the empty one.\<close>

fun read_name :: "bytes \<Rightarrow> (bytes list \<times> bytes) option" where
  "read_name [] = None"
| "read_name (n # bs) =
    (if n = 0 then Some ([], bs)
     else if unat n > 63 \<or> length bs < unat n then None
     else map_option (\<lambda>(vs, rest). (take (unat n) bs # vs, rest)) (read_name (drop (unat n) bs)))"

lemma length_bytes_of [simp]: "length (bytes_of s) = length s"
  by (simp add: bytes_of_def)

lemma string_of_bytes_of [simp]: "string_of (bytes_of s) = s"
proof -
  have "char_of (unat (word_of_nat (of_char c) :: byte)) = c" for c
    by (simp add: unat_of_nat of_char_mod_256)
  then show ?thesis by (simp add: string_of_def bytes_of_def comp_def)
qed

lemma read_labels:
  "\<forall>v \<in> set vs. v \<noteq> [] \<and> length v \<le> 63 \<Longrightarrow>
    read_name (concat (map (\<lambda>v. word_of_nat (length v) # bytes_of v) vs) @ 0 # rest) = Some (map bytes_of vs, rest)"
proof (induction vs)
  case (Cons v vs)
  then have v: "v \<noteq> []" "length v \<le> 63" by simp_all
  have n: "unat (word_of_nat (length v) :: byte) = length v" using v(2) by (simp add: unat_of_nat)
  moreover have "(word_of_nat (length v) :: byte) \<noteq> 0"
    using n v(1) by (metis length_0_conv unat_0)
  ultimately show ?case using Cons v by simp
qed simp

text \<open>
  The name of a request is read back by the reader of the standard when the domain has no empty
  label and none of more than 63 bytes.
\<close>

lemma length_dnsHeader [simp]: "length (write_dnsHeader h) = 12"
  by (simp add: write_dnsHeader_def)

lemma domain_name_read_back:
  assumes "\<forall>v \<in> set (split_dots domain). v \<noteq> [] \<and> length v \<le> 63"
  shows "read_name (drop 12 (dns_request domain)) = Some (map bytes_of (split_dots domain), be16 16 @ be16 1)"
proof -
  have "drop 12 (dns_request domain) =
      concat (map (\<lambda>v. word_of_nat (length v) # bytes_of v) (split_dots domain)) @ 0 # (be16 16 @ be16 1)"
    by (simp add: dns_request_def Let_def write_dnsQuery_def parseDomainName_def)
  then show ?thesis by (simp only: read_labels [OF assms])
qed

section \<open>An answer survives\<close>

text \<open>What the other side makes of a text: padded, encrypted and written in base64.\<close>

definition pKCS5Padding :: "bytes \<Rightarrow> bytes" where
  "pKCS5Padding t = (let padding = BlockSize - length t mod BlockSize in t @ replicate padding (word_of_nat padding))"

definition encrypted_text :: "bytes \<Rightarrow> bytes \<Rightarrow> bytes option" where
  "encrypted_text secret t = do {
    block \<leftarrow> aes_NewCipher secret;
    c \<leftarrow> CBCEncrypter block (take BlockSize secret) (pKCS5Padding t);
    Some (bytes_of (base64_EncodeToString c))
  }"

lemma unpadded: "pKCS5UnPadding (pKCS5Padding t) = Some t" "length (pKCS5Padding t) mod BlockSize = 0"
proof -
  define n where "n = BlockSize - length t mod BlockSize"
  have n: "0 < n" "n \<le> 16" by (simp_all add: n_def BlockSize_def)
  then have "unat (last (t @ replicate n (word_of_nat n :: byte))) = n" by (simp add: unat_of_nat)
  with n(1) show "pKCS5UnPadding (pKCS5Padding t) = Some t"
    by (simp add: pKCS5UnPadding_def pKCS5Padding_def n_def [symmetric] Let_def)
  have "(length t + (16 - length t mod 16)) mod 16 = 0" by presburger
  then show "length (pKCS5Padding t) mod BlockSize = 0"
    by (simp add: pKCS5Padding_def Let_def BlockSize_def)
qed

lemma text_decrypts:
  assumes "length secret \<in> {16, 24, 32}"
  shows "\<exists>c. encrypted_text secret t = Some c \<and> aes_Decrypt_text c secret = Some (Inr t)"
proof -
  from assms obtain block where block: "aes_NewCipher secret = Some block" by (simp add: aes_NewCipher_def)
  obtain c where c: "CBCEncrypter block (take BlockSize secret) (pKCS5Padding t) = Some c"
    using unpadded(2) [of t] by (simp add: CBCEncrypter_def)
  have "length (take BlockSize secret) = 16" using assms by (auto simp: BlockSize_def)
  from CBC_inverse [OF block this c] have "CBCDecrypter block (take BlockSize secret) c = Some (pKCS5Padding t)" .
  with block c show ?thesis
    by (simp add: encrypted_text_def aes_Decrypt_text_def base64_round_trip unpadded(1))
qed

section \<open>Every order of the steps\<close>

text \<open>
  When every server answers \<open>c\<close>, which decrypts to \<open>t\<close>: what the variables hold, and how many
  answers are still to come. \<open>got\<close> is whether the select has taken an answer.
\<close>

fun lookup_pc_ok :: "bytes \<Rightarrow> bytes \<Rightarrow> bool \<Rightarrow> bytes \<Rightarrow> bool \<Rightarrow> domain_pc \<Rightarrow> bool" where
  "lookup_pc_ok c t got qtMsg err Asking = (\<not> got)"
| "lookup_pc_ok c t got qtMsg err Waiting = (\<not> got)"
| "lookup_pc_ok c t got qtMsg err Testing = True"
| "lookup_pc_ok c t got qtMsg err Decrypting = (qtMsg = c)"
| "lookup_pc_ok c t got qtMsg err (Checking v) = (v = t \<and> \<not> err)"
| "lookup_pc_ok c t got qtMsg err (Returned r) = (r = string_of t \<or> r = [] \<and> \<not> got)"
| "lookup_pc_ok c t got qtMsg err Panicked = False"

definition lookup_inv :: "string list \<Rightarrow> bytes \<Rightarrow> bytes \<Rightarrow> bool \<Rightarrow> domain_run \<Rightarrow> bool" where
  "lookup_inv servers c t got s \<longleftrightarrow>
    set (dr_servers s) \<subseteq> set servers \<and> set (dr_asking s) \<subseteq> set servers \<and>
    (0 < dr_started s \<longrightarrow> dr_v s \<in> set servers) \<and> set (dr_done s) \<subseteq> {Inr c} \<and>
    set (chan_buf (dr_chan s)) \<subseteq> {c} \<and> (dr_qtMsg s = c \<or> dr_qtMsg s = [] \<and> \<not> got) \<and>
    chan_cap (dr_chan s) = 3 \<and>
    length (dr_servers s) + dr_started s + length (dr_asking s) + length (chan_buf (dr_chan s)) +
      (if got then 1 else 0) \<le> 4 \<and>
    lookup_pc_ok c t got (dr_qtMsg s) (dr_err s) (dr_pc s)"

lemma lookup_pc_assign: "lookup_pc_ok c t got q e pc \<Longrightarrow> lookup_pc_ok c t got c False pc"
  by (cases pc) auto

lemma without_subset: "set (without i xs) \<subseteq> set xs"
  by (auto simp: without_def dest: in_set_takeD in_set_dropD)

lemma length_without: "i < length xs \<Longrightarrow> Suc (length (without i xs)) = length xs"
  by (simp add: without_def)

lemma lookup_inv_start: "lookup_inv (dns_servers isAbroad) c t False (GetDomain_start isAbroad)"
  by (simp add: lookup_inv_def GetDomain_start_def make_chan_def dns_servers_def)

lemma lookup_inv_request:
  assumes inv: "lookup_inv servers c t got s" and run: "request_step E domain ev s = Some s'"
    and answers: "\<forall>v \<in> set servers. dns_exchange E v domain = Inr c"
  shows "lookup_inv servers c t got s'"
proof (cases ev)
  case Launch
  with run have "0 < dr_started s"
    "s' = s\<lparr>dr_started := dr_started s - 1, dr_asking := dr_asking s @ [dr_v s]\<rparr>" by (auto split: if_splits)
  with inv show ?thesis by (simp add: lookup_inv_def)
next
  case (Request i)
  with run have i: "i < length (dr_asking s)" by (auto split: if_splits)
  then have "dr_asking s ! i \<in> set servers" using inv nth_mem [OF i] unfolding lookup_inv_def by blast
  with answers have "dns_exchange E (dr_asking s ! i) domain = Inr c" by blast
  then obtain ch where ch: "chan_send (dr_chan s) c = Some ch"
    and s': "s' = s\<lparr>dr_asking := without i (dr_asking s), dr_chan := ch, dr_done := dr_done s @ [Inr c]\<rparr>"
    using run Request i by (auto simp: SendDNSReq_def)
  from ch have "chan_cap ch = chan_cap (dr_chan s)" "chan_buf ch = chan_buf (dr_chan s) @ [c]"
    by (auto simp: chan_send_def split: if_splits)
  moreover have "set (without i (dr_asking s)) \<subseteq> set servers"
    using inv without_subset [of i "dr_asking s"] unfolding lookup_inv_def by blast
  ultimately show ?thesis
    using inv length_without [OF i] by (simp add: lookup_inv_def s')
next
  case (Assign i)
  with run have i: "i < length (dr_done s)" by (auto split: if_splits)
  then have "dr_done s ! i \<in> set (dr_done s)" by simp
  moreover have sub: "set (dr_done s) \<subseteq> {Inr c}" using inv by (simp add: lookup_inv_def)
  ultimately have "dr_done s ! i = Inr c" by blast
  then have "s' = s\<lparr>dr_done := without i (dr_done s), dr_qtMsg := c, dr_err := False\<rparr>"
    using run Assign i by (simp add: Let_def)
  moreover have "set (without i (dr_done s)) \<subseteq> {Inr c}" using sub without_subset by (rule subset_trans [rotated])
  ultimately show ?thesis
    using inv lookup_pc_assign [of c t got "dr_qtMsg s" "dr_err s" "dr_pc s"] by (simp add: lookup_inv_def)
qed

lemma lookup_inv_step:
  assumes inv: "lookup_inv (dns_servers isAbroad) c t got s" and run: "GetDomain E domain secret ev s = Some s'"
    and answers: "\<forall>v \<in> set (dns_servers isAbroad). dns_exchange E v domain = Inr c"
    and plain: "aes_Decrypt_text c (domain_secret secret) = Some (Inr t)" and c: "c \<noteq> []"
  shows "lookup_inv (dns_servers isAbroad) c t (ev = Answer \<or> got) s'"
proof (cases ev)
  case Loop
  with run inv show ?thesis by (auto simp: lookup_inv_def split: if_splits list.splits)
next
  case Answer
  with run obtain b ch where b: "chan_recv (dr_chan s) = Some (b, ch)" "dr_pc s = Waiting"
    "s' = s\<lparr>dr_chan := ch, dr_qtMsg := b, dr_pc := Testing\<rparr>" by (auto split: if_splits)
  then have buf: "chan_buf (dr_chan s) = b # chan_buf ch" "chan_cap ch = chan_cap (dr_chan s)"
    by (auto simp: chan_recv_def split: list.splits)
  then show ?thesis using inv Answer b(2) by (simp add: lookup_inv_def b(3))
next
  case Timeout
  with run inv show ?thesis by (auto simp: lookup_inv_def split: if_splits)
next
  case Test
  with run inv c show ?thesis by (auto simp: lookup_inv_def split: if_splits)
next
  case Decrypt
  with run inv plain have "dr_pc s = Decrypting" "dr_qtMsg s = c" by (auto simp: lookup_inv_def split: if_splits)
  with run inv plain Decrypt show ?thesis by (auto simp: lookup_inv_def)
next
  case Conclude
  with run obtain v where "dr_pc s = Checking v" "s' = s\<lparr>dr_pc := Returned (if dr_err s then [] else string_of v)\<rparr>"
    by (auto split: domain_pc.splits)
  with inv Conclude show ?thesis by (simp add: lookup_inv_def)
next
  case (Of_request r)
  with run lookup_inv_request [OF inv _ answers] show ?thesis by (auto split: if_splits)
qed

lemma lookup_inv_events:
  assumes "\<forall>v \<in> set (dns_servers isAbroad). dns_exchange E v domain = Inr c"
    "aes_Decrypt_text c (domain_secret secret) = Some (Inr t)" "c \<noteq> []"
  shows "lookup_inv (dns_servers isAbroad) c t got s \<Longrightarrow> domain_events E domain secret evs s = Some s' \<Longrightarrow>
    lookup_inv (dns_servers isAbroad) c t (Answer \<in> set evs \<or> got) s'"
proof (induction evs arbitrary: s got)
  case (Cons ev evs)
  obtain s1 where s1: "GetDomain E domain secret ev s = Some s1" "domain_events E domain secret evs s1 = Some s'"
    using Cons.prems(2) by (auto split: Option.bind_splits)
  from Cons.IH [OF lookup_inv_step [OF Cons.prems(1) s1(1) assms] s1(2)] show ?case by (simp add: disj_ac eq_commute)
qed simp

lemma empty_text_panics: "length secret \<in> {16, 24, 32} \<Longrightarrow> aes_Decrypt_text [] secret = None"
  by (simp add: aes_Decrypt_text_def aes_NewCipher_def string_of_def base64_DecodeString_def CBCDecrypter_def
      pKCS5UnPadding_def)

section \<open>Properties\<close>

text \<open>
  C14: the lookup resolves the domain when the servers answer: with every server answering the
  encrypted text, in whatever order the requests, their assignments and the select come, the
  lookup never panics, it returns the text or, only when the select timed out before any answer,
  the empty string, and once an answer was taken no request is left waiting for the channel.
\<close>

theorem honest_answers_resolve:
  assumes "length (domain_secret secret) \<in> {16, 24, 32}" "encrypted_text (domain_secret secret) t = Some c"
    "\<forall>v \<in> set (dns_servers isAbroad). dns_exchange E v domain = Inr c"
    "domain_events E domain secret evs (GetDomain_start isAbroad) = Some s"
  shows "dr_pc s \<noteq> Panicked \<and>
    (\<forall>r. dr_pc s = Returned r \<longrightarrow> r = string_of t \<or> r = [] \<and> Answer \<notin> set evs) \<and>
    (Answer \<in> set evs \<longrightarrow> (\<forall>i < length (dr_asking s). GetDomain E domain secret (Of_request (Request i)) s \<noteq> None))"
proof -
  have plain: "aes_Decrypt_text c (domain_secret secret) = Some (Inr t)"
    using text_decrypts [OF assms(1), of t] assms(2) by auto
  then have "c \<noteq> []" using empty_text_panics [OF assms(1)] by auto
  from lookup_inv_events [where got = False, OF assms(3) plain this lookup_inv_start assms(4)]
  have inv: "lookup_inv (dns_servers isAbroad) c t (Answer \<in> set evs) s" by simp
  then have pc: "lookup_pc_ok c t (Answer \<in> set evs) (dr_qtMsg s) (dr_err s) (dr_pc s)"
    by (simp add: lookup_inv_def)
  have "GetDomain E domain secret (Of_request (Request i)) s \<noteq> None"
    if "Answer \<in> set evs" "i < length (dr_asking s)" for i
  proof -
    have "dr_asking s ! i \<in> set (dns_servers isAbroad)"
      using inv nth_mem [OF that(2)] unfolding lookup_inv_def by blast
    then have "dns_exchange E (dr_asking s ! i) domain = Inr c" using assms(3) by blast
    moreover have "length (chan_buf (dr_chan s)) < chan_cap (dr_chan s)"
      using inv that by (simp add: lookup_inv_def)
    ultimately show ?thesis using that(2) pc by (auto simp: SendDNSReq_def chan_send_def)
  qed
  with pc show ?thesis by auto
qed

text \<open>The events of a lookup in which the request to the first server is answered at once.\<close>

definition first_answer :: "string \<Rightarrow> domain_event list" where
  "first_answer isAbroad = [Loop, Of_request Launch, Of_request (Request 0)] @
    replicate (length (dns_servers isAbroad)) Loop @ [Answer, Test, Decrypt]"

lemma first_answer_run:
  assumes "dns_exchange E (dns_servers isAbroad ! 0) domain = Inr c" "c \<noteq> []"
  shows "\<exists>s. domain_events E domain secret (first_answer isAbroad) (GetDomain_start isAbroad) = Some s \<and>
    (aes_Decrypt_text c (domain_secret secret) = None \<longrightarrow> dr_pc s = Panicked) \<and>
    (\<forall>t. aes_Decrypt_text c (domain_secret secret) = Some (Inr t) \<longrightarrow> dr_pc s = Checking t \<and> \<not> dr_err s)"
  using assms
  by (simp add: first_answer_def dns_servers_def GetDomain_start_def make_chan_def SendDNSReq_def chan_send_def
      chan_recv_def without_def split: option.split sum.split if_splits)

text \<open>
  C34: one datagram ends the program. An answer whose text is base64 of anything but whole
  blocks passes every test of \<^verbatim>\<open>SendDNSReq\<close>, the decryption panics on it, and nothing
  recovers the panic of \<^verbatim>\<open>GetDomain\<close>. The answers are not authenticated, so anyone who can
  reach the port of a request can send it.
\<close>

theorem forged_answer_ends_program:
  assumes "dns_dial E (dns_servers isAbroad ! 0)" "dns_write E (dns_servers isAbroad ! 0) (dns_request domain)"
    "dns_read E (dns_servers isAbroad ! 0) (dns_request domain) = Some (front @ bytes_of (base64_EncodeToString x))"
    "length front = length (dns_request domain) + 13" "length x mod BlockSize \<noteq> 0"
    "length (domain_secret secret) \<in> {16, 24, 32}"
  shows "\<exists>evs s. domain_events E domain secret evs (GetDomain_start isAbroad) = Some s \<and> dr_pc s = Panicked"
proof -
  let ?c = "bytes_of (base64_EncodeToString x)"
  have "base64_EncodeToString x \<noteq> []" using assms(5) by (cases x rule: base64_EncodeToString.cases) (auto simp: Let_def)
  then have c: "?c \<noteq> []" by (simp add: bytes_of_def)
  then have "dns_exchange E (dns_servers isAbroad ! 0) domain = Inr ?c"
    using assms(1-4) by (cases ?c) (simp_all add: dns_exchange_def Let_def)
  moreover have "aes_Decrypt_text ?c (domain_secret secret) = None"
    using assms(5,6) by (simp add: aes_Decrypt_text_def aes_NewCipher_def base64_round_trip CBCDecrypter_def)
  ultimately show ?thesis using first_answer_run [of E isAbroad domain ?c secret, OF _ c] by blast
qed

text \<open>
  A request that fails can end the program although another was answered. Its error
  assigns a nil message to the variable \<^verbatim>\<open>GetDomain\<close> has just tested, and the decryption of
  the empty text panics: without a lock, this order of steps is possible.
\<close>

theorem failed_request_ends_program:
  assumes "isAbroad \<noteq> ''1''" "dns_exchange E (dns_servers isAbroad ! 0) domain = Inr c" "c \<noteq> []"
    "dns_exchange E (dns_servers isAbroad ! 1) domain = Inl e" "length (domain_secret secret) \<in> {16, 24, 32}"
  shows "\<exists>s. domain_events E domain secret
      ([Loop, Of_request Launch, Of_request (Request 0), Loop, Of_request Launch, Of_request (Request 0),
        Loop, Loop, Loop, Answer, Test] @ [Of_request (Assign 1), Decrypt]) (GetDomain_start isAbroad) = Some s \<and>
    dr_pc s = Panicked"
  using assms(1-4) empty_text_panics [OF assms(5)]
  by (simp add: dns_servers_def GetDomain_start_def make_chan_def SendDNSReq_def chan_send_def
      chan_recv_def without_def Let_def)

section \<open>Witnesses\<close>

text \<open>The first server answers \<open>c\<close> after an empty answer section, the others what \<open>others\<close> says.\<close>

definition answering :: "bytes \<Rightarrow> bytes option \<Rightarrow> dnsenv" where
  "answering c others = \<lparr>dns_dial = (\<lambda>_. True), dns_write = (\<lambda>_ _. True),
    dns_read = (\<lambda>server msg. map_option ((@) (replicate (length msg + 13) 0))
      (if server = dns_servers [] ! 0 then Some c else others))\<rparr>"

lemma answering_exchange:
  assumes "c \<noteq> []"
  shows "dns_exchange (answering c others) (dns_servers [] ! 0) domain = Inr c"
    "dns_exchange (answering c (Some c)) v domain = Inr c"
    "v \<noteq> dns_servers [] ! 0 \<Longrightarrow> dns_exchange (answering c None) v domain = Inl Read_failed"
  using assms by (cases c; simp add: dns_exchange_def answering_def Let_def)+

lemma default_secret: "length (domain_secret []) = 16"
  by (simp add: domain_secret_def)

theorem honest_answers_resolve_witness:
  "\<exists>c s. encrypted_text (domain_secret []) (bytes_of ''10.0.0.1:6666'') = Some c \<and>
    domain_events (answering c (Some c)) ''a.b'' [] (first_answer [] @ [Conclude]) (GetDomain_start []) = Some s \<and>
    dr_pc s = Returned ''10.0.0.1:6666'' \<and> dr_pc s \<noteq> Panicked"
proof -
  have key: "length (domain_secret []) \<in> {16, 24, 32}" by (simp add: default_secret)
  obtain c where c: "encrypted_text (domain_secret []) (bytes_of ''10.0.0.1:6666'') = Some c"
    "aes_Decrypt_text c (domain_secret []) = Some (Inr (bytes_of ''10.0.0.1:6666''))"
    using text_decrypts [OF key] by blast
  then have ne: "c \<noteq> []" using empty_text_panics [OF key] by auto
  obtain s where s: "domain_events (answering c (Some c)) ''a.b'' [] (first_answer []) (GetDomain_start []) = Some s"
    "dr_pc s = Checking (bytes_of ''10.0.0.1:6666'')" "\<not> dr_err s"
    using first_answer_run [OF answering_exchange(1) [OF ne] ne, of "Some c" "''a.b''" "[]"] c(2) by blast
  let ?s = "s\<lparr>dr_pc := Returned ''10.0.0.1:6666''\<rparr>"
  have "GetDomain (answering c (Some c)) ''a.b'' [] Conclude s = Some ?s" using s(2,3) by simp
  then have run: "domain_events (answering c (Some c)) ''a.b'' [] (first_answer [] @ [Conclude]) (GetDomain_start []) = Some ?s"
    using s(1) by (simp only: domain_events_append) simp
  from honest_answers_resolve [OF key c(1) _ run] answering_exchange(2) [OF ne]
  have "dr_pc ?s \<noteq> Panicked" by blast
  with c(1) run show ?thesis by (intro exI [of _ c] exI [of _ ?s]) simp
qed

theorem forged_answer_ends_program_witness:
  "\<exists>evs s. domain_events (answering (bytes_of (base64_EncodeToString [1, 2, 3])) None) ''a.b'' [] evs
      (GetDomain_start []) = Some s \<and> dr_pc s = Panicked"
  by (rule forged_answer_ends_program [where x = "[1, 2, 3]" and front = "replicate (length (dns_request ''a.b'') + 13) 0"])
    (simp_all add: answering_def default_secret BlockSize_def)

theorem failed_request_ends_program_witness:
  "\<exists>s. domain_events (answering [65] None) ''a.b'' []
      ([Loop, Of_request Launch, Of_request (Request 0), Loop, Of_request Launch, Of_request (Request 0),
        Loop, Loop, Loop, Answer, Test] @ [Of_request (Assign 1), Decrypt]) (GetDomain_start []) = Some s \<and>
    dr_pc s = Panicked"
  by (rule failed_request_ends_program [OF _ answering_exchange(1) _ answering_exchange(3)])
    (simp_all add: dns_servers_def default_secret)

end
