(* ===== verification/Log.thy ===== *)
theory Log
  imports Main
begin

text \<open>
  The log of \<^verbatim>\<open>logger/logger.go\<close>: one file that the package variable \<^verbatim>\<open>Wlog\<close> leads to and every
  routine writes lines to. Each method holds the lock of the logger from its first write to its
  return and is one step.
\<close>

section \<open>The logger\<close>

text \<open>
  The open file by its path, and the text of every file. \<open>opens\<close> is what the system answers to
  the attempt to open a path for writing; the time of a line is given as its text.
\<close>

record Wlogger =
  wl_path :: string
  wl_closed :: bool

record log_state =
  lg_Wlog :: "Wlogger option"
  lg_text :: "string \<Rightarrow> string"

definition log_path :: "string \<Rightarrow> string" where
  "log_path path = (if path = [] then ''./diary/info_diary.log'' else path)"

definition LogDiaryInit :: "(string \<Rightarrow> bool) \<Rightarrow> log_state \<Rightarrow> string \<Rightarrow> log_state \<times> bool" where
  "LogDiaryInit opens L path =
    (let path = log_path path
     in if \<not> opens path then (L, False)
        else (L\<lparr>lg_text := (lg_text L)(path := []), lg_Wlog := Some \<lparr>wl_path = path, wl_closed = False\<rparr>\<rparr>, True))"

text \<open>A write to a closed file fails, and no method looks at that.\<close>

definition WriteString :: "Wlogger \<Rightarrow> string \<Rightarrow> log_state \<Rightarrow> log_state" where
  "WriteString w s L =
    (if wl_closed w then L else L\<lparr>lg_text := (lg_text L)(wl_path w := lg_text L (wl_path w) @ s)\<rparr>)"

definition SaveInfoLog :: "string \<Rightarrow> string \<Rightarrow> log_state \<Rightarrow> log_state" where
  "SaveInfoLog now msg L =
    (case lg_Wlog L of None \<Rightarrow> L | Some w \<Rightarrow> WriteString w (now @ '' [I] '' @ msg @ [CHR 0x0A]) L)"

definition SaveDebugLog :: "string \<Rightarrow> string \<Rightarrow> log_state \<Rightarrow> log_state" where
  "SaveDebugLog now msg L =
    (case lg_Wlog L of None \<Rightarrow> L | Some w \<Rightarrow> WriteString w (now @ '' [I] '' @ msg @ [CHR 0x0A]) L)"

definition SaveErrLog :: "string \<Rightarrow> string \<Rightarrow> log_state \<Rightarrow> log_state" where
  "SaveErrLog now msg L =
    (case lg_Wlog L of None \<Rightarrow> L | Some w \<Rightarrow> WriteString w (now @ '' [I] '' @ msg @ [CHR 0x0A]) L)"

text \<open>
  The method sets its receiver to nil, not the variable: the logger stays, on a closed file.
  Without a logger the lock of a nil receiver panics.
\<close>

definition log_Close :: "log_state \<Rightarrow> log_state option" where
  "log_Close L = map_option (\<lambda>w. L\<lparr>lg_Wlog := Some (w\<lparr>wl_closed := True\<rparr>)\<rparr>) (lg_Wlog L)"

section \<open>A log as the program writes it\<close>

datatype log_level = Info | Debug | Err

fun save :: "log_level \<times> string \<times> string \<Rightarrow> log_state \<Rightarrow> log_state" where
  "save (Info, now, msg) L = SaveInfoLog now msg L"
| "save (Debug, now, msg) L = SaveDebugLog now msg L"
| "save (Err, now, msg) L = SaveErrLog now msg L"

definition log_line :: "log_level \<times> string \<times> string \<Rightarrow> string" where
  "log_line m = fst (snd m) @ '' [I] '' @ snd (snd m) @ [CHR 0x0A]"

lemma save_eq:
  "save m L = (case lg_Wlog L of None \<Rightarrow> L | Some w \<Rightarrow> WriteString w (log_line m) L)"
proof (cases m)
  case (fields l now msg)
  then show ?thesis
    by (cases l) (simp_all add: SaveInfoLog_def SaveDebugLog_def SaveErrLog_def log_line_def split: option.split)
qed

lemma save_open:
  assumes "lg_Wlog L = Some w" "\<not> wl_closed w"
  shows "lg_Wlog (fold save ms L) = Some w"
    "lg_text (fold save ms L) = (lg_text L)(wl_path w := lg_text L (wl_path w) @ concat (map log_line ms))"
  using assms by (induction ms arbitrary: L) (simp_all add: save_eq WriteString_def)

lemma save_shut:
  assumes "lg_Wlog L = None \<or> (\<exists>w. lg_Wlog L = Some w \<and> wl_closed w)"
  shows "fold save ms L = L"
proof -
  have "save m L = L" for m using assms by (auto simp: save_eq WriteString_def)
  then show ?thesis by (induction ms) simp_all
qed

text \<open>
  From the opening of the log to its close the file holds exactly the lines that were saved, in
  order, whatever it held before; what is saved before or after is lost, and no line tells which
  method saved it. The close leaves a logger behind.
\<close>

theorem log_holds_lines_in_order:
  assumes "opens (log_path path)" "lg_Wlog L = None"
  shows "\<exists>L1 L2. LogDiaryInit opens (fold save before L) path = (L1, True) \<and>
    log_Close (fold save ms L1) = Some L2 \<and> lg_Wlog L2 \<noteq> None \<and>
    lg_text (fold save after L2) (log_path path) = concat (map log_line ms)"
proof -
  define w where "w = \<lparr>wl_path = log_path path, wl_closed = False\<rparr>"
  define L1 where "L1 = L\<lparr>lg_text := (lg_text L)(log_path path := []), lg_Wlog := Some w\<rparr>"
  have "LogDiaryInit opens (fold save before L) path = (L1, True)"
    using assms save_shut [of L before] by (simp add: LogDiaryInit_def L1_def w_def Let_def)
  moreover have "lg_Wlog L1 = Some w" "\<not> wl_closed w" by (simp_all add: L1_def w_def)
  note written = save_open [OF this, of ms]
  define L2 where "L2 = (fold save ms L1)\<lparr>lg_Wlog := Some (w\<lparr>wl_closed := True\<rparr>)\<rparr>"
  have "log_Close (fold save ms L1) = Some L2" by (simp add: log_Close_def written(1) L2_def)
  moreover have "fold save after L2 = L2" by (rule save_shut) (simp add: L2_def)
  moreover have "lg_text L2 (log_path path) = concat (map log_line ms)"
    by (simp add: L2_def written(2)) (simp add: L1_def w_def)
  ultimately show ?thesis by (auto simp: L2_def)
qed

theorem log_holds_lines_in_order_witness:
  "\<exists>L1 L2. LogDiaryInit (\<lambda>_. True) \<lparr>lg_Wlog = None, lg_text = (\<lambda>_. ''old'')\<rparr> [] = (L1, True) \<and>
    log_Close (fold save [(Info, ''noon'', ''init finish''), (Err, ''one'', ''lost'')] L1) = Some L2 \<and>
    lg_text L2 ''./diary/info_diary.log'' =
      ''noon [I] init finish'' @ [CHR 0x0A] @ ''one [I] lost'' @ [CHR 0x0A]"
  using log_holds_lines_in_order [of "\<lambda>_. True" "[]" "\<lparr>lg_Wlog = None, lg_text = (\<lambda>_. ''old'')\<rparr>" "[]"
      "[(Info, ''noon'', ''init finish''), (Err, ''one'', ''lost'')]" "[]"]
  by (simp add: log_line_def log_path_def) fastforce

end
