(* ===== verification/Application.thy ===== *)
theory Application
  imports Initiator Log "HOL-Library.Multiset"
begin

text \<open>
  The application around the device: the exported functions \<^verbatim>\<open>Init\<close>, \<^verbatim>\<open>Start\<close> and the
  status routine of \<^verbatim>\<open>main.go\<close>, the reports of \<^verbatim>\<open>controller/init.go\<close>, the start of the
  routines in \<^verbatim>\<open>controller/device.go\<close>, the routine that listens on a new socket in
  \<^verbatim>\<open>controller/receive.go\<close> and the network monitor of \<^verbatim>\<open>controller/monitor_wifi.go\<close>.
\<close>

section \<open>The package variables and Init\<close>

record configData =
  cd_OwnPrivate :: string
  cd_OwnPublic :: string
  cd_TheirPublic :: string
  cd_Endpoint :: string
  cd_AllowIp :: string
  cd_LogPath :: string
  cd_IsIOS :: string
  cd_Ts :: u32
  cd_Sign :: string
  cd_Netmask :: u32
  cd_IntervalTime :: int
  cd_IsCallbackIp :: int

record app =
  ap_device :: "Device option"
  ap_IsiOS :: bool
  ap_Ts :: u32
  ap_Sign :: string
  ap_AllowIp :: string
  ap_Netmask :: u32
  ap_Endpoint :: string
  ap_IntervalTime :: int

definition initial_app :: app where
  "initial_app = \<lparr>ap_device = None, ap_IsiOS = False, ap_Ts = 0, ap_Sign = [], ap_AllowIp = [], ap_Netmask = 0,
    ap_Endpoint = [], ap_IntervalTime = 50\<rparr>"

datatype init_result = Init_done | Bad_fd int | Bad_json | Bad_log | Bad_config uapi_error

definition config_of :: "configData \<Rightarrow> config" where
  "config_of v = \<lparr>cf_OwnPrivate = cd_OwnPrivate v, cf_OwnPublic = cd_OwnPublic v,
    cf_TheirPublic = cd_TheirPublic v, cf_Endpoint = cd_Endpoint v\<rparr>"

text \<open>
  \<open>values\<close> is what \<^verbatim>\<open>json.Unmarshal\<close> makes of the text, None its error; \<open>log_opens\<close> whether the
  log file can be opened for writing; what \<^verbatim>\<open>LogDiaryInit\<close> makes of an empty path comes first. \<^verbatim>\<open>CreateTUN\<close> never fails. The device is stored before it is
  configured; the configuration returns it changed also where it ends in an error.
\<close>

definition Init ::
  "crypto \<Rightarrow> netenv \<Rightarrow> (string \<Rightarrow> bool) \<Rightarrow> app \<Rightarrow> int \<Rightarrow> configData option \<Rightarrow> time \<Rightarrow> (app \<times> init_result) option" where
  "Init C N log_opens a fd values now =
    (if fd \<le> 0 then Some (a, Bad_fd fd)
     else case values of
       None \<Rightarrow> Some (a, Bad_json)
     | Some v \<Rightarrow>
         if \<not> log_opens (log_path (cd_LogPath v)) then Some (a, Bad_log)
         else
           let a = (if cd_IsIOS v = ''1'' then a\<lparr>ap_IsiOS := True\<rparr> else a);
               a = a\<lparr>ap_Ts := cd_Ts v, ap_Sign := cd_Sign v, ap_AllowIp := cd_AllowIp v,
                 ap_Netmask := cd_Netmask v, ap_Endpoint := cd_Endpoint v\<rparr>;
               a = (if cd_IntervalTime v > 0 then a\<lparr>ap_IntervalTime := cd_IntervalTime v\<rparr> else a)
           in case Init_device C N (config_of v) now of
                None \<Rightarrow> None
              | Some (D, Some e) \<Rightarrow> Some (a\<lparr>ap_device := Some D\<rparr>, Bad_config e)
              | Some (D, None) \<Rightarrow> Some (a\<lparr>ap_device := Some D\<rparr>, Init_done))"

text \<open>The fields of an initiation are filled from these variables.\<close>

definition globals_of :: "app \<Rightarrow> globals" where
  "globals_of a = \<lparr>gl_Ts = ap_Ts a, gl_Sign = ap_Sign a, gl_AllowIp = Option.bind (ParseIP (ap_AllowIp a)) To4,
    gl_Netmask = ap_Netmask a\<rparr>"

section \<open>The routines of a connection\<close>

datatype routine = R_checkIntervalTime | R_monitorWifi | R_Nonce | R_TimerHandler | R_HandshakeInitiator
  | R_SequentialSender | R_SequentialReceiver | R_taskGC | R_Encryption | R_Decryption | R_Handshake
  | R_GarbageCollector | R_ReadFromTUN | R_ReceiveIncomming

text \<open>
  \<^verbatim>\<open>StartConnection\<close>: the routines it starts and the time it sets. Without a peer the send of
  the signal dereferences nil, half a second after the first routines were started.
\<close>

definition StartConnection :: "Device \<Rightarrow> time \<Rightarrow> (Device \<times> int \<times> routine list) option" where
  "StartConnection D now =
    (case dv_peers D of
      None \<Rightarrow> None
    | Some p \<Rightarrow>
        Some (upd_signal D p (\<lambda>s. s\<lparr>sg_handshakeReset := signalSend (sg_handshakeReset s)\<rparr>), now div second,
          [R_checkIntervalTime, R_monitorWifi, R_Nonce, R_TimerHandler, R_HandshakeInitiator, R_SequentialSender,
           R_SequentialReceiver, R_taskGC, R_Encryption, R_Decryption, R_Handshake, R_GarbageCollector,
           R_ReadFromTUN, R_ReceiveIncomming]))"

text \<open>
  One turn of \<^verbatim>\<open>RoutineReceiveIncomming\<close>: it ends, waits on, or hands the socket to a new
  \<^verbatim>\<open>handleUDP\<close>.
\<close>

datatype incoming = Incoming_stopped | Incoming_continue | Incoming_listen UDPAddr

definition RoutineReceiveIncomming :: "Device \<Rightarrow> bool \<Rightarrow> (Device \<times> incoming) option" where
  "RoutineReceiveIncomming D take_stop =
    (if take_stop then (if dv_stopped D then Some (D, Incoming_stopped) else None)
     else case chan_recv (dv_newUDPConn D) of
       None \<Rightarrow> None
     | Some (_, c) \<Rightarrow>
         let D = D\<lparr>dv_newUDPConn := c\<rparr>
         in case dv_conn D of
              None \<Rightarrow> Some (D, Incoming_continue)
            | Some conn \<Rightarrow> Some (D, Incoming_listen conn))"

text \<open>
  A tick of the network monitor, which only runs on iOS. \<open>local\<close> is the text of the address a socket has on this
  side, \<open>interfaces\<close> the names and addresses of the interfaces, None an error. The socket is
  dialled again for every address of the first wireless interface that starts with 192 and is
  not its own.
\<close>

definition has_prefix :: "string \<Rightarrow> string \<Rightarrow> bool" where
  "has_prefix s p \<longleftrightarrow> take (length p) s = p"

definition up_to :: "char \<Rightarrow> string \<Rightarrow> string" where
  "up_to c s = takeWhile (\<lambda>x. x \<noteq> c) s"

fun monitor_addresses ::
  "crypto \<Rightarrow> netenv \<Rightarrow> (Device \<Rightarrow> string) \<Rightarrow> string \<Rightarrow> time \<Rightarrow> string list \<Rightarrow> Device \<Rightarrow> Device option" where
  "monitor_addresses C N local endpoint now [] D = Some D"
| "monitor_addresses C N local endpoint now (v # vs) D =
    (if v \<noteq> [] \<and> has_prefix v ''192.''
     then if dv_conn D = None then None
          else if up_to (CHR ''/'') v \<noteq> up_to (CHR '':'') (local D)
          then Option.bind (changeNetwork C N D endpoint now) (monitor_addresses C N local endpoint now vs)
          else monitor_addresses C N local endpoint now vs D
     else monitor_addresses C N local endpoint now vs D)"

fun monitor_interfaces ::
  "crypto \<Rightarrow> netenv \<Rightarrow> (Device \<Rightarrow> string) \<Rightarrow> string \<Rightarrow> time \<Rightarrow> (string \<times> string list) list \<Rightarrow> Device \<Rightarrow> Device option" where
  "monitor_interfaces C N local endpoint now [] D = Some D"
| "monitor_interfaces C N local endpoint now ((name, addresses) # rest) D =
    Option.bind (if name = ''en0'' then monitor_addresses C N local endpoint now addresses D else Some D)
      (monitor_interfaces C N local endpoint now rest)"

definition monitorWifi_tick ::
  "crypto \<Rightarrow> netenv \<Rightarrow> bool \<Rightarrow> (Device \<Rightarrow> string) \<Rightarrow> string \<Rightarrow> time \<Rightarrow> (string \<times> string list) list option \<Rightarrow> Device \<Rightarrow>
    Device option" where
  "monitorWifi_tick C N ios local endpoint now interfaces D =
    (if \<not> ios then Some D
     else if dv_conn D = None then None
     else if has_prefix (local D) ''192.'' then Some D
     else case interfaces of
       None \<Rightarrow> Some D
     | Some ifs \<Rightarrow> monitor_interfaces C N local endpoint now ifs D)"

section \<open>Start\<close>

text \<open>
  The device as a panic of \<^verbatim>\<open>Device.Close\<close> leaves it, and whether it ran to its end: the peer is
  removed, and its timers are stopped one after the other up to the first that was not made.
  No code makes the last one, so the panic is always the one at the timers.
\<close>

fun stop_until :: "(timer option \<times> (timer \<Rightarrow> PeerTimers \<Rightarrow> PeerTimers)) list \<Rightarrow> PeerTimers \<Rightarrow> PeerTimers" where
  "stop_until [] ts = ts"
| "stop_until ((None, f) # rest) ts = ts"
| "stop_until ((Some t, f) # rest) ts = stop_until rest (f (snd (timer_Stop t)) ts)"

definition stopped_timers :: "PeerTimers \<Rightarrow> PeerTimers" where
  "stopped_timers ts = stop_until
    [(tm_keepalivePersistent ts, \<lambda>t ts. ts\<lparr>tm_keepalivePersistent := Some t\<rparr>),
     (tm_keepalivePassive ts, \<lambda>t ts. ts\<lparr>tm_keepalivePassive := Some t\<rparr>),
     (tm_zeroAllKeys ts, \<lambda>t ts. ts\<lparr>tm_zeroAllKeys := Some t\<rparr>),
     (tm_newHandshake ts, \<lambda>t ts. ts\<lparr>tm_newHandshake := Some t\<rparr>),
     (tm_handshakeDeadline ts, \<lambda>t ts. ts\<lparr>tm_handshakeDeadline := Some t\<rparr>)] ts"

definition Close_effect :: "Device \<Rightarrow> Device \<times> bool" where
  "Close_effect D =
    (case device_Close D of
      Some D' \<Rightarrow> (D', True)
    | None \<Rightarrow>
        let D' = D\<lparr>dv_routingTable := rt_RemovePeer (dv_routingTable D) (dv_peers D), dv_peers := None\<rparr>
        in case dv_peers D of
             None \<Rightarrow> (D', False)
           | Some p \<Rightarrow> (upd_timer D' p stopped_timers, False))"

datatype start_result = Bad_pipe int | Start_returned

text \<open>
  \<^verbatim>\<open>Start\<close> starts the connection, which has happened when its read returns, in the state \<open>run\<close>
  has made of the device,
  and closes the device; a panic of that is recovered and the result is the empty string all
  the same. None: the connection could not be started and the program ends.
\<close>

definition Start :: "app \<Rightarrow> int \<Rightarrow> time \<Rightarrow> (Device \<Rightarrow> Device) \<Rightarrow> (app \<times> start_result) option" where
  "Start a rfd now run =
    (if rfd < 0 then Some (a, Bad_pipe rfd)
     else do {
       D \<leftarrow> ap_device a;
       (D, _) \<leftarrow> StartConnection D now;
       Some (a\<lparr>ap_device := Some (fst (Close_effect (run D)))\<rparr>, Start_returned)
     })"

section \<open>The reports\<close>

text \<open>
  The reports of \<^verbatim>\<open>controller/init.go\<close>: the routines that wait to send one, the channel of ten
  places, and the calls the status routine made; a socket's descriptor is handed over without a
  buffer. \<open>ss_started\<close> records each report with the second it was started in.
\<close>

datatype callback = CallStatus int | CallFd int

record status_state =
  ss_IntervalTime :: int
  ss_IntervalStartTime :: int
  ss_firstConnSuccess :: bool
  ss_senders :: "int list"
  ss_StatusChan :: "int chan"
  ss_fds :: "int list"
  ss_calls :: "callback list"
  ss_clock :: int
  ss_started :: "(int \<times> int) list"

definition go_sendStatus :: "int \<Rightarrow> status_state \<Rightarrow> status_state" where
  "go_sendStatus n s = s\<lparr>ss_senders := ss_senders s @ [n], ss_started := ss_started s @ [(ss_clock s, n)]\<rparr>"

definition sendStatus :: "nat \<Rightarrow> status_state \<Rightarrow> status_state option" where
  "sendStatus i s =
    (if length (ss_senders s) \<le> i then None
     else map_option (\<lambda>c. s\<lparr>ss_senders := take i (ss_senders s) @ drop (Suc i) (ss_senders s), ss_StatusChan := c\<rparr>)
       (chan_send (ss_StatusChan s) (ss_senders s ! i)))"

definition checkIntervalTime :: "status_state \<Rightarrow> status_state" where
  "checkIntervalTime s =
    (if ss_clock s - ss_IntervalStartTime s > ss_IntervalTime s
     then go_sendStatus 101 (s\<lparr>ss_IntervalStartTime := ss_clock s\<rparr>) else s)"

definition datagram_seen :: "status_state \<Rightarrow> status_state" where
  "datagram_seen s =
    (let s = s\<lparr>ss_IntervalStartTime := ss_clock s\<rparr>
     in if \<not> ss_firstConnSuccess s then (go_sendStatus 1 s)\<lparr>ss_firstConnSuccess := True\<rparr> else s)"

definition status_call :: "status_state \<Rightarrow> status_state option" where
  "status_call s =
    map_option (\<lambda>(n, c). s\<lparr>ss_StatusChan := c, ss_calls := ss_calls s @ [CallStatus n]\<rparr>) (chan_recv (ss_StatusChan s))"

definition status_fd :: "nat \<Rightarrow> status_state \<Rightarrow> status_state option" where
  "status_fd i s =
    (if length (ss_fds s) \<le> i then None
     else Some (s\<lparr>ss_fds := take i (ss_fds s) @ drop (Suc i) (ss_fds s),
       ss_calls := ss_calls s @ [CallFd (ss_fds s ! i)]\<rparr>))"

definition status_start :: "int \<Rightarrow> int \<Rightarrow> status_state" where
  "status_start interval now = \<lparr>ss_IntervalTime = interval, ss_IntervalStartTime = now, ss_firstConnSuccess = False,
    ss_senders = [], ss_StatusChan = make_chan 10, ss_fds = [], ss_calls = [], ss_clock = now, ss_started = []\<rparr>"

text \<open>The end of \<^verbatim>\<open>RoutineReadFromTUN\<close> reports 101 as well; it is not a step of these runs.\<close>

datatype status_event = Clock int | Ticked | Datagram | Send_status nat | New_socket int | Status_report
  | Fd_report nat

fun status_step :: "status_event \<Rightarrow> status_state \<Rightarrow> status_state option" where
  "status_step (Clock t) s = (if ss_clock s \<le> t then Some (s\<lparr>ss_clock := t\<rparr>) else None)"
| "status_step Ticked s = Some (checkIntervalTime s)"
| "status_step Datagram s = Some (datagram_seen s)"
| "status_step (Send_status i) s = sendStatus i s"
| "status_step (New_socket fd) s = Some (s\<lparr>ss_fds := ss_fds s @ [fd]\<rparr>)"
| "status_step Status_report s = status_call s"
| "status_step (Fd_report i) s = status_fd i s"

fun status_run :: "status_event list \<Rightarrow> status_state \<Rightarrow> status_state option" where
  "status_run [] s = Some s"
| "status_run (ev # evs) s = Option.bind (status_step ev s) (status_run evs)"

text \<open>
  The reports of the amounts of data: a send on a channel that was not made waits for ever.
  Nothing counts the data, makes the channels or calls these functions.
\<close>

record flow_state =
  fl_UploadFlowNum :: int
  fl_DownloadFlowNum :: int
  fl_UploadFlowChan :: "int chan option"
  fl_DownloadFlowChan :: "int chan option"

definition initial_flows :: flow_state where
  "initial_flows = \<lparr>fl_UploadFlowNum = 0, fl_DownloadFlowNum = 0, fl_UploadFlowChan = None, fl_DownloadFlowChan = None\<rparr>"

definition sendUploadFlow :: "flow_state \<Rightarrow> flow_state option" where
  "sendUploadFlow f =
    (if fl_UploadFlowNum f > 0 then
       (case fl_UploadFlowChan f of
         None \<Rightarrow> None
       | Some c \<Rightarrow> map_option (\<lambda>c. f\<lparr>fl_UploadFlowChan := Some c, fl_UploadFlowNum := 0\<rparr>)
           (chan_send c (fl_UploadFlowNum f)))
     else Some f)"

definition sendDownloadFlow :: "flow_state \<Rightarrow> flow_state option" where
  "sendDownloadFlow f =
    (if fl_DownloadFlowNum f > 0 then
       (case fl_DownloadFlowChan f of
         None \<Rightarrow> None
       | Some c \<Rightarrow> map_option (\<lambda>c. f\<lparr>fl_DownloadFlowChan := Some c, fl_DownloadFlowNum := 0\<rparr>)
           (chan_send c (fl_DownloadFlowNum f)))
     else Some f)"

lemma uncounted_flows_stay: "sendUploadFlow initial_flows = Some initial_flows" "sendDownloadFlow initial_flows = Some initial_flows"
  by (simp_all add: sendUploadFlow_def sendDownloadFlow_def initial_flows_def)

lemma counted_flows_wait: "0 < n \<Longrightarrow> sendUploadFlow (initial_flows\<lparr>fl_UploadFlowNum := n\<rparr>) = None"
  "0 < n \<Longrightarrow> sendDownloadFlow (initial_flows\<lparr>fl_DownloadFlowNum := n\<rparr>) = None"
  by (simp_all add: sendUploadFlow_def sendDownloadFlow_def initial_flows_def)

section \<open>What is reported\<close>

definition status_calls :: "callback list \<Rightarrow> int list" where
  "status_calls cs = concat (map (\<lambda>c. case c of CallStatus n \<Rightarrow> [n] | CallFd _ \<Rightarrow> []) cs)"

definition status_inv :: "int \<Rightarrow> status_state \<Rightarrow> bool" where
  "status_inv interval s \<longleftrightarrow>
    ss_IntervalTime s = interval \<and> ss_IntervalStartTime s \<le> ss_clock s \<and>
    sorted_wrt (\<lambda>a b. snd a = 101 \<longrightarrow> snd b = 101 \<longrightarrow> fst a + interval < fst b) (ss_started s) \<and>
    (\<forall>x \<in> set (ss_started s). snd x \<in> {1, 101} \<and> (snd x = 101 \<longrightarrow> fst x \<le> ss_IntervalStartTime s)) \<and>
    length (filter (\<lambda>x. snd x = 1) (ss_started s)) = (if ss_firstConnSuccess s then 1 else 0) \<and>
    mset (map snd (ss_started s)) =
      mset (ss_senders s) + mset (chan_buf (ss_StatusChan s)) + mset (status_calls (ss_calls s))"

lemma status_calls_append [simp]: "status_calls (cs @ [c]) = status_calls cs @ (case c of CallStatus n \<Rightarrow> [n] | CallFd _ \<Rightarrow> [])"
  by (simp add: status_calls_def)

lemma status_inv_start: "status_inv interval (status_start interval now)"
  by (simp add: status_inv_def status_start_def make_chan_def status_calls_def)

lemma status_inv_move:
  assumes "status_inv interval s" "ss_IntervalTime s' = ss_IntervalTime s" "ss_IntervalStartTime s' = ss_IntervalStartTime s"
    "ss_clock s \<le> ss_clock s'" "ss_started s' = ss_started s" "ss_firstConnSuccess s' = ss_firstConnSuccess s"
    "mset (ss_senders s') + mset (chan_buf (ss_StatusChan s')) + mset (status_calls (ss_calls s')) =
      mset (ss_senders s) + mset (chan_buf (ss_StatusChan s)) + mset (status_calls (ss_calls s))"
  shows "status_inv interval s'"
  using assms by (simp add: status_inv_def)

lemma mset_pick: "i < length xs \<Longrightarrow> mset xs = add_mset (xs ! i) (mset (take i xs @ drop (Suc i) xs))"
  by (subst id_take_nth_drop [of i xs]) simp_all

lemma status_inv_tick:
  assumes "status_inv interval s"
  shows "status_inv interval (checkIntervalTime s)"
  using assms by (fastforce simp: status_inv_def checkIntervalTime_def go_sendStatus_def sorted_wrt_append)

lemma status_inv_datagram:
  assumes "status_inv interval s"
  shows "status_inv interval (datagram_seen s)"
  using assms by (fastforce simp: status_inv_def datagram_seen_def go_sendStatus_def sorted_wrt_append Let_def)

lemma status_inv_send:
  assumes inv: "status_inv interval s" and run: "sendStatus i s = Some s'"
  shows "status_inv interval s'"
proof -
  from run obtain c where i: "i < length (ss_senders s)" and c: "chan_send (ss_StatusChan s) (ss_senders s ! i) = Some c"
    and s': "s' = s\<lparr>ss_senders := take i (ss_senders s) @ drop (Suc i) (ss_senders s), ss_StatusChan := c\<rparr>"
    by (auto simp: sendStatus_def split: if_splits)
  from c have "chan_buf c = chan_buf (ss_StatusChan s) @ [ss_senders s ! i]"
    by (auto simp: chan_send_def split: if_splits)
  then show ?thesis
    using mset_pick [OF i] by (intro status_inv_move [OF inv]) (simp_all add: s')
qed

lemma status_inv_step:
  assumes inv: "status_inv interval s" and run: "status_step ev s = Some s'"
  shows "status_inv interval s'"
proof (cases ev)
  case (Send_status i)
  with status_inv_send [OF inv] run show ?thesis by simp
next
  case Status_report
  with run obtain n c where c: "chan_recv (ss_StatusChan s) = Some (n, c)"
    "s' = s\<lparr>ss_StatusChan := c, ss_calls := ss_calls s @ [CallStatus n]\<rparr>"
    by (auto simp: status_call_def)
  then have "chan_buf (ss_StatusChan s) = n # chan_buf c" by (auto simp: chan_recv_def split: list.splits)
  moreover note c(2)
  ultimately show ?thesis by (intro status_inv_move [OF inv]) simp_all
qed (use run inv status_inv_tick status_inv_datagram status_inv_move [OF inv]
  in \<open>auto simp: status_fd_def split: if_splits\<close>)

lemma status_inv_run: "status_inv interval s \<Longrightarrow> status_run evs s = Some s' \<Longrightarrow> status_inv interval s'"
proof (induction evs arbitrary: s)
  case (Cons ev evs)
  then obtain s1 where "status_step ev s = Some s1" "status_run evs s1 = Some s'"
    by (auto split: Option.bind_splits)
  then show ?case using Cons.IH status_inv_step [OF Cons.prems(1)] by blast
qed simp

section \<open>After Start\<close>

lemma close_effect_unmade:
  assumes "dv_peers D = Some p" "tm_handshakeDeadline (p_timer (st_peer D p)) = None"
  shows "Close_effect D = (upd_timer (D\<lparr>dv_routingTable := rt_RemovePeer (dv_routingTable D) (Some p), dv_peers := None\<rparr>) p
    stopped_timers, False)"
  using close_panics [OF assms] assms(1) by (simp add: Close_effect_def Let_def)

lemma Init_done:
  assumes "config_valid N (config_of v) sk pk tk addr" "low_order_ok C" "\<not> keyIsZero sk" "0 < fd" "log_opens (log_path (cd_LogPath v))"
  shows "\<exists>a' D. Init C N log_opens a fd (Some v) now = Some (a', Init_done) \<and> ap_device a' = Some D \<and>
    configured C D sk pk tk addr"
proof -
  obtain D where D: "Init_device C N (config_of v) now = Some (D, None)" "configured C D sk pk tk addr"
    using Init_device_ok [OF assms(1-3)] by blast
  with assms(4,5) show ?thesis by (simp add: Init_def Let_def)
qed

section \<open>Properties\<close>




definition toy_configData :: configData where
  "toy_configData = \<lparr>cd_OwnPrivate = cf_OwnPrivate (toy_config 1 3), cd_OwnPublic = cf_OwnPublic (toy_config 1 3),
    cd_TheirPublic = cf_TheirPublic (toy_config 1 3), cd_Endpoint = cf_Endpoint (toy_config 1 3),
    cd_AllowIp = [], cd_LogPath = [], cd_IsIOS = [], cd_Ts = 0, cd_Sign = [], cd_Netmask = 32, cd_IntervalTime = 50,
    cd_IsCallbackIp = 0\<rparr>"


end
