(* ===== verification/Spec2Isabelle.thy ===== *)
theory Spec2Isabelle
  imports Session Completion Initiator Domain_Lookup Application
begin

text \<open>
  A model of a userspace VPN client in Go: its controller (src/controller), a descendant of the
  early WireGuard implementation, its entry points (src/main.go) and the lookup of its server
  (src/common). One device talks to one peer. The routines of the controller read packets from
  the TUN device, give each the next counter of the current key pair, encrypt and send them, and
  the other way round; a Noise handshake makes the key pairs, timers ask for it, and a replay
  filter, a routing table, cookies and a rate limiter guard what comes in.

  \<^bold>\<open>Conventions.\<close> A definition has the name of the Go function it models; a prefix tells methods
  of the same name apart (\<^verbatim>\<open>rt_\<close> routing table, \<^verbatim>\<open>it_\<close> index table, \<^verbatim>\<open>rf_\<close> replay filter, \<^verbatim>\<open>cc_\<close>
  and \<^verbatim>\<open>cg_\<close> cookies, \<^verbatim>\<open>hs_\<close> handshake, \<^verbatim>\<open>qo_\<close> and \<^verbatim>\<open>qi_\<close> work elements, \<^verbatim>\<open>tun_\<close> TUN device).
  Structures are records, integers are words of their width, byte arrays and slices are lists. A
  pointer to a peer, a key pair or a work element is a number that names an entry of a store in
  the record of the device, because the program shares and updates these through pointers; nil
  is None. A panic, a call that blocks and a loop that does not end are None of an option, a Go
  error is the left side of a sum. The clock, random reads, the results of system calls and what
  another goroutine does within a call are arguments.

  \<^bold>\<open>Components.\<close>
  \<^item> \<open>Prelude\<close>, \<open>Constants\<close>: byte codecs, bit strings of addresses, clock arithmetic; constants.go,
    ip.go, misc.go.
  \<^item> \<open>Trie\<close>, \<open>Routing\<close>: trie.go and routing.go. The abstract specification is a map from prefixes to
    peers with longest-prefix match; the locale \<open>prefix_table\<close> states it for both address families.
  \<^item> \<open>Replay\<close>: replay.go, with the ring of 64-bit words shown equal to a sliding window of sets of
    counters (locale \<open>replay_window\<close>).
  \<^item> \<open>Index_Table\<close>: index.go, with the two critical sections of \<^verbatim>\<open>NewIndex\<close> and what others do between
    them (locale \<open>index_store\<close>).
  \<^item> \<open>Ratelimiter\<close>: ratelimiter.go, the token bucket and its collector (locale \<open>limiter\<close>).
  \<^item> \<open>Tai64n\<close>, \<open>Wire\<close>: tai64.go, extend_data.go and the messages of noise_protocol.go with their wire
    images.
  \<^item> \<open>Crypto\<close>, \<open>Keys\<close>, \<open>XChaCha20\<close>: noise_helpers.go, noise_types.go, xchacha20.go and the key generation
    of main.go. The primitives of golang.org/x/crypto (BLAKE2s, Curve25519, ChaCha20-Poly1305) are
    the parameter \<open>crypto\<close>; their documented behaviour is \<open>sizes_ok\<close>, \<open>aead_ok\<close>, \<open>dh_ok\<close> (together
    \<open>crypto_ok\<close>), \<open>low_order_ok\<close> and \<open>overlap_refused\<close>, each named where a theorem needs it and met
    by a concrete suite in its witness. HMAC, the key derivation and HChaCha20 are written out.
  \<^item> \<open>Cookie\<close>: cookie.go, both sides of the exchange (locale \<open>cookie_exchange\<close>).
  \<^item> \<open>Channels\<close>: buffered channels, signals and timers of misc.go, and the five queues of send.go and
    receive.go that drop their oldest element (locale \<open>drop_queue\<close>, interpreted five times).
  \<^item> \<open>Noise_State\<close>, \<open>Noise_Protocol\<close>, \<open>Handshake_Agreement\<close>: the state in device.go, peer.go and
    keypair.go, and the handshake of noise_protocol.go with the derivation of key pairs.
  \<^item> \<open>Net_Text\<close>: the endpoints of conn.go over the parsers of Go's net package, which are written out
    (locale \<open>numeral_text\<close>, interpreted for both bases); dialling and the names of services are the
    parameter \<open>netenv\<close>.
  \<^item> \<open>Device_Ops\<close>, \<open>Uapi\<close>: construction and shutdown in device.go and peer.go, the configuration in
    uapi.go, conn.go and init.go.
  \<^item> \<open>Timers\<close>, \<open>Initiator\<close>: timers.go, the events and the two routines, the handshake initiator as a
    machine of program counters.
  \<^item> \<open>Send\<close>, \<open>Outbound\<close>: send.go and tun.go. \<open>Send\<close> holds each routine as a step on its program counter,
    \<open>Outbound\<close> the system of all of them for one peer, in which any interleaving is a run and
    everything else the program does to the shared state may happen between two steps.
  \<^item> \<open>Receive\<close>, \<open>Inbound\<close>: receive.go in the same way, with arbitrary datagrams coming in.
  \<^item> \<open>Transport\<close>: the two flows joined, and what single datagrams do to the workers.
  \<^item> \<open>Inbound_Progress\<close>, \<open>Handshake_Progress\<close>: from a device that serves its peer neither the inbound
    routines nor the handshake worker panic on what arrives, and the work of the flow comes to an end.
  \<^item> \<open>Key_Lifecycle\<close>: handshakes, derivation, confirmation and the clearing timer in any order, with the
    invariant that ties the index table, the handshakes and the key pairs together.
  \<^item> \<open>Completion\<close>: the response as a datagram, through the queue and the handshake worker to the new key
    pair.
  \<^item> \<open>Session\<close>: two configured devices, a handshake between them and a packet across.
  \<^item> \<open>Aes\<close>, \<open>Domain_Lookup\<close>: qt.go, aes_cbc.go and \<^verbatim>\<open>GetDomain\<close>, whose requests share variables with
    it. AES and CBC are the ones of the standard library, written out after FIPS 197.
  \<^item> \<open>Application\<close>: \<^verbatim>\<open>Init\<close>, \<^verbatim>\<open>Start\<close> and the status routine of main.go, the reports of init.go, the
    start of the routines, the routine for new sockets and the network monitor.
  \<^item> \<open>Log\<close>: logger.go over the text of files.

  \<^bold>\<open>What the lemmas show.\<close> Every data structure refines an abstract one or meets a locale of laws.
  The handshake ends in matching keys, refuses replays, leaves the state alone when it refuses
  and erases its secrets. On the way out only sealed packets leave, in order, no counter twice
  under a key; on the way in only contents that open under a key of the peer and come from its
  routes are written, no counter twice. Initiations and reports keep their distance in time,
  the sender's locks are released, no datagram panics the routines that handle it, the inbound flow
  always comes to rest, the search for an index ends. The configuration establishes
  what the handshake needs; \<open>Completion\<close> and \<open>Session\<close> join the parts. Where the code does not do what it
  means to, a theorem shows what it does: the handshake worker ends on one forged datagram,
  packets above 48 bytes stop the decryption with the pinned cipher library, a DNS answer ends
  the program, \<^verbatim>\<open>RemovePeer\<close> can lose routes of another peer, an unconfirmed key pair stays filed,
  a cleared handshake still gives a key, the deadline of a handshake does not end it, initiations
  have another size than the one declared, and \<^verbatim>\<open>Start\<close> leaves every routine running.

  \<^bold>\<open>Bounds and fuel.\<close> Recursions are structural or end by a measure, with three exceptions. The
  queues' loop is a \<^verbatim>\<open>partial_function\<close>; it is shown to return for every queue with room for one
  element. \<^verbatim>\<open>NewIndex\<close> runs over the list of its draws and is shown to return when enough of them
  differ. The rounds of AES take their number of words from the size of the key. Times are
  integers of nanoseconds; Go's clock arithmetic saturates only centuries away, which \<open>timeSub\<close>
  models where the zero time is subtracted.

  \<^bold>\<open>Not modelled.\<close> The calls of the log all over the program and the counters that only reach it, as
  no state depends on them; the text of error messages; JSON parsing; the handle of a socket (unsafenet.go copies private structures of the
  runtime to read it); ping.go and domain.go, which are commented out; examples; sleeping and the
  garbage collector. Mutexes of whole structures are not modelled where each operation is one
  critical section; a call that holds several is one step, and the interleavings are those of
  the steps. Reads and writes of the plain
  booleans of the timers are taken as atomic. Message buffers are modelled by name and by
  the bounds of what is read and written in place, not by their bytes.
\<close>

end
